(* ===== verification/Prelude.thy ===== *)
theory Prelude
  imports Main "HOL-Library.AList" "HOL-Library.Multiset" "HOL-Library.Word"
begin

text \<open>
  What every component shares: the outcome of a Go call (a value, a panic, or a loop that never
  returns), byte strings, Go's built-in map with its unspecified iteration order, the loop that
  every \<open>Range\<close> method runs over the entries, and the few operations of package \<open>strings\<close> and
  \<open>strconv\<close> the sources call. The collection \<open>kv_simps\<close> holds the equations that
  describe a finite map after one storage operation.
\<close>

named_theorems kv_simps \<open>equations for finite maps under storage operations\<close>

section \<open>Outcomes\<close>

text \<open>
  A Go call returns, panics, or runs forever. Both Go's \<open>string\<close> and \<open>[]byte\<close> are
  sequences of bytes, and Isabelle's \<open>char\<close> is one byte, so the conversions between the two Go
  types are the identity here.
\<close>

type_synonym bytes = string
type_synonym err = string

datatype 'a outcome = Ret 'a | Panic err | Hang

fun obind :: "'a outcome \<Rightarrow> ('a \<Rightarrow> 'b outcome) \<Rightarrow> 'b outcome" where
  "obind (Ret x) f = f x"
| "obind (Panic e) f = Panic e"
| "obind Hang f = Hang"

lemma obind_eq_Ret_iff: "obind m f = Ret y \<longleftrightarrow> (\<exists>x. m = Ret x \<and> f x = Ret y)"
  by (cases m) auto

lemma obind_assoc: "obind (obind m f) g = obind m (\<lambda>x. obind (f x) g)"
  by (cases m) auto

lemma obind_Ret_right [simp]: "obind m Ret = m"
  by (cases m) auto

text \<open>A call that panics where the source writes \<open>if err != nil { panic(err) }\<close>.\<close>

fun or_panic :: "err + 'a \<Rightarrow> 'a outcome" where
  "or_panic (Inl e) = Panic e"
| "or_panic (Inr x) = Ret x"

section \<open>Go's built-in map\<close>

text \<open>
  A Go map is an association list with distinct keys. The order in which \<open>for k, v := range m\<close>
  visits the entries is unspecified by the language: an operation that ranges takes an order
  \<open>ord\<close> as an argument, and the theorems hold for every \<open>ord\<close> that permutes the entries.
\<close>

type_synonym ('k, 'v) gomap = "('k \<times> 'v) list"
type_synonym ('k, 'v) order = "('k \<times> 'v) list \<Rightarrow> ('k \<times> 'v) list"

definition gomap_ok :: "('k, 'v) gomap \<Rightarrow> bool" where
  "gomap_ok m \<longleftrightarrow> distinct (map fst m)"

definition is_order :: "('k, 'v) order \<Rightarrow> bool" where
  "is_order ord \<longleftrightarrow> (\<forall>m. mset (ord m) = mset m)"

definition go_index_map :: "'v \<Rightarrow> ('k, 'v) gomap \<Rightarrow> 'k \<Rightarrow> 'v \<times> bool" where
  \<comment> \<open>\<open>v, ok := m[k]\<close>, with the zero value of V where the key is absent\<close>
  "go_index_map zv m k = (case map_of m k of None \<Rightarrow> (zv, False) | Some v \<Rightarrow> (v, True))"

lemma gomap_ok_Nil [simp, intro]: "gomap_ok []"
  by (simp add: gomap_ok_def)

lemma gomap_ok_update [simp, intro]: "gomap_ok m \<Longrightarrow> gomap_ok (AList.update k v m)"
  by (simp add: gomap_ok_def distinct_update)

lemma gomap_ok_delete [simp, intro]: "gomap_ok m \<Longrightarrow> gomap_ok (AList.delete k m)"
  by (simp add: gomap_ok_def distinct_delete)

lemma map_of_update [kv_simps]: "map_of (AList.update k v m) = (map_of m)(k \<mapsto> v)"
  by (simp add: update_conv')

lemma map_of_delete [kv_simps]: "map_of (AList.delete k m) = (map_of m)(k := None)"
  by (simp add: delete_conv')

text \<open>Deleting a list of keys one after the other removes exactly these keys.\<close>

fun delete_all :: "'k list \<Rightarrow> ('k, 'v) gomap \<Rightarrow> ('k, 'v) gomap" where
  "delete_all [] m = m"
| "delete_all (k # ks) m = delete_all ks (AList.delete k m)"

lemma gomap_ok_delete_all [simp, intro]: "gomap_ok m \<Longrightarrow> gomap_ok (delete_all ks m)"
  by (induction ks arbitrary: m) auto

lemma restrict_insert_upd: "m |` (- insert k A) = (m(k := None)) |` (- A)"
  by (auto simp: restrict_map_def fun_eq_iff)

lemma restrict_Cons: "m |` (- set (k # ks)) = (m(k := None)) |` (- set ks)"
  by (auto simp: restrict_map_def fun_eq_iff)

lemma restrict_UNIV [simp]: "m |` UNIV = m"
  by (auto simp: restrict_map_def fun_eq_iff)

lemma map_of_delete_all [kv_simps]: "map_of (delete_all ks m) = map_of m |` (- set ks)"
  by (induction ks arbitrary: m) (simp_all add: kv_simps restrict_insert_upd)

lemma restrict_singleton [kv_simps]: "m |` (- {k}) = m(k := None)"
  by (auto simp: restrict_map_def fun_eq_iff)

lemma card_dom_gomap: "gomap_ok m \<Longrightarrow> card (dom (map_of m)) = length m"
  by (simp add: gomap_ok_def dom_map_of_conv_image_fst) (metis distinct_card length_map list.set_map)

text \<open>A visit order lists the entries of the same map, each key once.\<close>

lemma order_mset: "is_order ord \<Longrightarrow> mset (ord m) = mset m"
  by (simp add: is_order_def)

lemma order_distinct: "is_order ord \<Longrightarrow> gomap_ok m \<Longrightarrow> distinct (map fst (ord m))"
  by (metis gomap_ok_def order_mset mset_map mset_eq_imp_distinct_iff)

lemma order_map_of: "is_order ord \<Longrightarrow> gomap_ok m \<Longrightarrow> map_of (ord m) = map_of m"
  by (metis gomap_ok_def order_distinct order_mset map_of_inject_set set_mset_mset)

lemma order_empty [simp]: "is_order ord \<Longrightarrow> ord m = [] \<longleftrightarrow> m = []"
  by (metis order_mset mset_zero_iff)

lemma is_order_id [simp, intro]: "is_order (\<lambda>m. m)"
  by (simp add: is_order_def)

lemma is_order_rev [simp, intro]: "is_order rev"
  by (simp add: is_order_def)

section \<open>Functional options\<close>

text \<open>\<open>for _, optfunc := range optfuncs { optfunc(opts) }\<close>: each option updates the record.\<close>

fun apply_opts :: "('o \<Rightarrow> 'o) list \<Rightarrow> 'o \<Rightarrow> 'o" where
  "apply_opts [] o1 = o1"
| "apply_opts (f # fs) o1 = apply_opts fs (f o1)"

lemma apply_opts_append [simp]: "apply_opts (fs @ gs) o1 = apply_opts gs (apply_opts fs o1)"
  by (induction fs arbitrary: o1) auto

text \<open>A field that none of the options writes keeps its value.\<close>

lemma apply_opts_frame:
  "\<forall>f \<in> set fs. \<forall>o1. get (f o1) = get o1 \<Longrightarrow> get (apply_opts fs o1) = get o1"
  by (induction fs arbitrary: o1) auto

section \<open>The loop of every Range method\<close>

text \<open>
  A callback is a state transformer: it sees a key and a value, updates the variables it closes
  over (of type \<open>'c\<close>) and returns whether to go on; it may panic. \<open>range_loop\<close> is
  \<open>for k, v := range entries { if !f(k, v) { break } }\<close>.
\<close>

type_synonym ('k, 'v, 'c) callback = "'k \<Rightarrow> 'v \<Rightarrow> 'c \<Rightarrow> (bool \<times> 'c) outcome"

fun range_loop :: "('k, 'v, 'c) callback \<Rightarrow> ('k \<times> 'v) list \<Rightarrow> 'c \<Rightarrow> 'c outcome" where
  "range_loop f [] c = Ret c"
| "range_loop f ((k, v) # es) c =
     obind (f k v c) (\<lambda>(go, c'). if go then range_loop f es c' else Ret c')"

text \<open>The callback that collects what it is shown, and never stops.\<close>

definition collect_cb :: "('k, 'v, ('k \<times> 'v) list) callback" where
  "collect_cb k v c = Ret (True, c @ [(k, v)])"

lemma range_loop_collect: "range_loop collect_cb es c = Ret (c @ es)"
  by (induction es arbitrary: c) (auto simp: collect_cb_def)

text \<open>The callback that keeps the first entry and stops, as every \<open>Next\<close> over \<open>Range\<close> uses.\<close>

definition first_cb :: "('k, 'v, 'k \<times> 'v) callback" where
  "first_cb k v c = Ret (False, (k, v))"

lemma range_loop_first:
  "range_loop first_cb es c = Ret (case es of [] \<Rightarrow> c | e # _ \<Rightarrow> e)"
  by (cases es) (auto simp: first_cb_def)

lemma range_loop_append:
  assumes "\<And>k v c. \<exists>c'. f k v c = Ret (True, c')"
  shows "range_loop f (xs @ ys) c = obind (range_loop f xs c) (range_loop f ys)"
proof (induction xs arbitrary: c)
  case Nil
  then show ?case by simp
next
  case (Cons x xs)
  obtain k v where "x = (k, v)" by force
  moreover obtain c' where "f k v c = Ret (True, c')" using assms by blast
  ultimately show ?case using Cons by simp
qed

end
