(* ===== verification/Storage_Interface.thy ===== *)
theory Storage_Interface
  imports Prelude
begin

text \<open>
  The interface \<open>IMightyMapStorage\<close> of \<open>storage/mightymapStore.go\<close> (and \<open>byteStorage\<close>,
  which is the same interface at value type \<open>[]byte\<close>) as a method table, and what it promises
  as locales: \<open>kv_core\<close> (Load, Store, Delete, Clear against a finite map), \<open>kv_iter\<close>
  (Range, Keys), \<open>kv_len\<close> (Len) and \<open>kv_next\<close> (Next). The split follows the backends:
  not each of them keeps every promise.
\<close>

section \<open>The method table\<close>

text \<open>
  A Go interface value is a method table and a receiver. Every method takes the receiver's state
  \<open>'s\<close> and, where it can change it, returns the new state. The \<open>context.Context\<close>
  argument, which the in-memory backends ignore, is not part of the state: a backend call that
  misses its deadline is an error of that backend's library.
\<close>

record ('s, 'k, 'v, 'c) storage_ops =
  op_Load :: "'s \<Rightarrow> 'k \<Rightarrow> ('v \<times> bool) outcome"
  op_Store :: "'s \<Rightarrow> 'k \<Rightarrow> 'v \<Rightarrow> 's outcome"
  op_Delete :: "'s \<Rightarrow> 'k list \<Rightarrow> 's outcome"
  op_Range :: "'s \<Rightarrow> ('k, 'v, 'c) callback \<Rightarrow> 'c \<Rightarrow> 'c outcome"
  op_Keys :: "'s \<Rightarrow> 'k list outcome"
  op_Next :: "'s \<Rightarrow> (('k \<times> 'v \<times> bool) \<times> 's) outcome"
  op_Len :: "'s \<Rightarrow> (int \<times> 's) outcome"
  op_Clear :: "'s \<Rightarrow> 's outcome"
  op_Close :: "'s \<Rightarrow> (err option \<times> 's) outcome"

text \<open>The interface at \<open>[]byte\<close>, for the storages behind the MessagePack adapter.\<close>

type_synonym ('s, 'k, 'c) byteStorage = "('s, 'k, bytes, 'c) storage_ops"

section \<open>What a method returns, over the abstract map\<close>

definition lookup_result :: "'v \<Rightarrow> ('k \<rightharpoonup> 'v) \<Rightarrow> 'k \<Rightarrow> 'v \<times> bool" where
  "lookup_result zv m k = (case m k of None \<Rightarrow> (zv, False) | Some v \<Rightarrow> (v, True))"

definition enumerates :: "('k \<rightharpoonup> 'v) \<Rightarrow> ('k \<times> 'v) list \<Rightarrow> bool" where
  "enumerates m es \<longleftrightarrow> distinct (map fst es) \<and> map_of es = m"

text \<open>
  \<open>Next\<close> returns zero values and false on an empty map; otherwise it returns some entry of the
  map and removes it.
\<close>

definition next_result ::
  "'k \<Rightarrow> 'v \<Rightarrow> ('k \<rightharpoonup> 'v) \<Rightarrow> 'k \<times> 'v \<times> bool \<Rightarrow> ('k \<rightharpoonup> 'v) \<Rightarrow> bool" where
  "next_result zk zv m r m' \<longleftrightarrow>
     (case r of (k, v, ok) \<Rightarrow>
        if m = Map.empty then (k, v, ok) = (zk, zv, False) \<and> m' = m
        else ok \<and> m k = Some v \<and> m' = m(k := None))"

lemma go_index_map_lookup [kv_simps]: "go_index_map zv m k = lookup_result zv (map_of m) k"
  by (simp add: go_index_map_def lookup_result_def)

lemma lookup_result_upd [simp]:
  "lookup_result zv (m(k \<mapsto> v)) k' = (if k' = k then (v, True) else lookup_result zv m k')"
  by (simp add: lookup_result_def)

lemma lookup_result_del [simp]:
  "lookup_result zv (m(k := None)) k' = (if k' = k then (zv, False) else lookup_result zv m k')"
  by (simp add: lookup_result_def)

lemma lookup_result_empty [simp]: "lookup_result zv Map.empty k = (zv, False)"
  by (simp add: lookup_result_def)

lemma lookup_result_restrict [simp]:
  "lookup_result zv (m |` (- A)) k = (if k \<in> A then (zv, False) else lookup_result zv m k)"
  by (simp add: lookup_result_def restrict_map_def)

lemma snd_lookup_result [simp]: "snd (lookup_result zv m k) \<longleftrightarrow> k \<in> dom m"
  by (auto simp: lookup_result_def split: option.splits)

lemma enumerates_order: "is_order ord \<Longrightarrow> gomap_ok m \<Longrightarrow> enumerates (map_of m) (ord m)"
  by (simp add: enumerates_def order_distinct order_map_of)

lemma enumerates_keys:
  assumes "enumerates m es"
  shows "distinct (map fst es)" and "set (map fst es) = dom m" and "length es = card (dom m)"
proof -
  show d: "distinct (map fst es)" using assms by (simp add: enumerates_def)
  show s: "set (map fst es) = dom m"
    using assms unfolding enumerates_def by (metis dom_map_of_conv_image_fst list.set_map)
  show "length es = card (dom m)"
    using distinct_card[OF d] s by simp
qed

lemma enumerates_set: "enumerates m es \<Longrightarrow> (k, v) \<in> set es \<longleftrightarrow> m k = Some v"
  by (auto simp: enumerates_def dest: map_of_SomeD)

lemma enumerates_Nil [simp]: "enumerates m [] \<longleftrightarrow> m = Map.empty"
  by (auto simp: enumerates_def)

lemma enumerates_Cons: "enumerates m ((k, v) # es) \<Longrightarrow> m k = Some v \<and> m \<noteq> Map.empty"
  by (auto simp: enumerates_def)

text \<open>
  The test \<open>key != *new(K)\<close> after a \<open>Range\<close> that stops at the first entry: on a map without
  the zero key it tells an empty map from one that holds an entry.
\<close>

lemma next_of_first_entry:
  assumes "enumerates m es" "zk \<notin> dom m"
  shows "next_result zk zv m
    (case es of [] \<Rightarrow> (zk, zv, False) | (k, v) # _ \<Rightarrow> (k, v, k \<noteq> zk))
    (case es of [] \<Rightarrow> m | (k, v) # _ \<Rightarrow> m(k := None))"
proof (cases es)
  case Nil
  with assms show ?thesis by (simp add: next_result_def)
next
  case (Cons e es')
  obtain k v where "e = (k, v)" by force
  with Cons assms enumerates_Cons[of m k v es'] show ?thesis
    by (auto simp: next_result_def)
qed

section \<open>The contract\<close>

text \<open>
  \<open>ops e\<close> is the method table under the choice \<open>e\<close> that the environment makes for one
  call (the visit order of a Go map, the reading of the clock); \<open>eok\<close> says which choices can
  occur. \<open>sinv\<close> is the representation invariant (with what is assumed of a third-party
  library), \<open>amap\<close> the finite map a state stands for, and \<open>kok\<close>, \<open>vok\<close> the keys and
  values the backend accepts (those its encoder and its library accept).
\<close>

locale kv_core =
  fixes ops :: "'e \<Rightarrow> ('s, 'k, 'v, 'c) storage_ops"
    and eok :: "'e \<Rightarrow> bool"
    and sinv :: "'s \<Rightarrow> bool"
    and amap :: "'s \<Rightarrow> 'k \<rightharpoonup> 'v"
    and kok :: "'k \<Rightarrow> bool"
    and vok :: "'v \<Rightarrow> bool"
    and zv :: "'v"
  assumes finite_abs: "sinv s \<Longrightarrow> finite (dom (amap s))"
    and abs_ok: "sinv s \<Longrightarrow> amap s k = Some v \<Longrightarrow> kok k \<and> vok v"
    and Load_spec: "eok e \<Longrightarrow> sinv s \<Longrightarrow> kok k \<Longrightarrow>
      op_Load (ops e) s k = Ret (lookup_result zv (amap s) k)"
    and Store_spec: "eok e \<Longrightarrow> sinv s \<Longrightarrow> kok k \<Longrightarrow> vok v \<Longrightarrow>
      \<exists>s'. op_Store (ops e) s k v = Ret s' \<and> sinv s' \<and> amap s' = (amap s)(k \<mapsto> v)"
    and Delete_spec: "eok e \<Longrightarrow> sinv s \<Longrightarrow> \<forall>k \<in> set ks. kok k \<Longrightarrow>
      \<exists>s'. op_Delete (ops e) s ks = Ret s' \<and> sinv s' \<and> amap s' = amap s |` (- set ks)"
    and Clear_spec: "eok e \<Longrightarrow> sinv s \<Longrightarrow>
      \<exists>s'. op_Clear (ops e) s = Ret s' \<and> sinv s' \<and> amap s' = Map.empty"
begin

lemma Store_then_Load:
  assumes "eok e" "eok e'" "sinv s" "kok k" "kok k'" "vok v"
  obtains s' where "op_Store (ops e) s k v = Ret s'" and "sinv s'"
    and "op_Load (ops e') s' k' = (if k' = k then Ret (v, True) else op_Load (ops e') s k')"
proof -
  obtain s' where s': "op_Store (ops e) s k v = Ret s'" "sinv s'" "amap s' = (amap s)(k \<mapsto> v)"
    using Store_spec assms by blast
  show thesis by (rule that[OF s'(1,2)]) (use assms s' in \<open>simp add: Load_spec\<close>)
qed

lemma Delete_one_spec:
  assumes "eok e" "sinv s" "kok k"
  shows "\<exists>s'. op_Delete (ops e) s [k] = Ret s' \<and> sinv s' \<and> amap s' = (amap s)(k := None)"
  using Delete_spec[OF assms(1,2), of "[k]"] assms(3) by (simp add: kv_simps)

end

locale kv_iter = kv_core +
  assumes Range_spec: "eok e \<Longrightarrow> sinv s \<Longrightarrow>
      \<exists>es. enumerates (amap s) es \<and> (\<forall>f c. op_Range (ops e) s f c = range_loop f es c)"
    and Keys_spec: "eok e \<Longrightarrow> sinv s \<Longrightarrow>
      \<exists>ks. op_Keys (ops e) s = Ret ks \<and> distinct ks \<and> set ks = dom (amap s)"

locale kv_len = kv_core +
  assumes Len_spec: "eok e \<Longrightarrow> sinv s \<Longrightarrow>
      \<exists>s'. op_Len (ops e) s = Ret (int (card (dom (amap s))), s') \<and> sinv s' \<and> amap s' = amap s"

locale kv_next = kv_core +
  fixes zk :: "'k"
  assumes Next_spec: "eok e \<Longrightarrow> sinv s \<Longrightarrow>
      \<exists>r s'. op_Next (ops e) s = Ret (r, s') \<and> sinv s' \<and> next_result zk zv (amap s) r (amap s')"
begin

text \<open>A call to Next on a non-empty map returns an entry, so the map gets smaller.\<close>

lemma Next_progress:
  assumes "eok e" "sinv s" "amap s \<noteq> Map.empty"
  shows "\<exists>k v s'. op_Next (ops e) s = Ret ((k, v, True), s') \<and> sinv s' \<and> amap s k = Some v \<and>
    amap s' = (amap s)(k := None) \<and> card (dom (amap s')) < card (dom (amap s))"
proof -
  obtain k v ok s' where n: "op_Next (ops e) s = Ret ((k, v, ok), s')" "sinv s'"
    "next_result zk zv (amap s) (k, v, ok) (amap s')"
    using Next_spec[OF assms(1,2)] by (metis prod_cases3)
  then have a: "ok" "amap s k = Some v" "amap s' = (amap s)(k := None)"
    using assms(3) by (auto simp: next_result_def)
  moreover have "dom (amap s') \<subset> dom (amap s)" using a(2,3) by auto
  then have "card (dom (amap s')) < card (dom (amap s))"
    using finite_abs[OF assms(2)] by (simp add: psubset_card_mono)
  ultimately show ?thesis using n(1,2) by auto
qed

end

text \<open>A backend that keeps every promise of the interface.\<close>

locale kv_store =
  kv_iter ops eok sinv amap kok vok zv + kv_len ops eok sinv amap kok vok zv +
  kv_next ops eok sinv amap kok vok zv zk
  for ops :: "'e \<Rightarrow> ('s, 'k, 'v, 'c) storage_ops" and eok sinv amap kok vok zv zk
begin

lemma Len_is_number_of_Keys:
  assumes "eok e" "sinv s"
  shows "\<exists>ks s'. op_Keys (ops e) s = Ret ks \<and> op_Len (ops e) s = Ret (int (length ks), s')"
proof -
  obtain ks where ks: "op_Keys (ops e) s = Ret ks" "distinct ks" "set ks = dom (amap s)"
    using Keys_spec assms by blast
  then have "length ks = card (dom (amap s))" by (metis distinct_card)
  with ks Len_spec[OF assms] show ?thesis by auto
qed

end

section \<open>Draining a storage\<close>

text \<open>
  The loop \<open>for { k, v, ok := Next(ctx); if !ok { break }; ... }\<close> with the entries it sees, at
  most \<open>n\<close> rounds, the environment's choice of each round given by \<open>es\<close>.
\<close>

fun drain ::
  "('e \<Rightarrow> 's \<Rightarrow> (('k \<times> 'v \<times> bool) \<times> 's) outcome) \<Rightarrow> (nat \<Rightarrow> 'e) \<Rightarrow> nat \<Rightarrow> 's \<Rightarrow>
    (('k \<times> 'v) list \<times> bool \<times> 's) outcome" where
  "drain nxt e 0 s = Ret ([], False, s)"
| "drain nxt e (Suc n) s =
     obind (nxt (e n) s) (\<lambda>((k, v, ok), s').
       if ok then obind (drain nxt e n s') (\<lambda>(out, fin, s''). Ret ((k, v) # out, fin, s''))
       else Ret ([], True, s'))"

context kv_next
begin

text \<open>One round more than there are entries: the loop ends, having seen each entry once.\<close>

lemma drain_all:
  assumes "\<And>i. eok (e i)" "sinv s" "card (dom (amap s)) < n"
  shows "\<exists>out s'. drain (\<lambda>e. op_Next (ops e)) e n s = Ret (out, True, s') \<and>
    enumerates (amap s) out \<and> sinv s' \<and> amap s' = Map.empty"
  using assms(2,3)
proof (induction n arbitrary: s)
  case 0
  then show ?case by simp
next
  case (Suc n)
  show ?case
  proof (cases "amap s = Map.empty")
    case True
    with Next_spec[OF assms(1) Suc.prems(1), of n] show ?thesis
      by (auto simp: next_result_def enumerates_def)
  next
    case False
    then obtain k v s' where n: "op_Next (ops (e n)) s = Ret ((k, v, True), s')" "sinv s'"
      "amap s k = Some v" "amap s' = (amap s)(k := None)" "card (dom (amap s')) < card (dom (amap s))"
      using Next_progress[OF assms(1) Suc.prems(1)] by metis
    then obtain out s'' where d: "drain (\<lambda>e. op_Next (ops e)) e n s' = Ret (out, True, s'')"
      "enumerates (amap s') out" "sinv s''" "amap s'' = Map.empty"
      using Suc.IH[OF n(2)] Suc.prems(2) n(5) by (meson less_le_trans less_Suc_eq_le)
    have "k \<notin> fst ` set out"
      using enumerates_keys(2)[OF d(2)] n(4) by auto
    then have "enumerates (amap s) ((k, v) # out)"
      using d(2) n(3,4) by (auto simp: enumerates_def)
    with n(1) d(1,3,4) show ?thesis by auto
  qed
qed

end

end
