(* ===== verification/Key_Codec.thy ===== *)
theory Key_Codec
  imports Storage_Interface
begin

text \<open>
  The three persistent backends encode their keys with \<open>msgpack.Marshal\<close> and decode them with
  \<open>msgpack.Unmarshal\<close> before and after every access. The library at key type K is the parameter
  \<open>kc\<close>; this theory relates the map of encoded keys a database holds to the map of keys it
  stands for.
\<close>

record 'k key_codec =
  key_marshal :: "'k \<Rightarrow> err + bytes"
  key_unmarshal :: "bytes \<Rightarrow> err + 'k"

text \<open>
  The keys a backend can work with: they encode, the encoding decodes to the same key, and it
  satisfies the backend's own bounds \<open>fit\<close>.
\<close>

definition key_ok :: "'k key_codec \<Rightarrow> (bytes \<Rightarrow> bool) \<Rightarrow> 'k \<Rightarrow> bool" where
  "key_ok kc fit k \<longleftrightarrow>
     (case key_marshal kc k of Inl e \<Rightarrow> False | Inr b \<Rightarrow> key_unmarshal kc b = Inr k \<and> fit b)"

definition key_map :: "'k key_codec \<Rightarrow> (bytes \<Rightarrow> bool) \<Rightarrow> (bytes \<rightharpoonup> 'v) \<Rightarrow> 'k \<rightharpoonup> 'v" where
  "key_map kc fit m k =
     (if key_ok kc fit k then (case key_marshal kc k of Inl e \<Rightarrow> None | Inr b \<Rightarrow> m b) else None)"

text \<open>Every encoded key of the database is the encoding of a usable key.\<close>

definition keys_decode :: "'k key_codec \<Rightarrow> (bytes \<Rightarrow> bool) \<Rightarrow> (bytes \<rightharpoonup> 'v) \<Rightarrow> bool" where
  "keys_decode kc fit m \<longleftrightarrow>
     (\<forall>b \<in> dom m. \<exists>k. key_ok kc fit k \<and> key_marshal kc k = Inr b)"

lemma key_okE:
  assumes "key_ok kc fit k"
  obtains b where "key_marshal kc k = Inr b" "key_unmarshal kc b = Inr k" "fit b"
  using assms by (auto simp: key_ok_def split: sum.splits)

lemma key_marshal_inj:
  "key_ok kc fit k \<Longrightarrow> key_ok kc fit k' \<Longrightarrow> key_marshal kc k = key_marshal kc k' \<Longrightarrow> k = k'"
  by (auto simp: key_ok_def split: sum.splits)

lemma key_map_apply: "key_ok kc fit k \<Longrightarrow> key_marshal kc k = Inr b \<Longrightarrow> key_map kc fit m k = m b"
  by (simp add: key_map_def)

lemma key_map_ok: "key_map kc fit m k = Some v \<Longrightarrow> key_ok kc fit k"
  by (simp add: key_map_def split: if_splits)

lemma key_map_empty [simp]: "key_map kc fit Map.empty = Map.empty"
  by (auto simp: key_map_def fun_eq_iff split: sum.splits)

lemma key_map_upd:
  assumes "key_ok kc fit k" "key_marshal kc k = Inr b"
  shows "key_map kc fit (m(b := x)) = (key_map kc fit m)(k := x)"
proof
  fix k'
  show "key_map kc fit (m(b := x)) k' = ((key_map kc fit m)(k := x)) k'"
  proof (cases "key_ok kc fit k'")
    case False
    with assms show ?thesis by (auto simp: key_map_def)
  next
    case True
    then obtain b' where b': "key_marshal kc k' = Inr b'" by (rule key_okE)
    with True assms have "b' = b \<longleftrightarrow> k' = k" using key_marshal_inj by fastforce
    with True b' show ?thesis by (simp add: key_map_apply)
  qed
qed

lemma keys_decode_upd:
  "keys_decode kc fit m \<Longrightarrow> key_ok kc fit k \<Longrightarrow> key_marshal kc k = Inr b \<Longrightarrow>
    keys_decode kc fit (m(b := x))"
  by (auto simp: keys_decode_def split: if_splits)

lemma keys_decode_empty [simp]: "keys_decode kc fit Map.empty"
  by (simp add: keys_decode_def)

lemma keys_decode_sub: "keys_decode kc fit m \<Longrightarrow> dom m' \<subseteq> dom m \<Longrightarrow> keys_decode kc fit m'"
  unfolding keys_decode_def by (meson subsetD)

text \<open>Decoding the keys of an enumeration of the database enumerates the map of keys.\<close>

definition decode_key :: "'k key_codec \<Rightarrow> bytes \<Rightarrow> 'k" where
  "decode_key kc b = projr (key_unmarshal kc b)"

definition decode_keys :: "'k key_codec \<Rightarrow> (bytes \<times> 'v) list \<Rightarrow> ('k \<times> 'v) list" where
  "decode_keys kc es = map (\<lambda>(b, v). (decode_key kc b, v)) es"

lemma keys_decodeE:
  assumes "keys_decode kc fit m" "m b = Some v"
  obtains k where "key_ok kc fit k" "key_marshal kc k = Inr b" "key_unmarshal kc b = Inr k"
    "decode_key kc b = k" "key_map kc fit m k = Some v"
proof -
  obtain k where k: "key_ok kc fit k" "key_marshal kc k = Inr b"
    using assms by (auto simp: keys_decode_def)
  then have u: "key_unmarshal kc b = Inr k" by (auto simp: key_ok_def)
  have "decode_key kc b = k" using u by (simp add: decode_key_def)
  moreover have "key_map kc fit m k = Some v" using key_map_apply[OF k, of m] assms(2) by simp
  ultimately show thesis using that k u by blast
qed

lemma set_decode_keys:
  assumes kd: "keys_decode kc fit m" and en: "enumerates m es"
  shows "(k, v) \<in> set (decode_keys kc es) \<longleftrightarrow> key_map kc fit m k = Some v"
proof
  assume "(k, v) \<in> set (decode_keys kc es)"
  then obtain b where b: "(b, v) \<in> set es" "k = decode_key kc b" by (auto simp: decode_keys_def)
  then have "m b = Some v" using enumerates_set[OF en] by simp
  with keys_decodeE[OF kd this] b(2) show "key_map kc fit m k = Some v" by metis
next
  assume kv: "key_map kc fit m k = Some v"
  then have "key_ok kc fit k" by (rule key_map_ok)
  then obtain b where b: "key_marshal kc k = Inr b" "key_unmarshal kc b = Inr k" by (rule key_okE)
  with kv have "m b = Some v" using \<open>key_ok kc fit k\<close> by (simp add: key_map_apply)
  then have "(b, v) \<in> set es" using enumerates_set[OF en] by simp
  moreover have "decode_key kc b = k" using b(2) by (simp add: decode_key_def)
  ultimately show "(k, v) \<in> set (decode_keys kc es)" by (force simp: decode_keys_def)
qed

lemma decode_keys_enumerates:
  assumes kd: "keys_decode kc fit m" and en: "enumerates m es"
  shows "enumerates (key_map kc fit m) (decode_keys kc es)"
proof -
  have inj: "inj_on (decode_key kc) (set (map fst es))"
  proof (rule inj_onI)
    fix b b' assume b: "b \<in> set (map fst es)" "b' \<in> set (map fst es)"
      and eq: "decode_key kc b = decode_key kc b'"
    obtain v v' where "m b = Some v" "m b' = Some v'"
      using b enumerates_keys(2)[OF en] by auto
    with eq show "b = b'"
      using keys_decodeE[OF kd] by (metis sum.inject(2))
  qed
  have k: "map fst (decode_keys kc es) = map (decode_key kc) (map fst es)"
    by (auto simp: decode_keys_def)
  then have d: "distinct (map fst (decode_keys kc es))"
    using inj enumerates_keys(1)[OF en] by (simp only: distinct_map)
  have "map_of (decode_keys kc es) k = key_map kc fit m k" for k
  proof (cases "key_map kc fit m k")
    case None
    with set_decode_keys[OF kd en, of k] show ?thesis
      by (metis map_of_SomeD not_None_eq)
  next
    case (Some v)
    with set_decode_keys[OF kd en, of k v] d show ?thesis by simp
  qed
  with d show ?thesis by (simp add: enumerates_def fun_eq_iff)
qed

lemma key_map_dom_card:
  assumes "keys_decode kc fit m" "enumerates m es"
  shows "card (dom (key_map kc fit m)) = length es"
  using enumerates_keys(3)[OF decode_keys_enumerates[OF assms]] by (simp add: decode_keys_def)

lemma key_map_finite:
  assumes "keys_decode kc fit m" "finite (dom m)"
  shows "finite (dom (key_map kc fit m))"
proof -
  have "dom (key_map kc fit m) \<subseteq> decode_key kc ` dom m"
  proof
    fix k assume "k \<in> dom (key_map kc fit m)"
    then obtain v where v: "key_map kc fit m k = Some v" by auto
    then have ok: "key_ok kc fit k" by (rule key_map_ok)
    then obtain b where b: "key_marshal kc k = Inr b" "key_unmarshal kc b = Inr k" by (rule key_okE)
    with v ok have "b \<in> dom m" by (auto simp: key_map_apply)
    with b(2) show "k \<in> decode_key kc ` dom m" by (force simp: decode_key_def)
  qed
  with assms(2) show ?thesis by (meson finite_imageI finite_subset)
qed

end
