(* ===== verification/Msgpack_Codec.thy ===== *)
theory Msgpack_Codec
  imports Storage_Interface
begin

text \<open>
  The value codec of \<open>storage/msgpackAdapter.go\<close>: Go's dynamic values and types as far as the
  code looks at them (\<open>reflect.TypeOf\<close>, \<open>Kind\<close>, \<open>Elem\<close>, \<open>String\<close>), the process-wide type
  registry, \<open>msgpackEncodeValue\<close> and \<open>msgpackDecodeValue\<close>. The MessagePack library
  (github.com/vmihailenco/msgpack) is the parameter \<open>mp\<close>; \<open>msgpack_ok\<close> states what is assumed
  of it.
\<close>

section \<open>Types and dynamic values\<close>

text \<open>
  A named type has an import path and the short name \<open>String()\<close> prints, \<open>pkg.Name\<close>: two types
  of packages with the same last path element print alike.
\<close>

datatype gotype =
    Basic string
  | Named string string
  | PtrTo gotype
  | SliceOf gotype
  | MapOf gotype gotype
  | Iface string

datatype kind = Pointer | Interface | OtherKind

fun type_String :: "gotype \<Rightarrow> string" where
  "type_String (Basic n) = n"
| "type_String (Named path n) = n"
| "type_String (PtrTo t) = ''*'' @ type_String t"
| "type_String (SliceOf t) = ''[]'' @ type_String t"
| "type_String (MapOf k v) = ''map['' @ type_String k @ '']'' @ type_String v"
| "type_String (Iface n) = n"

fun type_Kind :: "gotype \<Rightarrow> kind" where
  "type_Kind (PtrTo t) = Pointer"
| "type_Kind (Iface n) = Interface"
| "type_Kind _ = OtherKind"

fun type_Elem :: "gotype \<Rightarrow> gotype" where
  "type_Elem (PtrTo t) = t"
| "type_Elem t = t"

text \<open>
  What an \<open>interface{}\<close> holds: nothing, a \<open>string\<close>, or a value of another dynamic type with a
  payload the code never inspects.
\<close>

datatype 'p goval = GNil | GStr string | GVal gotype 'p

fun typeOf :: "'p goval \<Rightarrow> gotype option" where
  "typeOf GNil = None"
| "typeOf (GStr s) = Some (Basic ''string'')"
| "typeOf (GVal t p) = Some t"

fun as_string :: "'p goval option \<Rightarrow> string option" where
  \<comment> \<open>the type assertion \<open>wrapper["type"].(string)\<close>; a missing entry is the nil interface\<close>
  "as_string (Some (GStr s)) = Some s"
| "as_string _ = None"

section \<open>The library\<close>

text \<open>
  \<open>marshal_map\<close> and \<open>unmarshal_map\<close> are \<open>Marshal\<close> of, and \<open>Unmarshal\<close> into, a
  \<open>map[string]interface{}\<close>; \<open>unmarshal t\<close> decodes into a fresh variable of type \<open>t\<close>.
\<close>

record 'p msgpack =
  marshal_map :: "(string, 'p goval) gomap \<Rightarrow> err + bytes"
  unmarshal_map :: "bytes \<Rightarrow> err + (string, 'p goval) gomap"
  marshal :: "'p goval \<Rightarrow> err + bytes"
  unmarshal :: "gotype \<Rightarrow> bytes \<Rightarrow> err + 'p goval"

text \<open>
  What the code relies on. \<open>gen v\<close> is the value that decoding \<open>v\<close>'s encoding into an
  \<open>interface{}\<close> gives (a struct becomes a \<open>map[string]interface{}\<close>, an \<open>int\<close> the smallest
  integer type that fits); \<open>plain\<close> are the values MessagePack represents without loss.
\<close>

definition msgpack_ok ::
  "'p msgpack \<Rightarrow> ('p goval \<Rightarrow> 'p goval) \<Rightarrow> ('p goval \<Rightarrow> bool) \<Rightarrow> bool" where
  "msgpack_ok mp gen plain \<longleftrightarrow>
     (\<forall>w b. marshal_map mp w = Inr b \<longrightarrow>
        b \<noteq> [] \<and> (\<exists>w'. unmarshal_map mp b = Inr w' \<and> map_of w' = map_option gen \<circ> map_of w)) \<and>
     (\<forall>s. gen (GStr s) = GStr s) \<and> gen GNil = GNil \<and>
     (\<forall>v t. plain v \<and> typeOf v = Some t \<longrightarrow>
        (\<exists>b. marshal mp (gen v) = Inr b \<and> unmarshal mp t b = Inr v)) \<and>
     (\<forall>v i. plain v \<longrightarrow> (\<exists>b. marshal mp (gen v) = Inr b \<and> unmarshal mp (Iface i) b = Inr (gen v)))"

section \<open>The type registry\<close>

type_synonym registry = "string \<rightharpoonup> gotype"

definition RegisterMsgpackType :: "registry \<Rightarrow> 'p goval \<Rightarrow> registry" where
  "RegisterMsgpackType reg value =
     (let t = map_option (\<lambda>t. if type_Kind t = Pointer then type_Elem t else t) (typeOf value)
      in case t of None \<Rightarrow> reg | Some t \<Rightarrow> reg(type_String t \<mapsto> t))"

section \<open>Encoding\<close>

text \<open>The wrapper map and the registry after it is built.\<close>

definition wrap_value :: "registry \<Rightarrow> 'p goval \<Rightarrow> (string, 'p goval) gomap \<times> registry" where
  "wrap_value reg value =
     (let wrapper = [(''data'', value)] in
      case typeOf value of
        None \<Rightarrow> (wrapper, reg)
      | Some t \<Rightarrow>
          if type_Kind t \<noteq> Interface then
            (AList.update ''type'' (GStr (type_String t)) wrapper,
             if reg (type_String t) = None then RegisterMsgpackType reg value else reg)
          else (wrapper, reg))"

definition msgpackEncodeValue ::
  "'p msgpack \<Rightarrow> registry \<Rightarrow> 'p goval \<Rightarrow> (err + bytes) \<times> registry" where
  "msgpackEncodeValue mp reg value =
     (let (wrapper, reg') = wrap_value reg value in
      (case marshal_map mp wrapper of
         Inl e \<Rightarrow> Inl (''failed to msgpack encode value: '' @ e)
       | Inr encoded \<Rightarrow> Inr encoded, reg'))"

section \<open>Decoding\<close>

text \<open>
  The codec at a type parameter V: its static type, its zero value, and which dynamic types can
  be stored in it when it is an interface.
\<close>

record 'p codec =
  cd_mp :: "'p msgpack"
  cd_type :: gotype
  cd_zero :: "'p goval"
  cd_implements :: "gotype \<Rightarrow> bool"

definition assignable :: "'p codec \<Rightarrow> 'p goval \<Rightarrow> bool" where
  "assignable cd v = (case typeOf v of None \<Rightarrow> False | Some t \<Rightarrow> cd_implements cd t)"

text \<open>Encode the generic data again and decode it into V, with the code's two error texts.\<close>

definition transcode :: "'p codec \<Rightarrow> string \<Rightarrow> string \<Rightarrow> 'p goval \<Rightarrow> err + 'p goval" where
  "transcode cd msg_enc msg_dec rawData =
     (case marshal (cd_mp cd) rawData of
        Inl e \<Rightarrow> Inl (msg_enc @ e)
      | Inr encoded \<Rightarrow>
          (case unmarshal (cd_mp cd) (cd_type cd) encoded of
             Inl e \<Rightarrow> Inl (msg_dec @ e)
           | Inr value \<Rightarrow> Inr value))"

definition msgpackDecodeValue ::
  "'p codec \<Rightarrow> registry \<Rightarrow> bytes \<Rightarrow> (err + 'p goval) outcome" where
  "msgpackDecodeValue cd reg data =
     (if length data = 0 then Ret (Inr (cd_zero cd))
      else case unmarshal_map (cd_mp cd) data of
        Inl e \<Rightarrow> Ret (Inl (''failed to msgpack decode value: '' @ e))
      | Inr wrapper \<Rightarrow>
        (case map_of wrapper ''data'' of
           None \<Rightarrow>
             (case unmarshal (cd_mp cd) (cd_type cd) data of
                Inl e \<Rightarrow> Ret (Inl (''failed to msgpack decode value: '' @ e))
              | Inr value \<Rightarrow> Ret (Inr value))
         | Some rawData \<Rightarrow>
             (case as_string (map_of wrapper ''type'') of
                None \<Rightarrow> Ret (transcode cd ''failed to re-encode inner data: ''
                               ''failed to decode inner data: '' rawData)
              | Some typeName \<Rightarrow>
                (case reg typeName of
                   None \<Rightarrow> Ret (transcode cd ''failed to re-encode inner data: ''
                                  ''failed to decode inner data: '' rawData)
                 | Some valueType \<Rightarrow>
                   (case marshal (cd_mp cd) rawData of
                      Inl e \<Rightarrow> Ret (Inl (''failed to re-encode inner data: '' @ e))
                    | Inr reencoded \<Rightarrow>
                      (case unmarshal (cd_mp cd) valueType reencoded of
                         Inl e \<Rightarrow> Ret (Inl (''failed to decode to concrete type: '' @ e))
                       | Inr newValue \<Rightarrow>
                           if type_Kind (cd_type cd) = Interface then
                             (if assignable cd newValue then Ret (Inr newValue)
                              else Panic ''reflect.Set: value is not assignable'')
                           else Ret (transcode cd ''failed to re-encode data: ''
                                  ''failed to decode to expected type: '' rawData)))))))"

section \<open>Round trip\<close>

text \<open>
  The types of a program whose names are told apart by \<open>String()\<close>, and a registry that holds
  such types only, each under its own name.
\<close>

definition registry_ok :: "gotype set \<Rightarrow> registry \<Rightarrow> bool" where
  "registry_ok T reg \<longleftrightarrow>
     inj_on type_String T \<and> (\<forall>n t. reg n = Some t \<longrightarrow> type_String t = n \<and> t \<in> T)"

text \<open>
  The values the codec keeps: representable, of types in \<open>T\<close>; of V's own type, or, where V is an
  interface, nil or a value whose dynamic type implements V and is not a pointer.
\<close>

definition storable :: "'p codec \<Rightarrow> ('p goval \<Rightarrow> bool) \<Rightarrow> gotype set \<Rightarrow> 'p goval \<Rightarrow> bool" where
  "storable cd plain T v \<longleftrightarrow>
     plain v \<and> (\<forall>t. typeOf v = Some t \<longrightarrow> t \<in> T \<and> type_Elem t \<in> T \<and> type_Kind t \<noteq> Interface) \<and>
     (if type_Kind (cd_type cd) = Interface
      then \<forall>t. typeOf v = Some t \<longrightarrow> type_Kind t \<noteq> Pointer \<and> cd_implements cd t
      else typeOf v = Some (cd_type cd)) \<and>
     (\<forall>reg. \<exists>b. fst (msgpackEncodeValue (cd_mp cd) reg v) = Inr b)"

text \<open>The bytes \<open>b\<close> encode \<open>v\<close>, and the registry knows what decoding \<open>v\<close> needs.\<close>

definition encodes :: "'p codec \<Rightarrow> registry \<Rightarrow> 'p goval \<Rightarrow> bytes \<Rightarrow> bool" where
  "encodes cd reg v b \<longleftrightarrow>
     marshal_map (cd_mp cd) (fst (wrap_value reg v)) = Inr b \<and>
     (type_Kind (cd_type cd) = Interface \<longrightarrow>
        (\<forall>t. typeOf v = Some t \<longrightarrow> reg (type_String t) = Some t))"

lemma fst_wrap_value: "fst (wrap_value reg v) = fst (wrap_value reg' v)"
  by (simp add: wrap_value_def Let_def split: option.splits)

lemma wrap_value_lookup:
  "map_of (fst (wrap_value reg v)) ''data'' = Some v"
  "typeOf v = None \<Longrightarrow> map_of (fst (wrap_value reg v)) ''type'' = None"
  "typeOf v = Some t \<Longrightarrow> type_Kind t \<noteq> Interface \<Longrightarrow>
     map_of (fst (wrap_value reg v)) ''type'' = Some (GStr (type_String t))"
  by (simp_all add: wrap_value_def Let_def split: option.splits)

lemma Iface_iff: "type_Kind t = Interface \<longleftrightarrow> (\<exists>n. t = Iface n)"
  by (cases t) auto

lemma Pointer_iff: "type_Kind t = Pointer \<longleftrightarrow> (\<exists>u. t = PtrTo u)"
  by (cases t) auto

lemma msgpack_okD:
  assumes "msgpack_ok mp gen plain"
  shows "marshal_map mp w = Inr b \<Longrightarrow>
      b \<noteq> [] \<and> (\<exists>w'. unmarshal_map mp b = Inr w' \<and> map_of w' = map_option gen \<circ> map_of w)"
    and "gen (GStr s) = GStr s" and "gen GNil = GNil"
    and "plain v \<Longrightarrow> typeOf v = Some t \<Longrightarrow>
      \<exists>b. marshal mp (gen v) = Inr b \<and> unmarshal mp t b = Inr v"
    and "plain v \<Longrightarrow> \<exists>b. marshal mp (gen v) = Inr b \<and> unmarshal mp (Iface i) b = Inr (gen v)"
  using assms unfolding msgpack_ok_def by blast+

text \<open>What decoding an encoded value comes down to: its generic image, and the registry entry.\<close>

lemma decode_encoded:
  assumes ok: "msgpack_ok (cd_mp cd) gen plain"
    and enc: "marshal_map (cd_mp cd) (fst (wrap_value reg v)) = Inr b"
    and kind: "\<And>t. typeOf v = Some t \<Longrightarrow> type_Kind t \<noteq> Interface"
  obtains w where "b \<noteq> []" and "unmarshal_map (cd_mp cd) b = Inr w"
    and "map_of w ''data'' = Some (gen v)"
    and "as_string (map_of w ''type'') = map_option type_String (typeOf v)"
proof -
  obtain w where w: "b \<noteq> []" "unmarshal_map (cd_mp cd) b = Inr w"
    "map_of w = map_option gen \<circ> map_of (fst (wrap_value reg v))"
    using msgpack_okD(1)[OF ok enc] by blast
  moreover have "as_string (map_of w ''type'') = map_option type_String (typeOf v)"
    using w(3) kind msgpack_okD(2)[OF ok]
    by (cases "typeOf v") (simp_all add: wrap_value_lookup)
  moreover have "map_of w ''data'' = Some (gen v)"
    using w(3) by (simp add: wrap_value_lookup)
  ultimately show thesis using that by blast
qed

lemma msgpack_roundtrip_decode:
  assumes ok: "msgpack_ok (cd_mp cd) gen plain" and reg: "registry_ok T reg"
    and v: "storable cd plain T v" and enc: "encodes cd reg v b"
  shows "msgpackDecodeValue cd reg b = Ret (Inr v)"
proof -
  have kind: "type_Kind t \<noteq> Interface" if "typeOf v = Some t" for t
    using v that by (simp add: storable_def)
  obtain w where w: "b \<noteq> []" "unmarshal_map (cd_mp cd) b = Inr w"
    "map_of w ''data'' = Some (gen v)"
    "as_string (map_of w ''type'') = map_option type_String (typeOf v)"
    using decode_encoded[OF ok _ kind] enc unfolding encodes_def by metis
  have plain: "plain v" using v by (simp add: storable_def)
  show ?thesis
  proof (cases "typeOf v")
    case None
    then have "v = GNil" by (cases v) auto
    moreover obtain i where "cd_type cd = Iface i"
      using v None by (auto simp: storable_def Iface_iff split: if_splits)
    ultimately show ?thesis
      using w None msgpack_okD(5)[OF ok plain, of i] msgpack_okD(3)[OF ok]
      by (auto simp: msgpackDecodeValue_def transcode_def)
  next
    case (Some t)
    obtain b' where b': "marshal (cd_mp cd) (gen v) = Inr b'" "unmarshal (cd_mp cd) t b' = Inr v"
      using msgpack_okD(4)[OF ok plain Some] by blast
    have entry: "u = t" if "reg (type_String t) = Some u" for u
      using reg that v Some unfolding registry_ok_def storable_def by (meson inj_onD)
    show ?thesis
    proof (cases "type_Kind (cd_type cd) = Interface")
      case True
      then have "reg (type_String t) = Some t" using enc Some by (simp add: encodes_def)
      moreover have "assignable cd v" using v True Some by (simp add: storable_def assignable_def)
      ultimately show ?thesis using w Some b' True by (simp add: msgpackDecodeValue_def)
    next
      case False
      then have "cd_type cd = t" using v Some by (simp add: storable_def)
      then show ?thesis using w Some b' False entry
        by (auto simp: msgpackDecodeValue_def transcode_def split: option.splits)
    qed
  qed
qed

text \<open>Encoding a storable value gives bytes that encode it, and keeps what the registry had.\<close>

lemma RegisterMsgpackType_new:
  assumes "registry_ok T reg" and "storable cd plain T v" and "typeOf v = Some t"
  shows "registry_ok T (RegisterMsgpackType reg v)"
    and "n \<in> dom reg \<Longrightarrow> RegisterMsgpackType reg v n = reg n"
    and "type_Kind t \<noteq> Pointer \<Longrightarrow> RegisterMsgpackType reg v (type_String t) = Some t"
proof -
  have "t \<in> T" "type_Elem t \<in> T" using assms by (simp_all add: storable_def)
  then show "registry_ok T (RegisterMsgpackType reg v)"
    using assms by (auto simp: RegisterMsgpackType_def registry_ok_def Let_def)
  show "RegisterMsgpackType reg v n = reg n" if "n \<in> dom reg"
    using that assms \<open>t \<in> T\<close> \<open>type_Elem t \<in> T\<close>
    by (auto simp: RegisterMsgpackType_def registry_ok_def Let_def inj_on_def)
  show "type_Kind t \<noteq> Pointer \<Longrightarrow> RegisterMsgpackType reg v (type_String t) = Some t"
    using assms(3) by (simp add: RegisterMsgpackType_def)
qed

lemma msgpackEncodeValue_spec:
  assumes reg: "registry_ok T reg" and v: "storable cd plain T v"
    and enc: "msgpackEncodeValue (cd_mp cd) reg v = (r, reg')"
  shows "\<exists>b. r = Inr b \<and> encodes cd reg' v b" and "registry_ok T reg'" and "reg \<subseteq>\<^sub>m reg'"
proof -
  obtain b where b: "r = Inr b" using v enc by (metis fst_conv storable_def)
  have snd: "reg' = snd (wrap_value reg v)"
    using enc by (simp add: msgpackEncodeValue_def split: prod.splits)
  have m: "marshal_map (cd_mp cd) (fst (wrap_value reg' v)) = Inr b"
    using enc b fst_wrap_value[of reg' v reg]
    by (auto simp: msgpackEncodeValue_def split: prod.splits sum.splits)
  have *: "registry_ok T reg' \<and> reg \<subseteq>\<^sub>m reg' \<and>
    (type_Kind (cd_type cd) = Interface \<longrightarrow> (\<forall>t. typeOf v = Some t \<longrightarrow> reg' (type_String t) = Some t))"
  proof (cases "typeOf v")
    case None
    then show ?thesis using reg snd by (simp add: wrap_value_def)
  next
    case (Some t)
    then have k: "type_Kind t \<noteq> Interface" using v by (simp add: storable_def)
    note new = RegisterMsgpackType_new[OF reg v Some]
    have ptr: "type_Kind (cd_type cd) = Interface \<Longrightarrow> type_Kind t \<noteq> Pointer"
      using v Some by (simp add: storable_def)
    show ?thesis
    proof (cases "reg (type_String t)")
      case None
      then have "reg' = RegisterMsgpackType reg v"
        using snd Some k by (simp add: wrap_value_def)
      then show ?thesis using new ptr Some by (auto simp: map_le_def)
    next
      case (Some u)
      then have "reg' = reg" using snd \<open>typeOf v = Some t\<close> k by (simp add: wrap_value_def)
      moreover have "u = t"
        using reg Some v \<open>typeOf v = Some t\<close> unfolding registry_ok_def storable_def
        by (meson inj_onD)
      ultimately show ?thesis using reg Some \<open>typeOf v = Some t\<close> by simp
    qed
  qed
  show "\<exists>b. r = Inr b \<and> encodes cd reg' v b" using b m * by (simp add: encodes_def)
  show "registry_ok T reg'" "reg \<subseteq>\<^sub>m reg'" using * by simp_all
qed

text \<open>A larger registry still decodes what a smaller one encoded.\<close>

lemma encodes_mono: "encodes cd reg v b \<Longrightarrow> reg \<subseteq>\<^sub>m reg' \<Longrightarrow> encodes cd reg' v b"
  unfolding encodes_def
  by (metis (no_types, lifting) domI fst_wrap_value map_le_def)

end
