(* ===== verification/Msgpack_Adapter.thy ===== *)
theory Msgpack_Adapter
  imports Msgpack_Codec
begin

text \<open>
  \<open>msgpackAdapter\<close> of \<open>storage/msgpackAdapter.go\<close>: any byte storage, with values encoded on the
  way in and decoded on the way out. Its contract is inherited: for each part of the interface
  that the byte storage keeps, the adapter keeps it for the values the codec can represent. What
  happens to bytes that do not decode is stated separately.
\<close>

section \<open>The adapter's methods\<close>

text \<open>
  The registry is a variable of the package, shared by all adapters of the process; it is kept
  beside the storage because the methods of one adapter read and extend it.
\<close>

record 's adapter =
  ad_storage :: 's
  ad_registry :: registry

definition newMsgpackAdapter :: "'s \<Rightarrow> registry \<Rightarrow> 's adapter" where
  "newMsgpackAdapter s reg = \<lparr>ad_storage = s, ad_registry = reg\<rparr>"

definition adapter_Load ::
  "'p codec \<Rightarrow> ('s, 'k, 'c) byteStorage \<Rightarrow> 's adapter \<Rightarrow> 'k \<Rightarrow> ('p goval \<times> bool) outcome"
where
  "adapter_Load cd ops m key =
     obind (op_Load ops (ad_storage m) key) (\<lambda>(data, ok).
       if \<not> ok then Ret (cd_zero cd, False)
       else obind (msgpackDecodeValue cd (ad_registry m) data) (\<lambda>r.
         case r of Inl err \<Rightarrow> Ret (cd_zero cd, False) | Inr decoded \<Rightarrow> Ret (decoded, True)))"

definition adapter_Store ::
  "'p codec \<Rightarrow> ('s, 'k, 'c) byteStorage \<Rightarrow> 's adapter \<Rightarrow> 'k \<Rightarrow> 'p goval \<Rightarrow> 's adapter outcome"
where
  "adapter_Store cd ops m key value =
     (let (r, reg') = msgpackEncodeValue (cd_mp cd) (ad_registry m) value in
      case r of
        Inl err \<Rightarrow> Ret (m\<lparr>ad_registry := reg'\<rparr>)
      | Inr encoded \<Rightarrow> obind (op_Store ops (ad_storage m) key encoded) (\<lambda>s'.
          Ret \<lparr>ad_storage = s', ad_registry = reg'\<rparr>))"

definition adapter_Delete ::
  "('s, 'k, 'c) byteStorage \<Rightarrow> 's adapter \<Rightarrow> 'k list \<Rightarrow> 's adapter outcome" where
  "adapter_Delete ops m keys =
     obind (op_Delete ops (ad_storage m) keys) (\<lambda>s'. Ret (m\<lparr>ad_storage := s'\<rparr>))"

definition adapter_Range ::
  "'p codec \<Rightarrow> ('s, 'k, 'c) byteStorage \<Rightarrow> 's adapter \<Rightarrow> ('k, 'p goval, 'c) callback \<Rightarrow> 'c
    \<Rightarrow> 'c outcome" where
  "adapter_Range cd ops m f =
     op_Range ops (ad_storage m) (\<lambda>key data c.
       obind (msgpackDecodeValue cd (ad_registry m) data) (\<lambda>r.
         case r of Inl err \<Rightarrow> Ret (True, c) | Inr decoded \<Rightarrow> f key decoded c))"

definition adapter_Keys :: "('s, 'k, 'c) byteStorage \<Rightarrow> 's adapter \<Rightarrow> 'k list outcome" where
  "adapter_Keys ops m = op_Keys ops (ad_storage m)"

definition adapter_Next ::
  "'p codec \<Rightarrow> ('s, 'k, 'c) byteStorage \<Rightarrow> 's adapter \<Rightarrow>
    (('k \<times> 'p goval \<times> bool) \<times> 's adapter) outcome" where
  "adapter_Next cd ops m =
     obind (op_Next ops (ad_storage m)) (\<lambda>((k, data, ok), s').
       if \<not> ok then Ret ((k, cd_zero cd, False), m\<lparr>ad_storage := s'\<rparr>)
       else obind (msgpackDecodeValue cd (ad_registry m) data) (\<lambda>r.
         case r of
           Inl err \<Rightarrow> Ret ((k, cd_zero cd, False), m\<lparr>ad_storage := s'\<rparr>)
         | Inr decoded \<Rightarrow> Ret ((k, decoded, True), m\<lparr>ad_storage := s'\<rparr>)))"

definition adapter_Len ::
  "('s, 'k, 'c) byteStorage \<Rightarrow> 's adapter \<Rightarrow> (int \<times> 's adapter) outcome" where
  "adapter_Len ops m =
     obind (op_Len ops (ad_storage m)) (\<lambda>(n, s'). Ret (n, m\<lparr>ad_storage := s'\<rparr>))"

definition adapter_Clear ::
  "('s, 'k, 'c) byteStorage \<Rightarrow> 's adapter \<Rightarrow> 's adapter outcome" where
  "adapter_Clear ops m =
     obind (op_Clear ops (ad_storage m)) (\<lambda>s'. Ret (m\<lparr>ad_storage := s'\<rparr>))"

definition adapter_Close ::
  "('s, 'k, 'c) byteStorage \<Rightarrow> 's adapter \<Rightarrow> (err option \<times> 's adapter) outcome" where
  "adapter_Close ops m =
     obind (op_Close ops (ad_storage m)) (\<lambda>(e, s'). Ret (e, m\<lparr>ad_storage := s'\<rparr>))"

definition adapter_ops ::
  "'p codec \<Rightarrow> ('s, 'k, 'c) byteStorage \<Rightarrow> ('s adapter, 'k, 'p goval, 'c) storage_ops" where
  "adapter_ops cd ops =
     \<lparr>op_Load = adapter_Load cd ops, op_Store = adapter_Store cd ops,
      op_Delete = adapter_Delete ops, op_Range = adapter_Range cd ops,
      op_Keys = adapter_Keys ops, op_Next = adapter_Next cd ops,
      op_Len = adapter_Len ops, op_Clear = adapter_Clear ops, op_Close = adapter_Close ops\<rparr>"

section \<open>The adapter's map\<close>

text \<open>A key's value is what its bytes decode to; bytes that do not decode hold no value.\<close>

definition decode_opt :: "'p codec \<Rightarrow> registry \<Rightarrow> bytes \<Rightarrow> 'p goval option" where
  "decode_opt cd reg b = (case msgpackDecodeValue cd reg b of Ret (Inr v) \<Rightarrow> Some v | _ \<Rightarrow> None)"

definition adapter_abs ::
  "'p codec \<Rightarrow> ('s \<Rightarrow> 'k \<rightharpoonup> bytes) \<Rightarrow> 's adapter \<Rightarrow> 'k \<rightharpoonup> 'p goval" where
  "adapter_abs cd amap m = (\<lambda>k. Option.bind (amap (ad_storage m) k) (decode_opt cd (ad_registry m)))"

text \<open>The values that are stored without loss and whose bytes the storage accepts.\<close>

definition adapter_vok ::
  "'p codec \<Rightarrow> ('p goval \<Rightarrow> bool) \<Rightarrow> gotype set \<Rightarrow> (bytes \<Rightarrow> bool) \<Rightarrow> 'p goval \<Rightarrow> bool" where
  "adapter_vok cd plain T vok v \<longleftrightarrow>
     storable cd plain T v \<and>
     (\<forall>reg b. fst (msgpackEncodeValue (cd_mp cd) reg v) = Inr b \<longrightarrow> vok b)"

definition adapter_inv ::
  "'p codec \<Rightarrow> ('p goval \<Rightarrow> 'p goval) \<Rightarrow> ('p goval \<Rightarrow> bool) \<Rightarrow> gotype set \<Rightarrow> (bytes \<Rightarrow> bool) \<Rightarrow>
    ('s \<Rightarrow> bool) \<Rightarrow> ('s \<Rightarrow> 'k \<rightharpoonup> bytes) \<Rightarrow> 's adapter \<Rightarrow> bool" where
  "adapter_inv cd gen plain T vok sinv amap m \<longleftrightarrow>
     msgpack_ok (cd_mp cd) gen plain \<and> registry_ok T (ad_registry m) \<and> sinv (ad_storage m) \<and>
     (\<forall>k b. amap (ad_storage m) k = Some b \<longrightarrow>
        (\<exists>v. adapter_vok cd plain T vok v \<and> encodes cd (ad_registry m) v b))"

lemma adapter_invD:
  assumes "adapter_inv cd gen plain T vok sinv amap m"
  shows "msgpack_ok (cd_mp cd) gen plain" and "registry_ok T (ad_registry m)"
    and "sinv (ad_storage m)"
    and "amap (ad_storage m) k = Some b \<Longrightarrow>
      \<exists>v. adapter_vok cd plain T vok v \<and> encodes cd (ad_registry m) v b"
  using assms unfolding adapter_inv_def by blast+

text \<open>A new adapter in front of an empty storage.\<close>

lemma adapter_fresh:
  assumes "msgpack_ok (cd_mp cd) gen plain" "registry_ok T reg" "sinv s" "amap s = Map.empty"
  shows "adapter_inv cd gen plain T vok sinv amap (newMsgpackAdapter s reg)"
    and "adapter_abs cd amap (newMsgpackAdapter s reg) = Map.empty"
  using assms by (simp_all add: adapter_inv_def adapter_abs_def newMsgpackAdapter_def)

text \<open>Under the invariant every stored byte string decodes to a value that encodes to it.\<close>

lemma adapter_decode:
  assumes "adapter_inv cd gen plain T vok sinv amap m" "amap (ad_storage m) k = Some b"
  obtains v where "adapter_vok cd plain T vok v" "encodes cd (ad_registry m) v b"
    "msgpackDecodeValue cd (ad_registry m) b = Ret (Inr v)"
    "adapter_abs cd amap m k = Some v"
proof -
  note d = adapter_invD[OF assms(1)]
  obtain v where v: "adapter_vok cd plain T vok v" "encodes cd (ad_registry m) v b"
    using d(4)[OF assms(2)] by blast
  moreover from this have "msgpackDecodeValue cd (ad_registry m) b = Ret (Inr v)"
    using msgpack_roundtrip_decode[OF d(1,2)] by (simp add: adapter_vok_def)
  ultimately show thesis using assms(2) that by (simp add: adapter_abs_def decode_opt_def)
qed

lemma adapter_abs_None [simp]:
  "amap (ad_storage m) k = None \<Longrightarrow> adapter_abs cd amap m k = None"
  by (simp add: adapter_abs_def)

lemma adapter_dom:
  assumes "adapter_inv cd gen plain T vok sinv amap m"
  shows "dom (adapter_abs cd amap m) = dom (amap (ad_storage m))"
proof (rule set_eqI)
  fix k
  show "k \<in> dom (adapter_abs cd amap m) \<longleftrightarrow> k \<in> dom (amap (ad_storage m))"
  proof (cases "amap (ad_storage m) k")
    case None
    then show ?thesis by (simp add: domIff)
  next
    case (Some b)
    with adapter_decode[OF assms Some] show ?thesis by (auto simp: domIff)
  qed
qed

text \<open>Decoding the entries of an enumeration enumerates the adapter's map.\<close>

definition decode_entries ::
  "'p codec \<Rightarrow> registry \<Rightarrow> ('k \<times> bytes) list \<Rightarrow> ('k \<times> 'p goval) list" where
  "decode_entries cd reg es = map (\<lambda>(k, b). (k, the (decode_opt cd reg b))) es"

lemma decode_entries_enumerates:
  assumes sinv: "adapter_inv cd gen plain T vok sinv amap m"
    and en: "enumerates (amap (ad_storage m)) es"
  shows "enumerates (adapter_abs cd amap m) (decode_entries cd (ad_registry m) es)"
proof -
  let ?d = "\<lambda>b. the (decode_opt cd (ad_registry m) b)"
  have "map_of (decode_entries cd (ad_registry m) es) = map_option ?d \<circ> map_of es"
    by (simp add: decode_entries_def map_of_map)
  also have "\<dots> = adapter_abs cd amap m"
  proof
    fix k
    show "(map_option ?d \<circ> map_of es) k = adapter_abs cd amap m k"
    proof (cases "amap (ad_storage m) k")
      case None
      with en show ?thesis by (simp add: enumerates_def)
    next
      case (Some b)
      then obtain v where "msgpackDecodeValue cd (ad_registry m) b = Ret (Inr v)"
        "adapter_abs cd amap m k = Some v"
        using adapter_decode[OF sinv] by metis
      with Some en show ?thesis by (simp add: enumerates_def decode_opt_def)
    qed
  qed
  finally have m: "map_of (decode_entries cd (ad_registry m) es) = adapter_abs cd amap m" .
  have "map fst (decode_entries cd (ad_registry m) es) = map fst es"
    by (auto simp: decode_entries_def)
  with m en show ?thesis by (simp add: enumerates_def)
qed

text \<open>The adapter's Range, over entries that all decode, is a range over the decoded entries.\<close>

lemma range_loop_decoded:
  assumes "\<forall>(k, b) \<in> set es. \<exists>v. msgpackDecodeValue cd reg b = Ret (Inr v)"
  shows "range_loop (\<lambda>key data c. obind (msgpackDecodeValue cd reg data) (\<lambda>r.
      case r of Inl err \<Rightarrow> Ret (True, c) | Inr decoded \<Rightarrow> f key decoded c)) es c =
    range_loop f (decode_entries cd reg es) c"
  using assms
proof (induction es arbitrary: c)
  case Nil
  then show ?case by (simp add: decode_entries_def)
next
  case (Cons e es)
  obtain k b where e: "e = (k, b)" by force
  with Cons.prems obtain v where "msgpackDecodeValue cd reg b = Ret (Inr v)" by auto
  with e Cons show ?case
    by (cases "f k v c") (auto simp: decode_entries_def decode_opt_def)
qed

section \<open>The contract, inherited\<close>

text \<open>
  The environment of a call is the byte storage's. The codec \<open>cd\<close>, the library's generic images
  \<open>gen\<close>, the representable values \<open>plain\<close> and the program's types \<open>T\<close> are parameters.
\<close>

locale msgpack_core = kv_core ops eok sinv amap kok vok "[]"
  for ops :: "'e \<Rightarrow> ('s, 'k, 'c) byteStorage" and eok sinv amap kok vok +
  fixes cd :: "'p codec" and gen :: "'p goval \<Rightarrow> 'p goval" and plain :: "'p goval \<Rightarrow> bool"
    and T :: "gotype set"
begin

abbreviation "a_ops e \<equiv> adapter_ops cd (ops e)"
abbreviation "a_inv \<equiv> adapter_inv cd gen plain T vok sinv amap"
abbreviation "a_abs \<equiv> adapter_abs cd amap"
abbreviation "a_vok \<equiv> adapter_vok cd plain T vok"

lemma adapter_Load_spec:
  assumes "eok e" "a_inv m" "kok k"
  shows "adapter_Load cd (ops e) m k = Ret (lookup_result (cd_zero cd) (a_abs m) k)"
proof (cases "amap (ad_storage m) k")
  case None
  then show ?thesis using assms adapter_invD(3)[OF assms(2)]
    by (simp add: adapter_Load_def Load_spec lookup_result_def)
next
  case (Some b)
  from adapter_decode[OF assms(2) Some] obtain v where
    "msgpackDecodeValue cd (ad_registry m) b = Ret (Inr v)" "a_abs m k = Some v" .
  with Some assms adapter_invD(3)[OF assms(2)] show ?thesis
    by (simp add: adapter_Load_def Load_spec lookup_result_def)
qed

text \<open>Storing under a key, or removing keys, in a state whose entries all decode.\<close>

lemma adapter_Store_spec:
  assumes "eok e" "a_inv m" "kok k" "a_vok v"
  shows "\<exists>m'. adapter_Store cd (ops e) m k v = Ret m' \<and> a_inv m' \<and> a_abs m' = (a_abs m)(k \<mapsto> v)"
proof -
  note d = adapter_invD[OF assms(2)]
  obtain r reg' where e: "msgpackEncodeValue (cd_mp cd) (ad_registry m) v = (r, reg')" by force
  have st: "storable cd plain T v" using assms(4) by (simp add: adapter_vok_def)
  obtain b where b: "r = Inr b" "encodes cd reg' v b"
    using msgpackEncodeValue_spec(1)[OF d(2) st e] by blast
  have reg': "registry_ok T reg'" "ad_registry m \<subseteq>\<^sub>m reg'"
    using msgpackEncodeValue_spec(2,3)[OF d(2) st e] by simp_all
  have "vok b" using assms(4) e b(1) unfolding adapter_vok_def by (metis fst_conv)
  then obtain s' where s': "op_Store (ops e) (ad_storage m) k b = Ret s'" "sinv s'"
    "amap s' = (amap (ad_storage m))(k \<mapsto> b)"
    using Store_spec assms(1,3) d(3) by blast
  let ?m = "\<lparr>ad_storage = s', ad_registry = reg'\<rparr>"
  have inv: "a_inv ?m"
    unfolding adapter_inv_def
  proof (intro conjI allI impI)
    fix k' b' assume kb: "amap (ad_storage ?m) k' = Some b'"
    show "\<exists>v. a_vok v \<and> encodes cd (ad_registry ?m) v b'"
    proof (cases "k' = k")
      case True
      with kb s'(3) assms(4) b(2) show ?thesis by auto
    next
      case False
      with kb s'(3) d(4) encodes_mono[OF _ reg'(2)] show ?thesis by fastforce
    qed
  qed (use d(1) reg'(1) s'(2) in simp_all)
  have "a_abs ?m k' = ((a_abs m)(k \<mapsto> v)) k'" for k'
  proof (cases "k' = k")
    case True
    then show ?thesis
      using msgpack_roundtrip_decode[OF d(1) reg'(1) st b(2)] s'(3)
      by (simp add: adapter_abs_def decode_opt_def)
  next
    case False
    show ?thesis
    proof (cases "amap (ad_storage m) k'")
      case None
      with False s'(3) show ?thesis by simp
    next
      case (Some b')
      obtain u where u: "adapter_vok cd plain T vok u" "encodes cd (ad_registry m) u b'"
        "a_abs m k' = Some u"
        using adapter_decode[OF assms(2) Some] by metis
      have "msgpackDecodeValue cd reg' b' = Ret (Inr u)"
        using msgpack_roundtrip_decode[OF d(1) reg'(1) _ encodes_mono[OF u(2) reg'(2)]] u(1)
        by (simp add: adapter_vok_def)
      with False Some s'(3) u(3) show ?thesis by (simp add: adapter_abs_def decode_opt_def)
    qed
  qed
  then have "a_abs ?m = (a_abs m)(k \<mapsto> v)" by blast
  with inv s'(1) e b(1) show ?thesis by (simp add: adapter_Store_def)
qed

text \<open>A storage that only lost entries keeps the invariant, and the map loses the same keys.\<close>

lemma adapter_shrink:
  assumes "a_inv m" "sinv s'" "amap s' = amap (ad_storage m) |` A"
  shows "a_inv (m\<lparr>ad_storage := s'\<rparr>)" and "a_abs (m\<lparr>ad_storage := s'\<rparr>) = a_abs m |` A"
proof -
  note d = adapter_invD[OF assms(1)]
  show "a_inv (m\<lparr>ad_storage := s'\<rparr>)"
    using assms(2,3) d unfolding adapter_inv_def
    by (auto simp: restrict_map_def split: if_splits)
  show "a_abs (m\<lparr>ad_storage := s'\<rparr>) = a_abs m |` A"
    using assms(3) by (auto simp: adapter_abs_def restrict_map_def fun_eq_iff)
qed

lemma adapter_Delete_spec:
  assumes "eok e" "a_inv m" "\<forall>k \<in> set ks. kok k"
  shows "\<exists>m'. adapter_Delete (ops e) m ks = Ret m' \<and> a_inv m' \<and> a_abs m' = a_abs m |` (- set ks)"
proof -
  obtain s' where "op_Delete (ops e) (ad_storage m) ks = Ret s'" "sinv s'"
    "amap s' = amap (ad_storage m) |` (- set ks)"
    using Delete_spec assms(1,3) adapter_invD(3)[OF assms(2)] by blast
  with adapter_shrink[OF assms(2)] show ?thesis by (simp add: adapter_Delete_def)
qed

lemma adapter_Clear_spec:
  assumes "eok e" "a_inv m"
  shows "\<exists>m'. adapter_Clear (ops e) m = Ret m' \<and> a_inv m' \<and> a_abs m' = Map.empty"
proof -
  obtain s' where s': "op_Clear (ops e) (ad_storage m) = Ret s'" "sinv s'" "amap s' = Map.empty"
    using Clear_spec assms(1) adapter_invD(3)[OF assms(2)] by blast
  then have r: "amap s' = amap (ad_storage m) |` {}" by simp
  from adapter_shrink[OF assms(2) s'(2) r] s'(1) show ?thesis by (simp add: adapter_Clear_def)
qed

lemma adapter_finite: "a_inv m \<Longrightarrow> finite (dom (a_abs m))"
proof -
  assume "a_inv m"
  from finite_abs[OF adapter_invD(3)[OF this]] show ?thesis by (simp only: adapter_dom[OF \<open>a_inv m\<close>])
qed

lemma adapter_abs_ok: "a_inv m \<Longrightarrow> a_abs m k = Some v \<Longrightarrow> kok k \<and> a_vok v"
proof -
  assume inv: "a_inv m" and v: "a_abs m k = Some v"
  then obtain b where b: "amap (ad_storage m) k = Some b"
    by (auto simp: adapter_abs_def bind_eq_Some_conv)
  from adapter_decode[OF inv b] v have "a_vok v" by (metis option.inject)
  moreover have "kok k" using abs_ok[OF adapter_invD(3)[OF inv] b] by simp
  ultimately show ?thesis by simp
qed

sublocale ad: kv_core a_ops eok a_inv a_abs kok a_vok "cd_zero cd"
proof (unfold_locales, goal_cases)
  case (1 s)
  then show ?case by (rule adapter_finite)
next
  case (2 s k v)
  then show ?case by (rule adapter_abs_ok)
next
  case (3 e s k)
  then show ?case by (simp add: adapter_ops_def adapter_Load_spec)
next
  case (4 e s k v)
  then show ?case by (simp add: adapter_ops_def adapter_Store_spec)
next
  case (5 e s ks)
  then show ?case by (simp add: adapter_ops_def adapter_Delete_spec)
next
  case (6 e s)
  then show ?case by (simp add: adapter_ops_def adapter_Clear_spec)
qed

end

locale msgpack_iter = msgpack_core ops eok sinv amap kok vok cd gen plain T +
  kv_iter ops eok sinv amap kok vok "[]"
  for ops :: "'e \<Rightarrow> ('s, 'k, 'c) byteStorage" and eok sinv amap kok vok
    and cd :: "'p codec" and gen plain T
begin

lemma adapter_Range_spec:
  assumes "eok e" "a_inv m"
  shows "\<exists>es. enumerates (a_abs m) es \<and> (\<forall>f c. adapter_Range cd (ops e) m f c = range_loop f es c)"
proof -
  obtain es where es: "enumerates (amap (ad_storage m)) es"
    "\<And>f c. op_Range (ops e) (ad_storage m) f c = range_loop f es c"
    using Range_spec[OF assms(1) adapter_invD(3)[OF assms(2)]] by blast
  have "\<exists>v. msgpackDecodeValue cd (ad_registry m) b = Ret (Inr v)" if "(k, b) \<in> set es" for k b
    using that adapter_decode[OF assms(2)] enumerates_set[OF es(1)] by metis
  then have "adapter_Range cd (ops e) m f c =
      range_loop f (decode_entries cd (ad_registry m) es) c" for f c
    unfolding adapter_Range_def es(2) by (intro range_loop_decoded) auto
  with decode_entries_enumerates[OF assms(2) es(1)] show ?thesis by blast
qed

sublocale ad: kv_iter a_ops eok a_inv a_abs kok a_vok "cd_zero cd"
proof (unfold_locales, goal_cases)
  case (1 e s)
  then show ?case by (simp add: adapter_ops_def adapter_Range_spec)
next
  case (2 e s)
  with Keys_spec[OF 2(1) adapter_invD(3)[OF 2(2)]] show ?case
    by (simp add: adapter_ops_def adapter_Keys_def adapter_dom[OF 2(2)])
qed

end

locale msgpack_len = msgpack_core ops eok sinv amap kok vok cd gen plain T +
  kv_len ops eok sinv amap kok vok "[]"
  for ops :: "'e \<Rightarrow> ('s, 'k, 'c) byteStorage" and eok sinv amap kok vok
    and cd :: "'p codec" and gen plain T
begin

lemma adapter_Len_spec:
  assumes "eok e" "a_inv m"
  shows "\<exists>m'. adapter_Len (ops e) m = Ret (int (card (dom (a_abs m))), m') \<and> a_inv m' \<and>
    a_abs m' = a_abs m"
proof -
  obtain s' where s': "op_Len (ops e) (ad_storage m) = Ret (int (card (dom (amap (ad_storage m)))), s')"
    "sinv s'" "amap s' = amap (ad_storage m)"
    using Len_spec assms(1) adapter_invD(3)[OF assms(2)] by blast
  then have r: "amap s' = amap (ad_storage m) |` UNIV" by simp
  from adapter_shrink[OF assms(2) s'(2) r] s'(1) show ?thesis
    by (simp add: adapter_Len_def adapter_dom[OF assms(2)])
qed

sublocale ad: kv_len a_ops eok a_inv a_abs kok a_vok "cd_zero cd"
  by unfold_locales (simp add: adapter_ops_def adapter_Len_spec)

end

locale msgpack_next = msgpack_core ops eok sinv amap kok vok cd gen plain T +
  kv_next ops eok sinv amap kok vok "[]" zk
  for ops :: "'e \<Rightarrow> ('s, 'k, 'c) byteStorage" and eok sinv amap kok vok zk
    and cd :: "'p codec" and gen plain T
begin

lemma adapter_Next_spec:
  assumes "eok e" "a_inv m"
  shows "\<exists>r m'. adapter_Next cd (ops e) m = Ret (r, m') \<and> a_inv m' \<and>
    next_result zk (cd_zero cd) (a_abs m) r (a_abs m')"
proof -
  let ?a = "amap (ad_storage m)"
  obtain k b ok s' where n: "op_Next (ops e) (ad_storage m) = Ret ((k, b, ok), s')" "sinv s'"
    "next_result zk [] ?a (k, b, ok) (amap s')"
    using Next_spec[OF assms(1) adapter_invD(3)[OF assms(2)]] by (metis prod_cases3)
  show ?thesis
  proof (cases "?a = Map.empty")
    case True
    then have e: "a_abs m = Map.empty" by (simp add: adapter_abs_def fun_eq_iff)
    have r: "\<not> ok" "k = zk" "amap s' = ?a |` UNIV"
      using n(3) True by (simp_all add: next_result_def)
    from adapter_shrink[OF assms(2) n(2) r(3)] n(1) e r(1,2) show ?thesis
      by (simp add: adapter_Next_def next_result_def)
  next
    case False
    then have r: "ok" "?a k = Some b" "amap s' = ?a |` (- {k})"
      using n(3) by (auto simp: next_result_def kv_simps)
    obtain v where v: "msgpackDecodeValue cd (ad_registry m) b = Ret (Inr v)" "a_abs m k = Some v"
      using adapter_decode[OF assms(2) r(2)] by metis
    from v(2) have "a_abs m \<noteq> Map.empty" by auto
    from this adapter_shrink[OF assms(2) n(2) r(3)] n(1) r(1) v show ?thesis
      by (simp add: adapter_Next_def next_result_def kv_simps)
  qed
qed

sublocale ad: kv_next a_ops eok a_inv a_abs kok a_vok "cd_zero cd" zk
proof unfold_locales
  fix e s assume "eok e" "a_inv s"
  from adapter_Next_spec[OF this] show "\<exists>r s'. op_Next (a_ops e) s = Ret (r, s') \<and> a_inv s' \<and>
      next_result zk (cd_zero cd) (a_abs s) r (a_abs s')"
    unfolding adapter_ops_def storage_ops.simps .
qed

end

text \<open>A byte storage that keeps every promise gives a map storage that keeps every promise.\<close>

locale msgpack_store =
  msgpack_iter ops eok sinv amap kok vok cd gen plain T +
  msgpack_len ops eok sinv amap kok vok cd gen plain T +
  msgpack_next ops eok sinv amap kok vok zk cd gen plain T
  for ops :: "'e \<Rightarrow> ('s, 'k, 'c) byteStorage" and eok sinv amap kok vok zk
    and cd :: "'p codec" and gen plain T
begin

sublocale ad: kv_store a_ops eok a_inv a_abs kok a_vok "cd_zero cd" zk ..

end

end
