(* ===== verification/Badger_Storage.thy ===== *)
theory Badger_Storage
  imports Key_Codec Msgpack_Adapter
begin

text \<open>
  \<open>storage/mightymapStoreBadger.go\<close>: the byte storage over BadgerDB. The database
  (github.com/dgraph-io/badger) is the parameter \<open>api\<close>; \<open>badger_ok\<close> states what is assumed of an
  open database. Beside the database the storage keeps a 64-bit counter of its entries, filled by
  the first call to Len and adjusted by every write; how far that counter can be trusted is the
  subject of the last section.
\<close>

section \<open>The database\<close>

text \<open>
  \<open>bd_view\<close> is the error of opening a read transaction; \<open>bd_get\<close> is \<open>txn.Get\<close> followed by
  \<open>ValueCopy\<close>; \<open>bd_items\<close> lists the items of a forward iteration, one version each, with what
  \<open>ValueCopy\<close> returns. \<open>bd_set\<close> and \<open>bd_delete\<close> are \<open>db.Update\<close> of one write.
\<close>

record 'db badger_api =
  bd_view :: "'db \<Rightarrow> err option"
  bd_get :: "'db \<Rightarrow> bytes \<Rightarrow> err + (err + bytes)"
  bd_set :: "'db \<Rightarrow> bytes \<Rightarrow> bytes \<Rightarrow> err + 'db"
  bd_delete :: "'db \<Rightarrow> bytes \<Rightarrow> err + 'db"
  bd_items :: "'db \<Rightarrow> (bytes \<times> (err + bytes)) list"
  bd_dropall :: "'db \<Rightarrow> err + 'db"
  bd_close :: "'db \<Rightarrow> err option \<times> 'db"

text \<open>
  On a database that is open (\<open>opn\<close>) reads succeed, and writes of keys and values within the
  database's limits (\<open>kfit\<close>, \<open>vfit\<close>) do as well; \<open>dbmap\<close> is what it holds.
\<close>

definition badger_ok ::
  "'db badger_api \<Rightarrow> ('db \<Rightarrow> bool) \<Rightarrow> ('db \<Rightarrow> bytes \<rightharpoonup> bytes) \<Rightarrow> (bytes \<Rightarrow> bool) \<Rightarrow> (bytes \<Rightarrow> bool) \<Rightarrow> bool"
where
  "badger_ok api opn dbmap kfit vfit \<longleftrightarrow>
     (\<forall>db. opn db \<longrightarrow> bd_view api db = None \<and>
        (\<forall>k. dbmap db k = None \<longrightarrow> (\<exists>e. bd_get api db k = Inl e)) \<and>
        (\<forall>k v. dbmap db k = Some v \<longrightarrow> bd_get api db k = Inr (Inr v)) \<and>
        (\<forall>k v. kfit k \<and> vfit v \<longrightarrow>
           (\<exists>db'. bd_set api db k v = Inr db' \<and> opn db' \<and> dbmap db' = (dbmap db)(k \<mapsto> v))) \<and>
        (\<forall>k. kfit k \<longrightarrow>
           (\<exists>db'. bd_delete api db k = Inr db' \<and> opn db' \<and> dbmap db' = (dbmap db)(k := None))) \<and>
        (\<exists>es. bd_items api db = map (apsnd Inr) es \<and> enumerates (dbmap db) es) \<and>
        (\<exists>db'. bd_dropall api db = Inr db' \<and> opn db' \<and> dbmap db' = Map.empty))"

lemma badger_okD:
  assumes "badger_ok api opn dbmap kfit vfit" "opn db"
  shows "bd_view api db = None"
    and "dbmap db b = None \<Longrightarrow> \<exists>e. bd_get api db b = Inl e"
    and "dbmap db b = Some v \<Longrightarrow> bd_get api db b = Inr (Inr v)"
    and "kfit b \<Longrightarrow> vfit v \<Longrightarrow>
      \<exists>db'. bd_set api db b v = Inr db' \<and> opn db' \<and> dbmap db' = (dbmap db)(b \<mapsto> v)"
    and "kfit b \<Longrightarrow> \<exists>db'. bd_delete api db b = Inr db' \<and> opn db' \<and> dbmap db' = (dbmap db)(b := None)"
    and "\<exists>es. bd_items api db = map (apsnd Inr) es \<and> enumerates (dbmap db) es"
    and "\<exists>db'. bd_dropall api db = Inr db' \<and> opn db' \<and> dbmap db' = Map.empty"
proof -
  note d = assms(1)[unfolded badger_ok_def, THEN spec, THEN mp, OF assms(2)]
  show "bd_view api db = None"
    using d by (rule conjunct1)
  note d = d[THEN conjunct2]
  show "dbmap db b = None \<Longrightarrow> \<exists>e. bd_get api db b = Inl e"
    using d[THEN conjunct1] by blast
  note d = d[THEN conjunct2]
  show "dbmap db b = Some v \<Longrightarrow> bd_get api db b = Inr (Inr v)"
    using d[THEN conjunct1] by blast
  note d = d[THEN conjunct2]
  show "kfit b \<Longrightarrow> vfit v \<Longrightarrow>
      \<exists>db'. bd_set api db b v = Inr db' \<and> opn db' \<and> dbmap db' = (dbmap db)(b \<mapsto> v)"
    using d[THEN conjunct1] by blast
  note d = d[THEN conjunct2]
  show "kfit b \<Longrightarrow> \<exists>db'. bd_delete api db b = Inr db' \<and> opn db' \<and> dbmap db' = (dbmap db)(b := None)"
    using d[THEN conjunct1] by blast
  note d = d[THEN conjunct2]
  show "\<exists>es. bd_items api db = map (apsnd Inr) es \<and> enumerates (dbmap db) es"
    using d by (rule conjunct1)
  show "\<exists>db'. bd_dropall api db = Inr db' \<and> opn db' \<and> dbmap db' = Map.empty"
    using d by (rule conjunct2)
qed

section \<open>Methods\<close>

record 'db badger =
  bg_db :: 'db
  bg_len :: "64 word"
  bg_initLenCall :: bool

definition badger_Store ::
  "'k key_codec \<Rightarrow> 'db badger_api \<Rightarrow> 'db badger \<Rightarrow> 'k \<Rightarrow> bytes \<Rightarrow> 'db badger outcome" where
  "badger_Store kc api c key value =
     (case key_marshal kc key of
        Inl e \<Rightarrow> Panic e
      | Inr keyBytes \<Rightarrow>
          (case bd_set api (bg_db c) keyBytes value of
             Inl e \<Rightarrow> Panic e
           | Inr db' \<Rightarrow> Ret (c\<lparr>bg_db := db', bg_len := bg_len c + 1\<rparr>)))"

definition badger_Load ::
  "'k key_codec \<Rightarrow> 'db badger_api \<Rightarrow> 'db badger \<Rightarrow> 'k \<Rightarrow> (bytes \<times> bool) outcome" where
  "badger_Load kc api c key =
     (case key_marshal kc key of
        Inl e \<Rightarrow> Panic e
      | Inr keyBytes \<Rightarrow>
          Ret (case bd_view api (bg_db c) of
                 Some e \<Rightarrow> ([], False)
               | None \<Rightarrow>
                   (case bd_get api (bg_db c) keyBytes of
                      Inl e \<Rightarrow> ([], False)
                    | Inr (Inl e) \<Rightarrow> ([], False)
                    | Inr (Inr valCopy) \<Rightarrow> (valCopy, True))))"

fun badger_Delete ::
  "'k key_codec \<Rightarrow> 'db badger_api \<Rightarrow> 'db badger \<Rightarrow> 'k list \<Rightarrow> 'db badger outcome" where
  "badger_Delete kc api c [] = Ret c"
| "badger_Delete kc api c (key # keys) =
     obind (badger_Load kc api c key) (\<lambda>(_, ok).
       if \<not> ok then badger_Delete kc api c keys
       else case key_marshal kc key of
         Inl e \<Rightarrow> Panic e
       | Inr keyBytes \<Rightarrow>
           (case bd_delete api (bg_db c) keyBytes of
              Inl e \<Rightarrow> Panic e
            | Inr db' \<Rightarrow>
                badger_Delete kc api (c\<lparr>bg_db := db', bg_len := bg_len c - 1\<rparr>) keys))"

text \<open>The body of Range's iteration: keys that do not decode are skipped.\<close>

fun badger_range_loop ::
  "'k key_codec \<Rightarrow> ('k, bytes, 'c) callback \<Rightarrow> (bytes \<times> (err + bytes)) list \<Rightarrow> 'c \<Rightarrow> 'c outcome"
where
  "badger_range_loop kc f [] st = Ret st"
| "badger_range_loop kc f ((kBytes, copy) # items) st =
     (case key_unmarshal kc kBytes of
        Inl e \<Rightarrow> badger_range_loop kc f items st
      | Inr k \<Rightarrow>
          (case copy of
             Inl e \<Rightarrow> Panic e
           | Inr vBytes \<Rightarrow>
               obind (f k vBytes st) (\<lambda>(go, st').
                 if go then badger_range_loop kc f items st' else Ret st')))"

definition badger_Range ::
  "'k key_codec \<Rightarrow> 'db badger_api \<Rightarrow> 'db badger \<Rightarrow> ('k, bytes, 'c) callback \<Rightarrow> 'c \<Rightarrow> 'c outcome"
where
  "badger_Range kc api c f st =
     (case bd_view api (bg_db c) of
        Some e \<Rightarrow> Panic e
      | None \<Rightarrow> badger_range_loop kc f (bd_items api (bg_db c)) st)"

fun badger_keys_loop ::
  "'k key_codec \<Rightarrow> (bytes \<times> (err + bytes)) list \<Rightarrow> 'k list \<Rightarrow> 'k list" where
  "badger_keys_loop kc [] keys = keys"
| "badger_keys_loop kc ((kBytes, _) # items) keys =
     (case key_unmarshal kc kBytes of
        Inl e \<Rightarrow> badger_keys_loop kc items keys
      | Inr k \<Rightarrow> badger_keys_loop kc items (keys @ [k]))"

definition badger_Keys ::
  "'k key_codec \<Rightarrow> 'db badger_api \<Rightarrow> 'db badger \<Rightarrow> 'k list outcome" where
  "badger_Keys kc api c =
     (case bd_view api (bg_db c) of
        Some e \<Rightarrow> Panic e
      | None \<Rightarrow> Ret (badger_keys_loop kc (bd_items api (bg_db c)) []))"

text \<open>The first call counts the items; later calls read the counter, an \<open>int64\<close>.\<close>

definition badger_Len :: "'db badger_api \<Rightarrow> 'db badger \<Rightarrow> (int \<times> 'db badger) outcome" where
  "badger_Len api c =
     (if \<not> bg_initLenCall c then
        (let c' = c\<lparr>bg_initLenCall := True\<rparr> in
         case bd_view api (bg_db c') of
           Some e \<Rightarrow> Panic e
         | None \<Rightarrow>
             (let c'' = c'\<lparr>bg_len := of_nat (length (bd_items api (bg_db c')))\<rparr>
              in Ret (sint (bg_len c''), c'')))
      else Ret (sint (bg_len c), c))"

definition badger_Clear :: "'db badger_api \<Rightarrow> 'db badger \<Rightarrow> 'db badger outcome" where
  "badger_Clear api c =
     (case bd_dropall api (bg_db c) of
        Inl e \<Rightarrow> Panic e
      | Inr db' \<Rightarrow> Ret (c\<lparr>bg_db := db', bg_len := 0\<rparr>))"

definition badger_Next ::
  "'k key_codec \<Rightarrow> 'db badger_api \<Rightarrow> 'k \<Rightarrow> 'db badger \<Rightarrow> (('k \<times> bytes \<times> bool) \<times> 'db badger) outcome"
where
  "badger_Next kc api zk c =
     (case bd_view api (bg_db c) of
        Some e \<Rightarrow> Panic e
      | None \<Rightarrow>
          (case bd_items api (bg_db c) of
             [] \<Rightarrow> Ret ((zk, [], False), c)
           | (kBytes, copy) # _ \<Rightarrow>
               (case copy of
                  Inl e \<Rightarrow> Panic e
                | Inr vBytes \<Rightarrow>
                    (case key_unmarshal kc kBytes of
                       Inl e \<Rightarrow> Panic e
                     | Inr key \<Rightarrow>
                         obind (badger_Delete kc api c [key]) (\<lambda>c'.
                           Ret ((key, vBytes, True), c'))))))"

definition badger_Close :: "'db badger_api \<Rightarrow> 'db badger \<Rightarrow> err option \<times> 'db badger" where
  "badger_Close api c = (let (e, db') = bd_close api (bg_db c) in (e, c\<lparr>bg_db := db'\<rparr>))"

definition badger_ops ::
  "'k key_codec \<Rightarrow> 'db badger_api \<Rightarrow> 'k \<Rightarrow> ('db badger, 'k, bytes, 'c) storage_ops" where
  "badger_ops kc api zk =
     \<lparr>op_Load = badger_Load kc api, op_Store = badger_Store kc api,
      op_Delete = badger_Delete kc api, op_Range = badger_Range kc api,
      op_Keys = badger_Keys kc api, op_Next = badger_Next kc api zk,
      op_Len = badger_Len api, op_Clear = badger_Clear api,
      op_Close = \<lambda>c. Ret (badger_Close api c)\<rparr>"

section \<open>The contract\<close>

definition badger_inv ::
  "'k key_codec \<Rightarrow> 'db badger_api \<Rightarrow> ('db \<Rightarrow> bool) \<Rightarrow> ('db \<Rightarrow> bytes \<rightharpoonup> bytes) \<Rightarrow> (bytes \<Rightarrow> bool) \<Rightarrow>
    (bytes \<Rightarrow> bool) \<Rightarrow> 'db badger \<Rightarrow> bool" where
  "badger_inv kc api opn dbmap kfit vfit c \<longleftrightarrow>
     badger_ok api opn dbmap kfit vfit \<and> opn (bg_db c) \<and>
     keys_decode kc kfit (dbmap (bg_db c)) \<and> (\<forall>v \<in> ran (dbmap (bg_db c)). vfit v)"

definition badger_abs ::
  "'k key_codec \<Rightarrow> ('db \<Rightarrow> bytes \<rightharpoonup> bytes) \<Rightarrow> (bytes \<Rightarrow> bool) \<Rightarrow> 'db badger \<Rightarrow> 'k \<rightharpoonup> bytes" where
  "badger_abs kc dbmap kfit c = key_map kc kfit (dbmap (bg_db c))"

lemma badger_invD:
  assumes "badger_inv kc api opn dbmap kfit vfit c"
  shows "badger_ok api opn dbmap kfit vfit" "opn (bg_db c)" "keys_decode kc kfit (dbmap (bg_db c))"
    "dbmap (bg_db c) b = Some v \<Longrightarrow> vfit v"
  using assms unfolding badger_inv_def by (blast, blast, blast, metis ranI)

text \<open>A new database with the same assumptions, and one key's entry written or removed.\<close>

lemma badger_inv_upd:
  assumes "badger_inv kc api opn dbmap kfit vfit c" "opn db'"
    and "dbmap db' = (dbmap (bg_db c))(b := x)" "key_ok kc kfit k" "key_marshal kc k = Inr b"
    and "\<And>v. x = Some v \<Longrightarrow> vfit v"
  shows "badger_inv kc api opn dbmap kfit vfit (c\<lparr>bg_db := db', bg_len := n\<rparr>)"
    and "badger_abs kc dbmap kfit (c\<lparr>bg_db := db', bg_len := n\<rparr>) =
      (badger_abs kc dbmap kfit c)(k := x)"
  using assms badger_invD[OF assms(1)] keys_decode_upd
  by (auto simp: badger_inv_def badger_abs_def key_map_upd ran_def split: if_splits)

lemma badger_Load_spec:
  assumes inv: "badger_inv kc api opn dbmap kfit vfit c" and k: "key_ok kc kfit k"
  shows "badger_Load kc api c k = Ret (lookup_result [] (badger_abs kc dbmap kfit c) k)"
proof -
  note d = badger_okD[OF badger_invD(1,2)[OF inv]]
  obtain b where b: "key_marshal kc k = Inr b" using k by (rule key_okE)
  have a: "badger_abs kc dbmap kfit c k = dbmap (bg_db c) b"
    using k b by (simp add: badger_abs_def key_map_apply)
  show ?thesis
    using a b d(1) d(2)[of b] d(3)[of b]
    by (cases "dbmap (bg_db c) b") (auto simp: badger_Load_def lookup_result_def)
qed

lemma badger_Store_spec:
  assumes inv: "badger_inv kc api opn dbmap kfit vfit c" and k: "key_ok kc kfit k" and v: "vfit v"
  shows "\<exists>db'. badger_Store kc api c k v = Ret (c\<lparr>bg_db := db', bg_len := bg_len c + 1\<rparr>) \<and>
    badger_inv kc api opn dbmap kfit vfit (c\<lparr>bg_db := db', bg_len := bg_len c + 1\<rparr>) \<and>
    badger_abs kc dbmap kfit (c\<lparr>bg_db := db', bg_len := bg_len c + 1\<rparr>) =
      (badger_abs kc dbmap kfit c)(k \<mapsto> v)"
proof -
  obtain b where b: "key_marshal kc k = Inr b" "kfit b" using k by (rule key_okE)
  then obtain db' where db': "bd_set api (bg_db c) b v = Inr db'" "opn db'"
    "dbmap db' = (dbmap (bg_db c))(b \<mapsto> v)"
    using badger_okD(4)[OF badger_invD(1,2)[OF inv]] v by blast
  with b v badger_inv_upd[OF inv db'(2,3) k b(1)] show ?thesis by (auto simp: badger_Store_def)
qed

text \<open>Delete removes the given keys and lowers the counter by the number it removed.\<close>

lemma badger_Delete_spec:
  assumes "badger_inv kc api opn dbmap kfit vfit c" "\<forall>k \<in> set ks. key_ok kc kfit k"
  shows "\<exists>c'. badger_Delete kc api c ks = Ret c' \<and> badger_inv kc api opn dbmap kfit vfit c' \<and>
    badger_abs kc dbmap kfit c' = badger_abs kc dbmap kfit c |` (- set ks) \<and>
    bg_len c' = bg_len c - of_nat (card (dom (badger_abs kc dbmap kfit c) \<inter> set ks)) \<and>
    bg_initLenCall c' = bg_initLenCall c"
  using assms
proof (induction ks arbitrary: c)
  case Nil
  then show ?case by simp
next
  case (Cons k ks)
  let ?a = "badger_abs kc dbmap kfit c"
  have k: "key_ok kc kfit k" and ks: "\<forall>k \<in> set ks. key_ok kc kfit k" using Cons.prems by auto
  note load = badger_Load_spec[OF Cons.prems(1) k]
  show ?case
  proof (cases "?a k")
    case None
    then have "dom ?a \<inter> set (k # ks) = dom ?a \<inter> set ks" "?a |` (- set (k # ks)) = ?a |` (- set ks)"
      by (auto simp: restrict_map_def fun_eq_iff domIff)
    with None load Cons.IH[OF Cons.prems(1) ks] show ?thesis by (simp add: lookup_result_def)
  next
    case (Some v)
    obtain b where b: "key_marshal kc k = Inr b" "kfit b" using k by (rule key_okE)
    then obtain db' where db': "bd_delete api (bg_db c) b = Inr db'" "opn db'"
      "dbmap db' = (dbmap (bg_db c))(b := None)"
      using badger_okD(5)[OF badger_invD(1,2)[OF Cons.prems(1)]] by blast
    let ?c = "c\<lparr>bg_db := db', bg_len := bg_len c - 1\<rparr>"
    have inv: "badger_inv kc api opn dbmap kfit vfit ?c"
      and abs: "badger_abs kc dbmap kfit ?c = ?a(k := None)"
      using badger_inv_upd[OF Cons.prems(1) db'(2,3) k b(1), of "bg_len c - 1"]
      by (metis option.distinct(1), metis option.distinct(1))
    obtain c' where c': "badger_Delete kc api ?c ks = Ret c'"
      "badger_inv kc api opn dbmap kfit vfit c'"
      "badger_abs kc dbmap kfit c' = badger_abs kc dbmap kfit ?c |` (- set ks)"
      "bg_len c' = bg_len ?c - of_nat (card (dom (badger_abs kc dbmap kfit ?c) \<inter> set ks))"
      "bg_initLenCall c' = bg_initLenCall ?c"
      using Cons.IH[OF inv ks] by blast
    have "dom ?a \<inter> set (k # ks) = insert k (dom (?a(k := None)) \<inter> set ks)" using Some by auto
    then have "card (dom ?a \<inter> set (k # ks)) = Suc (card (dom (?a(k := None)) \<inter> set ks))" by simp
    then have "bg_len c' = bg_len c - of_nat (card (dom ?a \<inter> set (k # ks)))"
      unfolding c'(4) abs by simp
    moreover have "badger_Delete kc api c (k # ks) = Ret c'"
      using load Some b(1) db'(1) c'(1) by (simp add: lookup_result_def)
    moreover have "badger_abs kc dbmap kfit c' = ?a |` (- set (k # ks))"
      unfolding c'(3) abs restrict_Cons ..
    ultimately show ?thesis using c'(2,5) by simp
  qed
qed

text \<open>The loops over the items of a database whose keys all decode.\<close>

lemma badger_items:
  assumes "badger_inv kc api opn dbmap kfit vfit c"
  obtains es where "bd_items api (bg_db c) = map (apsnd Inr) es" "enumerates (dbmap (bg_db c)) es"
    "enumerates (badger_abs kc dbmap kfit c) (decode_keys kc es)"
    "\<forall>(b, v) \<in> set es. key_unmarshal kc b = Inr (decode_key kc b) \<and>
       key_ok kc kfit (decode_key kc b)"
proof -
  note d = badger_invD[OF assms]
  obtain es where es: "bd_items api (bg_db c) = map (apsnd Inr) es" "enumerates (dbmap (bg_db c)) es"
    using badger_okD(6)[OF d(1,2)] by blast
  have "key_unmarshal kc b = Inr (decode_key kc b) \<and> key_ok kc kfit (decode_key kc b)"
    if "(b, v) \<in> set es" for b v
  proof -
    from that have "dbmap (bg_db c) b = Some v" using enumerates_set[OF es(2)] by simp
    from keys_decodeE[OF d(3) this] show ?thesis by metis
  qed
  moreover have "enumerates (badger_abs kc dbmap kfit c) (decode_keys kc es)"
    unfolding badger_abs_def by (rule decode_keys_enumerates[OF d(3) es(2)])
  ultimately show thesis using that es by blast
qed

lemma badger_range_loop_eq:
  assumes "\<forall>(b, v) \<in> set es. key_unmarshal kc b = Inr (decode_key kc b)"
  shows "badger_range_loop kc f (map (apsnd Inr) es) st = range_loop f (decode_keys kc es) st"
  using assms
proof (induction es arbitrary: st)
  case Nil
  then show ?case by (simp add: decode_keys_def)
next
  case (Cons x es)
  obtain b v where "x = (b, v)" by force
  with Cons show ?case
    by (cases "f (decode_key kc b) v st") (auto simp: decode_keys_def)
qed

lemma badger_keys_loop_eq:
  assumes "\<forall>(b, v) \<in> set es. key_unmarshal kc b = Inr (decode_key kc b)"
  shows "badger_keys_loop kc (map (apsnd Inr) es) ks = ks @ map fst (decode_keys kc es)"
  using assms by (induction es arbitrary: ks) (auto simp: decode_keys_def)

lemma badger_Range_spec:
  assumes "badger_inv kc api opn dbmap kfit vfit c"
  shows "\<exists>es. enumerates (badger_abs kc dbmap kfit c) es \<and>
    (\<forall>f st. badger_Range kc api c f st = range_loop f es st)"
proof -
  obtain es where es: "bd_items api (bg_db c) = map (apsnd Inr) es"
    "enumerates (badger_abs kc dbmap kfit c) (decode_keys kc es)"
    "\<forall>(b, v) \<in> set es. key_unmarshal kc b = Inr (decode_key kc b)"
    by (rule badger_items[OF assms]) blast
  have "badger_Range kc api c f st = range_loop f (decode_keys kc es) st" for f st
    using badger_okD(1)[OF badger_invD(1,2)[OF assms]] badger_range_loop_eq[OF es(3)]
    by (simp add: badger_Range_def es(1))
  with es(2) show ?thesis by blast
qed

lemma badger_Keys_spec:
  assumes "badger_inv kc api opn dbmap kfit vfit c"
  shows "\<exists>ks. badger_Keys kc api c = Ret ks \<and> distinct ks \<and> set ks = dom (badger_abs kc dbmap kfit c)"
proof -
  obtain es where es: "bd_items api (bg_db c) = map (apsnd Inr) es"
    "enumerates (badger_abs kc dbmap kfit c) (decode_keys kc es)"
    "\<forall>(b, v) \<in> set es. key_unmarshal kc b = Inr (decode_key kc b)"
    by (rule badger_items[OF assms]) blast
  have "badger_Keys kc api c = Ret (map fst (decode_keys kc es))"
    using badger_okD(1)[OF badger_invD(1,2)[OF assms]] badger_keys_loop_eq[OF es(3)]
    by (simp add: badger_Keys_def es(1))
  with enumerates_keys(1,2)[OF es(2)] show ?thesis by simp
qed

lemma badger_Clear_spec:
  assumes "badger_inv kc api opn dbmap kfit vfit c"
  shows "\<exists>c'. badger_Clear api c = Ret c' \<and> badger_inv kc api opn dbmap kfit vfit c' \<and>
    badger_abs kc dbmap kfit c' = Map.empty \<and> bg_len c' = 0 \<and>
    bg_initLenCall c' = bg_initLenCall c"
proof -
  note d = badger_invD[OF assms]
  obtain db' where "bd_dropall api (bg_db c) = Inr db'" "opn db'" "dbmap db' = Map.empty"
    using badger_okD(7)[OF d(1,2)] by blast
  with d(1) show ?thesis by (simp add: badger_Clear_def badger_inv_def badger_abs_def)
qed

text \<open>Next takes the first item, and Delete lowers the counter with it.\<close>

lemma badger_Next_spec:
  assumes inv: "badger_inv kc api opn dbmap kfit vfit c"
  shows "\<exists>r c'. badger_Next kc api zk c = Ret (r, c') \<and> badger_inv kc api opn dbmap kfit vfit c' \<and>
    next_result zk [] (badger_abs kc dbmap kfit c) r (badger_abs kc dbmap kfit c') \<and>
    bg_len c' = bg_len c - (if badger_abs kc dbmap kfit c = Map.empty then 0 else 1) \<and>
    bg_initLenCall c' = bg_initLenCall c"
proof -
  let ?a = "badger_abs kc dbmap kfit c"
  have vw: "bd_view api (bg_db c) = None" by (rule badger_okD(1)[OF badger_invD(1,2)[OF inv]])
  obtain es where es: "bd_items api (bg_db c) = map (apsnd Inr) es"
    "enumerates ?a (decode_keys kc es)"
    "\<forall>(b, v) \<in> set es. key_unmarshal kc b = Inr (decode_key kc b) \<and>
       key_ok kc kfit (decode_key kc b)"
    by (rule badger_items[OF inv]) blast
  show ?thesis
  proof (cases es)
    case Nil
    then have "?a = Map.empty" using es(2) by (simp add: decode_keys_def)
    with Nil es(1) vw inv show ?thesis by (simp add: badger_Next_def next_result_def)
  next
    case (Cons x es')
    obtain b v where x: "x = (b, v)" by force
    let ?k = "decode_key kc b"
    have k: "key_unmarshal kc b = Inr ?k" "key_ok kc kfit ?k" using es(3) Cons x by auto
    have av: "?a ?k = Some v" "?a \<noteq> Map.empty"
      using es(2) Cons x enumerates_Cons by (fastforce simp: decode_keys_def)+
    then have "dom ?a \<inter> {?k} = {?k}" by auto
    then obtain c' where c': "badger_Delete kc api c [?k] = Ret c'"
      "badger_inv kc api opn dbmap kfit vfit c'"
      "badger_abs kc dbmap kfit c' = ?a(?k := None)"
      "bg_len c' = bg_len c - 1" "bg_initLenCall c' = bg_initLenCall c"
      using badger_Delete_spec[OF inv, of "[?k]"] k(2) by (auto simp: kv_simps)
    have "badger_Next kc api zk c = Ret ((?k, v, True), c')"
      using Cons x es(1) vw k(1) c'(1) by (simp add: badger_Next_def)
    with c' av show ?thesis by (simp add: next_result_def)
  qed
qed

lemma badger_finite:
  assumes "badger_inv kc api opn dbmap kfit vfit c"
  shows "finite (dom (badger_abs kc dbmap kfit c))"
  by (rule badger_items[OF assms]) (metis enumerates_keys(2) List.finite_set)

lemma badger_abs_ok:
  "badger_inv kc api opn dbmap kfit vfit c \<Longrightarrow> badger_abs kc dbmap kfit c k = Some v \<Longrightarrow>
    key_ok kc kfit k \<and> vfit v"
  using badger_invD(4)[of kc api opn dbmap kfit vfit c]
  by (auto simp: badger_abs_def key_map_def split: if_splits sum.splits)

interpretation badger: kv_iter "\<lambda>_::unit. badger_ops kc api zk" "\<lambda>_. True"
  "badger_inv kc api opn dbmap kfit vfit" "badger_abs kc dbmap kfit" "key_ok kc kfit" vfit "[]"
  for kc :: "'k key_codec" and api :: "'db badger_api" and zk opn dbmap kfit vfit
proof (unfold_locales, goal_cases)
  case (1 s)
  then show ?case by (rule badger_finite)
next
  case (2 s k v)
  then show ?case by (rule badger_abs_ok)
next
  case (3 e s k)
  then show ?case by (simp add: badger_ops_def badger_Load_spec)
next
  case (4 e s k v)
  then show ?case using badger_Store_spec by (fastforce simp: badger_ops_def)
next
  case (5 e s ks)
  with badger_Delete_spec[OF 5(2,3)] show ?case by (auto simp: badger_ops_def)
next
  case (6 e s)
  with badger_Clear_spec[OF 6(2)] show ?case by (auto simp: badger_ops_def)
next
  case (7 e s)
  with badger_Range_spec[OF 7(2)] show ?case by (simp add: badger_ops_def)
next
  case (8 e s)
  with badger_Keys_spec[OF 8(2)] show ?case by (simp add: badger_ops_def)
qed

interpretation badger_next: kv_next "\<lambda>_::unit. badger_ops kc api zk" "\<lambda>_. True"
  "badger_inv kc api opn dbmap kfit vfit" "badger_abs kc dbmap kfit" "key_ok kc kfit" vfit "[]" zk
  for kc :: "'k key_codec" and api :: "'db badger_api" and zk opn dbmap kfit vfit
proof (unfold_locales, goal_cases)
  case (1 e s)
  from badger_Next_spec[OF 1(2), of zk] show ?case by (auto simp: badger_ops_def)
qed

section \<open>The counter\<close>

text \<open>
  A program of writes and \<open>Len\<close> calls, with the number \<open>n\<close> of stores since the last Clear that
  found their key already there, as a Load just before the store reports it.
\<close>

datatype 'k badger_call = BStore 'k bytes | BDelete "'k list" | BNext | BClear | BLen

fun badger_counted ::
  "'k key_codec \<Rightarrow> 'db badger_api \<Rightarrow> 'k \<Rightarrow> 'db badger \<times> nat \<Rightarrow> 'k badger_call \<Rightarrow>
    ('db badger \<times> nat) outcome" where
  "badger_counted kc api zk (c, n) (BStore k v) =
     obind (badger_Load kc api c k) (\<lambda>(_, ok).
       obind (badger_Store kc api c k v) (\<lambda>c'. Ret (c', if ok then Suc n else n)))"
| "badger_counted kc api zk (c, n) (BDelete ks) =
     obind (badger_Delete kc api c ks) (\<lambda>c'. Ret (c', n))"
| "badger_counted kc api zk (c, n) BNext =
     obind (badger_Next kc api zk c) (\<lambda>(_, c'). Ret (c', n))"
| "badger_counted kc api zk (c, n) BClear = obind (badger_Clear api c) (\<lambda>c'. Ret (c', 0))"
| "badger_counted kc api zk (c, n) BLen = obind (badger_Len api c) (\<lambda>(_, c'). Ret (c', n))"

fun badger_counted_all ::
  "'k key_codec \<Rightarrow> 'db badger_api \<Rightarrow> 'k \<Rightarrow> 'db badger \<times> nat \<Rightarrow> 'k badger_call list \<Rightarrow>
    ('db badger \<times> nat) outcome" where
  "badger_counted_all kc api zk cn [] = Ret cn"
| "badger_counted_all kc api zk cn (x # xs) =
     obind (badger_counted kc api zk cn x) (\<lambda>cn'. badger_counted_all kc api zk cn' xs)"

fun badger_call_ok :: "'k key_codec \<Rightarrow> (bytes \<Rightarrow> bool) \<Rightarrow> (bytes \<Rightarrow> bool) \<Rightarrow> 'k badger_call \<Rightarrow> bool" where
  "badger_call_ok kc kfit vfit (BStore k v) = (key_ok kc kfit k \<and> vfit v)"
| "badger_call_ok kc kfit vfit (BDelete ks) = list_all (key_ok kc kfit) ks"
| "badger_call_ok kc kfit vfit _ = True"

text \<open>
  The counter is in use and ahead of the number of keys by exactly \<open>n\<close>, modulo \<open>2 ^ 64\<close>; or off
  from that by \<open>d\<close>, as after a race.
\<close>

definition badger_off ::
  "'k key_codec \<Rightarrow> ('db \<Rightarrow> bytes \<rightharpoonup> bytes) \<Rightarrow> (bytes \<Rightarrow> bool) \<Rightarrow> 64 word \<Rightarrow> 'db badger \<Rightarrow> nat \<Rightarrow> bool" where
  "badger_off kc dbmap kfit d c n \<longleftrightarrow>
     bg_initLenCall c \<and> bg_len c = d + of_nat (card (dom (badger_abs kc dbmap kfit c)) + n)"

abbreviation badger_ahead ::
  "'k key_codec \<Rightarrow> ('db \<Rightarrow> bytes \<rightharpoonup> bytes) \<Rightarrow> (bytes \<Rightarrow> bool) \<Rightarrow> 'db badger \<Rightarrow> nat \<Rightarrow> bool" where
  "badger_ahead kc dbmap kfit \<equiv> badger_off kc dbmap kfit 0"

lemma badger_items_length:
  assumes "badger_inv kc api opn dbmap kfit vfit c"
  shows "length (bd_items api (bg_db c)) = card (dom (badger_abs kc dbmap kfit c))"
proof -
  obtain es where es: "bd_items api (bg_db c) = map (apsnd Inr) es"
    "enumerates (badger_abs kc dbmap kfit c) (decode_keys kc es)"
    by (rule badger_items[OF assms]) blast
  show ?thesis using es(1) enumerates_keys(3)[OF es(2)] by (simp add: decode_keys_def)
qed

lemma badger_first_Len:
  assumes "badger_inv kc api opn dbmap kfit vfit c" "\<not> bg_initLenCall c"
  shows "\<exists>c'. badger_Len api c =
      Ret (sint (of_nat (card (dom (badger_abs kc dbmap kfit c))) :: 64 word), c') \<and>
    badger_inv kc api opn dbmap kfit vfit c' \<and>
    badger_abs kc dbmap kfit c' = badger_abs kc dbmap kfit c \<and> badger_ahead kc dbmap kfit c' 0"
proof -
  note badger_items_length[OF assms(1)]
  with assms badger_okD(1)[OF badger_invD(1,2)[OF assms(1)]] show ?thesis
    by (simp add: badger_Len_def badger_off_def badger_inv_def badger_abs_def Let_def)
qed

lemma card_dom_upd_Some:
  "finite (dom m) \<Longrightarrow> card (dom (m(k \<mapsto> v))) = (if k \<in> dom m then card (dom m) else Suc (card (dom m)))"
  by (simp add: insert_absorb)

lemma card_dom_restrict:
  "finite (dom m) \<Longrightarrow> card (dom (m |` (- A))) + card (dom m \<inter> A) = card (dom m)"
  by (metis Diff_eq card_Diff_subset_Int card_mono dom_restrict finite_Int inf_le1 le_add_diff_inverse2)

lemma badger_counted_step:
  assumes inv: "badger_inv kc api opn dbmap kfit vfit c" and ah: "badger_off kc dbmap kfit d c n"
    and ok: "badger_call_ok kc kfit vfit x" and clear: "x = BClear \<Longrightarrow> d = 0"
  shows "\<exists>c' n'. badger_counted kc api zk (c, n) x = Ret (c', n') \<and>
    badger_inv kc api opn dbmap kfit vfit c' \<and> badger_off kc dbmap kfit d c' n'"
proof -
  let ?a = "badger_abs kc dbmap kfit c"
  note fin = badger_finite[OF inv]
  show ?thesis
  proof (cases x)
    case (BStore k v)
    with ok have k: "key_ok kc kfit k" and v: "vfit v" by simp_all
    obtain ok' val where l: "lookup_result [] ?a k = (val, ok')" by force
    then have ok': "ok' \<longleftrightarrow> k \<in> dom ?a" by (metis snd_conv snd_lookup_result)
    obtain c' where c': "badger_Store kc api c k v = Ret c'"
      "badger_inv kc api opn dbmap kfit vfit c'" "badger_abs kc dbmap kfit c' = ?a(k \<mapsto> v)"
      "bg_len c' = bg_len c + 1" "bg_initLenCall c' = bg_initLenCall c"
      using badger_Store_spec[OF inv k v] by auto
    have "badger_off kc dbmap kfit d c' (if ok' then Suc n else n)"
      using ah c'(4,5) ok' card_dom_upd_Some[OF fin]
      unfolding badger_off_def c'(3) by simp
    with BStore c' l badger_Load_spec[OF inv k] show ?thesis by simp
  next
    case (BDelete ks)
    with ok have "\<forall>k \<in> set ks. key_ok kc kfit k" by (simp add: list_all_iff)
    from badger_Delete_spec[OF inv this] obtain c' where c': "badger_Delete kc api c ks = Ret c'"
      "badger_inv kc api opn dbmap kfit vfit c'" "badger_abs kc dbmap kfit c' = ?a |` (- set ks)"
      "bg_len c' = bg_len c - of_nat (card (dom ?a \<inter> set ks))"
      "bg_initLenCall c' = bg_initLenCall c" by blast
    have "card (dom (?a |` (- set ks))) + card (dom ?a \<inter> set ks) = card (dom ?a)"
      by (rule card_dom_restrict[OF fin])
    then have "d + of_nat (card (dom ?a) + n) - of_nat (card (dom ?a \<inter> set ks)) =
        (d + of_nat (card (dom (?a |` (- set ks))) + n) :: 64 word)"
      by (simp flip: of_nat_add) (simp add: algebra_simps flip: of_nat_add)
    then have "badger_off kc dbmap kfit d c' n"
      using ah c'(4,5) unfolding badger_off_def c'(3) by metis
    with BDelete c' show ?thesis by simp
  next
    case BNext
    from badger_Next_spec[OF inv, of zk] obtain r c' where c': "badger_Next kc api zk c = Ret (r, c')"
      "badger_inv kc api opn dbmap kfit vfit c'" "next_result zk [] ?a r (badger_abs kc dbmap kfit c')"
      "bg_len c' = bg_len c - (if ?a = Map.empty then 0 else 1)"
      "bg_initLenCall c' = bg_initLenCall c" by blast
    obtain k v b where r: "r = (k, v, b)" by (cases r)
    have "badger_off kc dbmap kfit d c' n"
    proof (cases "?a = Map.empty")
      case True
      with ah c'(3,4,5) show ?thesis by (simp add: badger_off_def next_result_def r)
    next
      case False
      then have "k \<in> dom ?a" and a': "badger_abs kc dbmap kfit c' = ?a(k := None)"
        using c'(3) by (auto simp: next_result_def r)
      then have "card (dom ?a) = Suc (card (dom ?a - {k}))" using fin by (metis card.remove)
      with ah c'(4,5) False show ?thesis unfolding badger_off_def a' by simp
    qed
    with BNext c' r show ?thesis by simp
  next
    case BClear
    from badger_Clear_spec[OF inv] obtain c' where "badger_Clear api c = Ret c'"
      "badger_inv kc api opn dbmap kfit vfit c'" "badger_abs kc dbmap kfit c' = Map.empty"
      "bg_len c' = 0" "bg_initLenCall c' = bg_initLenCall c" by blast
    with BClear ah clear show ?thesis by (simp add: badger_off_def)
  next
    case BLen
    with ah inv show ?thesis by (simp add: badger_Len_def badger_off_def)
  qed
qed

lemma badger_counted_run:
  assumes "badger_inv kc api opn dbmap kfit vfit c" "badger_off kc dbmap kfit d c n"
    and "list_all (badger_call_ok kc kfit vfit) xs" "BClear \<in> set xs \<Longrightarrow> d = 0"
  shows "\<exists>c' n'. badger_counted_all kc api zk (c, n) xs = Ret (c', n') \<and>
    badger_inv kc api opn dbmap kfit vfit c' \<and> badger_off kc dbmap kfit d c' n'"
  using assms
proof (induction xs arbitrary: c n)
  case Nil
  then show ?case by simp
next
  case (Cons x xs)
  then obtain c' n' where s: "badger_counted kc api zk (c, n) x = Ret (c', n')"
    "badger_inv kc api opn dbmap kfit vfit c'" "badger_off kc dbmap kfit d c' n'"
    using badger_counted_step[OF Cons.prems(1,2), of x zk] by auto
  with Cons.IH[OF s(2,3)] Cons.prems(3,4) show ?case by simp
qed

text \<open>Reading the counter, as long as it fits an \<open>int64\<close>.\<close>

lemma sint_of_nat_64: "m < 2 ^ 63 \<Longrightarrow> sint (of_nat m :: 64 word) = int m"
  by (simp add: signed_of_nat signed_take_bit_int_eq_self)

lemma badger_Len_ahead:
  assumes "badger_ahead kc dbmap kfit c n"
    and "card (dom (badger_abs kc dbmap kfit c)) + n < 2 ^ 63"
  shows "badger_Len api c = Ret (int (card (dom (badger_abs kc dbmap kfit c)) + n), c)"
  using assms(1) sint_of_nat_64[OF assms(2)] unfolding badger_Len_def badger_off_def by simp

text \<open>
  A counter that has lost one key for good: after any further writes and Len calls, until the next
  Clear, Len is one less than it should be.
\<close>

definition short_for_good ::
  "'k key_codec \<Rightarrow> 'db badger_api \<Rightarrow> 'k \<Rightarrow> ('db \<Rightarrow> bytes \<rightharpoonup> bytes) \<Rightarrow> (bytes \<Rightarrow> bool) \<Rightarrow> (bytes \<Rightarrow> bool) \<Rightarrow>
    'db badger \<Rightarrow> bool" where
  "short_for_good kc api zk dbmap kfit vfit c \<longleftrightarrow>
     (\<forall>xs. list_all (badger_call_ok kc kfit vfit) xs \<and> BClear \<notin> set xs \<longrightarrow>
       (\<exists>c' n. badger_counted_all kc api zk (c, 0) xs = Ret (c', n) \<and>
         (card (dom (badger_abs kc dbmap kfit c')) + n < 2 ^ 63 \<longrightarrow>
            badger_Len api c' = Ret (int (card (dom (badger_abs kc dbmap kfit c')) + n) - 1, c'))))"

lemma badger_Len_short:
  assumes "badger_off kc dbmap kfit (- 1) c n"
    and "card (dom (badger_abs kc dbmap kfit c)) + n < 2 ^ 63"
  shows "badger_Len api c = Ret (int (card (dom (badger_abs kc dbmap kfit c)) + n) - 1, c)"
proof -
  let ?m = "card (dom (badger_abs kc dbmap kfit c)) + n"
  have "bg_len c = of_int (int ?m - 1)" using assms(1) by (simp add: badger_off_def)
  moreover have "sint (of_int (int ?m - 1) :: 64 word) = int ?m - 1"
    using assms(2) by (simp only: signed_of_int) (simp add: signed_take_bit_int_eq_self_iff)
  ultimately show ?thesis using assms(1) by (simp add: badger_Len_def badger_off_def)
qed

lemma badger_off_short:
  assumes "badger_inv kc api opn dbmap kfit vfit c" "badger_off kc dbmap kfit (- 1) c 0"
  shows "short_for_good kc api zk dbmap kfit vfit c"
  unfolding short_for_good_def
proof (intro allI impI, elim conjE)
  fix xs
  assume "list_all (badger_call_ok kc kfit vfit) xs" "BClear \<notin> set xs"
  with badger_counted_run[OF assms, of xs zk] obtain c' n where
    "badger_counted_all kc api zk (c, 0) xs = Ret (c', n)" "badger_off kc dbmap kfit (- 1) c' n"
    by blast
  with badger_Len_short show "\<exists>c' n. badger_counted_all kc api zk (c, 0) xs = Ret (c', n) \<and>
      (card (dom (badger_abs kc dbmap kfit c')) + n < 2 ^ 63 \<longrightarrow>
        badger_Len api c' = Ret (int (card (dom (badger_abs kc dbmap kfit c')) + n) - 1, c'))"
    by blast
qed

end
