(* ===== verification/Go_Strings.thy ===== *)
theory Go_Strings
  imports Prelude
begin

text \<open>
  The functions of Go's packages \<open>strings\<close>, \<open>strconv\<close> and \<open>unicode/utf8\<close> that the sources
  call, on byte strings: HasPrefix, TrimPrefix, Index, Split, SplitN (with its separate treatment
  of an empty separator, which splits into UTF-8 sequences) and Atoi.
\<close>

section \<open>Prefixes\<close>

fun has_prefix :: "string \<Rightarrow> string \<Rightarrow> bool" where
  "has_prefix s [] = True"
| "has_prefix [] (p # ps) = False"
| "has_prefix (c # s) (p # ps) = (c = p \<and> has_prefix s ps)"

definition trim_prefix :: "string \<Rightarrow> string \<Rightarrow> string" where
  "trim_prefix s p = (if has_prefix s p then drop (length p) s else s)"

lemma has_prefix_iff: "has_prefix s p \<longleftrightarrow> (\<exists>r. s = p @ r)"
  by (induction s p rule: has_prefix.induct) auto

lemma has_prefix_append [simp]: "has_prefix (p @ r) p"
  by (auto simp: has_prefix_iff)

lemma has_prefix_take: "has_prefix s p \<longleftrightarrow> take (length p) s = p"
  by (metis append_eq_conv_conj append_take_drop_id has_prefix_iff)

section \<open>Index and Split\<close>

text \<open>\<open>go_index s sep\<close> is the first position at which \<open>sep\<close> occurs in \<open>s\<close>.\<close>

fun go_index :: "string \<Rightarrow> string \<Rightarrow> nat option" where
  "go_index [] sep = (if sep = [] then Some 0 else None)"
| "go_index (c # s) sep =
     (if has_prefix (c # s) sep then Some 0 else map_option Suc (go_index s sep))"

lemma go_index_Some: "go_index s sep = Some i \<Longrightarrow> take i s @ sep @ drop (i + length sep) s = s"
proof (induction s arbitrary: i)
  case Nil
  then show ?case by (simp split: if_splits)
next
  case (Cons c s)
  show ?case
  proof (cases "has_prefix (c # s) sep")
    case True
    with Cons.prems show ?thesis by (metis Nil_is_append_conv add_0 append_Nil append_eq_conv_conj
          go_index.simps(2) has_prefix_iff option.inject take_eq_Nil)
  next
    case False
    with Cons.prems obtain j where "go_index s sep = Some j" "i = Suc j" by auto
    with Cons.IH[of j] show ?thesis by simp
  qed
qed

lemma go_index_prefix: "go_index (sep @ r) sep = Some 0"
  by (cases sep) (cases r, auto)

text \<open>
  \<open>gen_split n sep s\<close> cuts \<open>s\<close> at the first \<open>n\<close> occurrences of a non-empty \<open>sep\<close>.
\<close>

fun gen_split :: "nat \<Rightarrow> string \<Rightarrow> string \<Rightarrow> string list" where
  "gen_split 0 sep s = [s]"
| "gen_split (Suc n) sep s =
     (case go_index s sep of
        None \<Rightarrow> [s]
      | Some i \<Rightarrow> take i s # gen_split n sep (drop (i + length sep) s))"

fun go_join :: "string \<Rightarrow> string list \<Rightarrow> string" where
  "go_join sep [] = []"
| "go_join sep [s] = s"
| "go_join sep (s # ss) = s @ sep @ go_join sep ss"

lemma gen_split_nonempty [simp]: "gen_split n sep s \<noteq> []"
  by (cases n) (auto split: option.splits)

lemma join_gen_split: "go_join sep (gen_split n sep s) = s"
proof (induction n sep s rule: gen_split.induct)
  case (1 sep s)
  then show ?case by simp
next
  case (2 n sep s)
  show ?case
  proof (cases "go_index s sep")
    case None
    then show ?thesis by simp
  next
    case (Some i)
    obtain h t where "gen_split n sep (drop (i + length sep) s) = h # t"
      by (meson gen_split_nonempty neq_Nil_conv)
    with 2[OF Some] Some go_index_Some[OF Some] show ?thesis by simp
  qed
qed

section \<open>UTF-8 sequences\<close>

definition byte_in :: "char \<Rightarrow> nat \<Rightarrow> nat \<Rightarrow> bool" where
  "byte_in c lo hi \<longleftrightarrow> lo \<le> of_char c \<and> of_char c \<le> hi"

text \<open>
  The number of bytes \<open>utf8.DecodeRuneInString\<close> consumes at the front of a non-empty string: the
  length of a valid encoding, and 1 where the bytes are not one.
\<close>

fun rune_size :: "string \<Rightarrow> nat" where
  "rune_size (a # b # c # d # _) =
     (if byte_in a 0xC2 0xDF \<and> byte_in b 0x80 0xBF then 2
      else if (byte_in a 0xE0 0xE0 \<and> byte_in b 0xA0 0xBF \<or>
               byte_in a 0xE1 0xEC \<and> byte_in b 0x80 0xBF \<or>
               byte_in a 0xED 0xED \<and> byte_in b 0x80 0x9F \<or>
               byte_in a 0xEE 0xEF \<and> byte_in b 0x80 0xBF) \<and> byte_in c 0x80 0xBF then 3
      else if (byte_in a 0xF0 0xF0 \<and> byte_in b 0x90 0xBF \<or>
               byte_in a 0xF1 0xF3 \<and> byte_in b 0x80 0xBF \<or>
               byte_in a 0xF4 0xF4 \<and> byte_in b 0x80 0x8F) \<and>
              byte_in c 0x80 0xBF \<and> byte_in d 0x80 0xBF then 4
      else 1)"
| "rune_size [a, b, c] =
     (if byte_in a 0xC2 0xDF \<and> byte_in b 0x80 0xBF then 2
      else if (byte_in a 0xE0 0xE0 \<and> byte_in b 0xA0 0xBF \<or>
               byte_in a 0xE1 0xEC \<and> byte_in b 0x80 0xBF \<or>
               byte_in a 0xED 0xED \<and> byte_in b 0x80 0x9F \<or>
               byte_in a 0xEE 0xEF \<and> byte_in b 0x80 0xBF) \<and> byte_in c 0x80 0xBF then 3
      else 1)"
| "rune_size [a, b] = (if byte_in a 0xC2 0xDF \<and> byte_in b 0x80 0xBF then 2 else 1)"
| "rune_size [a] = 1"
| "rune_size [] = 0"

text \<open>\<open>strings.explode\<close>: at most \<open>n\<close> pieces, each but the last one UTF-8 sequence.\<close>

fun explode :: "nat \<Rightarrow> string \<Rightarrow> string list" where
  "explode n [] = []"
| "explode 0 s = []"
| "explode (Suc 0) s = [s]"
| "explode (Suc (Suc n)) s =
     take (rune_size s) s # explode (Suc n) (drop (rune_size s) s)"

definition split_n :: "string \<Rightarrow> string \<Rightarrow> nat \<Rightarrow> string list" where
  "split_n s sep n =
     (if n = 0 then [] else if sep = [] then explode n s else gen_split (n - 1) sep s)"

definition go_split :: "string \<Rightarrow> string \<Rightarrow> string list" where
  "go_split s sep = (if sep = [] then explode (length s) s else gen_split (length s) sep s)"

text \<open>
  Splitting a prefixed key at the prefix, as the Redis backend does: the part after the prefix is
  the second piece, whatever it holds, provided that the prefix is not empty.
\<close>

lemma split_n_prefix: "p \<noteq> [] \<Longrightarrow> split_n (p @ r) p 2 = [[], r]"
  by (simp add: split_n_def go_index_prefix numeral_2_eq_2)

section \<open>Atoi\<close>

fun digits_value :: "string \<Rightarrow> int \<Rightarrow> int option" where
  "digits_value [] acc = Some acc"
| "digits_value (c # cs) acc =
     (if byte_in c 48 57 then digits_value cs (10 * acc + int (of_char c) - 48) else None)"

text \<open>An optional sign and at least one digit; out of the range of \<open>int\<close> is an error.\<close>

definition atoi :: "string \<Rightarrow> int option" where
  "atoi s =
     (let (neg, ds) = (case s of c # cs \<Rightarrow> if c = CHR ''-'' then (True, cs)
                                          else if c = CHR ''+'' then (False, cs) else (False, s)
                       | [] \<Rightarrow> (False, s))
      in if ds = [] then None
         else case digits_value ds 0 of
                None \<Rightarrow> None
              | Some n \<Rightarrow> let v = (if neg then - n else n)
                          in if - (2 ^ 63) \<le> v \<and> v < 2 ^ 63 then Some v else None)"

section \<open>Decimal numbers\<close>

text \<open>What the verb \<open>%d\<close> prints.\<close>

fun nat_digits :: "nat \<Rightarrow> string" where
  "nat_digits n =
     (if n < 10 then [char_of (48 + n)] else nat_digits (n div 10) @ [char_of (48 + n mod 10)])"

declare nat_digits.simps [simp del]

definition go_itoa :: "int \<Rightarrow> string" where
  "go_itoa i = (if i < 0 then ''-'' @ nat_digits (nat (- i)) else nat_digits (nat i))"

lemma nat_digits_nonempty [simp]: "nat_digits n \<noteq> []"
  by (subst nat_digits.simps) simp

lemma digits_value_append:
  "digits_value (xs @ ys) a = Option.bind (digits_value xs a) (digits_value ys)"
  by (induction xs arbitrary: a) auto

lemma digits_value_nat_digits: "digits_value (nat_digits n) 0 = Some (int n)"
proof (induction n rule: nat_digits.induct)
  case (1 n)
  show ?case
  proof (cases "n < 10")
    case True
    then show ?thesis by (subst nat_digits.simps) (simp add: byte_in_def of_char_of)
  next
    case False
    have d: "of_char (char_of (48 + n mod 10) :: char) = 48 + n mod 10"
      by (simp add: of_char_of)
    show ?thesis
      using False 1 by (subst nat_digits.simps)
        (simp add: digits_value_append byte_in_def of_char_of; presburger)
  qed
qed

end
