(* ===== verification/Badger_Opts.thy ===== *)
theory Badger_Opts
  imports Badger_Storage Go_Strings
begin

text \<open>
  \<open>storage/mightymapStorageBadgerOpts.go\<close> and the constructor of
  \<open>storage/mightymapStoreBadger.go\<close>: the options, their defaults, the functional options that
  change them, and the configuration they hand to \<open>badger.Open\<close>. Durations are nanoseconds; the
  type \<open>'f\<close> stands for \<open>float64\<close>, which the code only passes on.
\<close>

record 'f badgerOpts =
  dir :: string
  memoryStorage :: bool
  compression :: bool
  numCompactors :: int
  numVersionsToKeep :: int
  indexCacheSize :: int
  blockCacheSize :: int
  blockSize :: int
  loggingLevel :: int
  metricsEnabled :: bool
  detectConflicts :: bool
  gcInterval :: int
  gcPercentage :: 'f
  memTableSize :: int
  valueThreshold :: int
  encryptionKey :: string
  encryptionKeyRotation :: int
  syncWrites :: bool

definition Second :: int where "Second = 1000000000"
definition Hour :: int where "Hour = 3600 * Second"

text \<open>The constants; sizes in bytes, \<open>a << b\<close> is \<open>push_bit b a\<close>.\<close>

definition badgerDefaultIndexCacheSize :: int where [simp]: "badgerDefaultIndexCacheSize = push_bit 20 128"
definition badgerDefaultBlockCacheSize :: int where [simp]: "badgerDefaultBlockCacheSize = push_bit 20 512"
definition badgerDefaultMemTableSize :: int where [simp]: "badgerDefaultMemTableSize = push_bit 20 64"
definition badgerDefaultValueThreshold :: int where [simp]: "badgerDefaultValueThreshold = push_bit 20 1"
definition badgerDefaultBlockSize :: int where [simp]: "badgerDefaultBlockSize = 16 * 1024"
definition badgerDefaultNumCompactors :: int where [simp]: "badgerDefaultNumCompactors = 4"
definition badgerDefaultGCInterval :: int where [simp]: "badgerDefaultGCInterval = 10 * Second"
definition badgerDefaultKeyRotationDays :: int where [simp]: "badgerDefaultKeyRotationDays = 10"
definition badgerDefaultNumVersionsToKeep :: int where [simp]: "badgerDefaultNumVersionsToKeep = 1"
definition encryptionKeyLength16 :: nat where [simp]: "encryptionKeyLength16 = 16"
definition encryptionKeyLength24 :: nat where [simp]: "encryptionKeyLength24 = 24"
definition encryptionKeyLength32 :: nat where [simp]: "encryptionKeyLength32 = 32"

text \<open>
  The defaults, given \<open>os.TempDir()\<close>, the clock's nanoseconds, \<open>int(badger.ERROR)\<close> and the
  float constant \<open>badgerDefaultGCPercentage\<close>, 0.5.
\<close>

definition getDefaultBadgerOptions :: "string \<Rightarrow> int \<Rightarrow> int \<Rightarrow> 'f \<Rightarrow> 'f badgerOpts" where
  "getDefaultBadgerOptions tmp nano lvlERROR half =
     \<lparr>dir = tmp @ ''/badger-'' @ go_itoa nano, memoryStorage = True, compression = False,
      numCompactors = badgerDefaultNumCompactors, numVersionsToKeep = badgerDefaultNumVersionsToKeep,
      indexCacheSize = badgerDefaultIndexCacheSize, blockCacheSize = badgerDefaultBlockCacheSize,
      blockSize = badgerDefaultBlockSize, loggingLevel = lvlERROR, metricsEnabled = True,
      detectConflicts = True, gcInterval = badgerDefaultGCInterval, gcPercentage = half,
      memTableSize = badgerDefaultMemTableSize, valueThreshold = badgerDefaultValueThreshold,
      encryptionKey = '''', encryptionKeyRotation = badgerDefaultKeyRotationDays * 24 * Hour, syncWrites = False\<rparr>"

type_synonym 'f OptionFuncBadger = "'f badgerOpts \<Rightarrow> 'f badgerOpts"

section \<open>Functional options\<close>

definition WithTempDir :: "string \<Rightarrow> 'f badgerOpts \<Rightarrow> 'f badgerOpts" where
  "WithTempDir d o1 = o1\<lparr>dir := d\<rparr>"
definition WithMemoryStorage :: "bool \<Rightarrow> 'f badgerOpts \<Rightarrow> 'f badgerOpts" where
  "WithMemoryStorage b o1 = o1\<lparr>memoryStorage := b\<rparr>"
definition WithCompression :: "bool \<Rightarrow> 'f badgerOpts \<Rightarrow> 'f badgerOpts" where
  "WithCompression b o1 = o1\<lparr>compression := b\<rparr>"
definition WithNumCompactors :: "int \<Rightarrow> 'f badgerOpts \<Rightarrow> 'f badgerOpts" where
  "WithNumCompactors n o1 = o1\<lparr>numCompactors := n\<rparr>"
definition WithNumVersionsToKeep :: "int \<Rightarrow> 'f badgerOpts \<Rightarrow> 'f badgerOpts" where
  "WithNumVersionsToKeep n o1 = o1\<lparr>numVersionsToKeep := n\<rparr>"
definition WithIndexCacheSize :: "int \<Rightarrow> 'f badgerOpts \<Rightarrow> 'f badgerOpts" where
  "WithIndexCacheSize n o1 = o1\<lparr>indexCacheSize := n\<rparr>"
definition WithBlockCacheSize :: "int \<Rightarrow> 'f badgerOpts \<Rightarrow> 'f badgerOpts" where
  "WithBlockCacheSize n o1 = o1\<lparr>blockCacheSize := n\<rparr>"
definition WithBlockSize :: "int \<Rightarrow> 'f badgerOpts \<Rightarrow> 'f badgerOpts" where
  "WithBlockSize n o1 = o1\<lparr>blockSize := n\<rparr>"
definition WithLoggingLevel :: "int \<Rightarrow> 'f badgerOpts \<Rightarrow> 'f badgerOpts" where
  "WithLoggingLevel n o1 = o1\<lparr>loggingLevel := n\<rparr>"
definition WithMetricsEnabled :: "bool \<Rightarrow> 'f badgerOpts \<Rightarrow> 'f badgerOpts" where
  "WithMetricsEnabled b o1 = o1\<lparr>metricsEnabled := b\<rparr>"
definition WithDetectConflicts :: "bool \<Rightarrow> 'f badgerOpts \<Rightarrow> 'f badgerOpts" where
  "WithDetectConflicts b o1 = o1\<lparr>detectConflicts := b\<rparr>"
definition WithGcInterval :: "int \<Rightarrow> 'f badgerOpts \<Rightarrow> 'f badgerOpts" where
  "WithGcInterval d o1 = o1\<lparr>gcInterval := d\<rparr>"
definition WithGcPercentage :: "'f \<Rightarrow> 'f badgerOpts \<Rightarrow> 'f badgerOpts" where
  "WithGcPercentage p o1 = o1\<lparr>gcPercentage := p\<rparr>"
definition WithMemTableSize :: "int \<Rightarrow> 'f badgerOpts \<Rightarrow> 'f badgerOpts" where
  "WithMemTableSize n o1 = o1\<lparr>memTableSize := n\<rparr>"
definition WithValueThreshold :: "int \<Rightarrow> 'f badgerOpts \<Rightarrow> 'f badgerOpts" where
  "WithValueThreshold n o1 = o1\<lparr>valueThreshold := n\<rparr>"
definition WithEncryptionKeyRotationDuration :: "int \<Rightarrow> 'f badgerOpts \<Rightarrow> 'f badgerOpts" where
  "WithEncryptionKeyRotationDuration d o1 = o1\<lparr>encryptionKeyRotation := d\<rparr>"
definition WithSyncWrites :: "bool \<Rightarrow> 'f badgerOpts \<Rightarrow> 'f badgerOpts" where
  "WithSyncWrites b o1 = o1\<lparr>syncWrites := b\<rparr>"

text \<open>The only option that checks its argument, when it is built: a bad key length panics.\<close>

definition WithEncryptionKey :: "string \<Rightarrow> ('f badgerOpts \<Rightarrow> 'f badgerOpts) outcome" where
  "WithEncryptionKey key =
     (if length key \<noteq> encryptionKeyLength16 \<and> length key \<noteq> encryptionKeyLength24 \<and>
         length key \<noteq> encryptionKeyLength32
      then Panic (''Encryption key's length should be either 16, 24, or 32 bytes current length: ''
                  @ go_itoa (int (length key)))
      else Ret (\<lambda>o1. o1\<lparr>encryptionKey := key\<rparr>))"

lemmas badger_option_defs =
  WithTempDir_def WithMemoryStorage_def WithCompression_def WithNumCompactors_def
  WithNumVersionsToKeep_def WithIndexCacheSize_def WithBlockCacheSize_def WithBlockSize_def
  WithLoggingLevel_def WithMetricsEnabled_def WithDetectConflicts_def WithGcInterval_def
  WithGcPercentage_def WithMemTableSize_def WithValueThreshold_def
  WithEncryptionKeyRotationDuration_def WithSyncWrites_def

section \<open>The constructor\<close>

datatype compression_type = ZSTD | NoCompression
datatype log_level = DEBUG | INFO | WARNING | ERROR

text \<open>What the constructor sets in \<open>badger.Options\<close>; other fields keep the library's defaults.\<close>

record badger_options =
  bo_Dir :: string
  bo_Compression :: compression_type
  bo_NumCompactors :: int
  bo_MetricsEnabled :: bool
  bo_DetectConflicts :: bool
  bo_LoggingLevel :: log_level
  bo_BlockSize :: int
  bo_NumVersionsToKeep :: int
  bo_IndexCacheSize :: int
  bo_InMemory :: bool
  bo_MemTableSize :: int
  bo_BlockCacheSize :: int
  bo_ValueThreshold :: int
  bo_SyncWrites :: bool
  bo_Encryption :: "(string \<times> int) option"

definition logging_level_of :: "int \<Rightarrow> log_level" where
  "logging_level_of n =
     (if n = 0 then DEBUG else if n = 1 then INFO else if n = 2 then WARNING
      else if n = 3 then ERROR else ERROR)"

definition badger_options_of :: "'f badgerOpts \<Rightarrow> badger_options" where
  "badger_options_of o1 =
     \<lparr>bo_Dir = (if \<not> memoryStorage o1 then dir o1 else ''''),
      bo_Compression = (if compression o1 then ZSTD else NoCompression),
      bo_NumCompactors = numCompactors o1, bo_MetricsEnabled = metricsEnabled o1,
      bo_DetectConflicts = False, bo_LoggingLevel = logging_level_of (loggingLevel o1),
      bo_BlockSize = blockSize o1, bo_NumVersionsToKeep = numVersionsToKeep o1,
      bo_IndexCacheSize = indexCacheSize o1, bo_InMemory = memoryStorage o1,
      bo_MemTableSize = memTableSize o1, bo_BlockCacheSize = blockCacheSize o1,
      bo_ValueThreshold = valueThreshold o1, bo_SyncWrites = syncWrites o1,
      bo_Encryption = (if encryptionKey o1 \<noteq> ''''
                       then Some (encryptionKey o1, encryptionKeyRotation o1) else None)\<rparr>"

text \<open>
  The goroutine started for value log collection: \<open>time.NewTicker\<close> panics when the interval is not
  positive; otherwise it runs \<open>RunValueLogGC\<close> at every tick.
\<close>

definition gc_goroutine :: "'f badgerOpts \<Rightarrow> (int \<times> 'f) outcome" where
  "gc_goroutine o1 =
     (if gcInterval o1 \<le> 0 then Panic ''non-positive interval for NewTicker''
      else Ret (gcInterval o1, gcPercentage o1))"

text \<open>\<open>open\<close> is \<open>badger.Open\<close>; the result is the storage and the goroutine's start.\<close>

definition NewMightyMapBadgerStorage ::
  "(badger_options \<Rightarrow> err + 'db) \<Rightarrow> 'f badgerOpts \<Rightarrow> ('f badgerOpts \<Rightarrow> 'f badgerOpts) list \<Rightarrow>
    ('db badger \<times> (int \<times> 'f) outcome) outcome" where
  "NewMightyMapBadgerStorage opn defaults optfuncs =
     (let opts = apply_opts optfuncs defaults in
      case opn (badger_options_of opts) of
        Inl e \<Rightarrow> Panic e
      | Inr db \<Rightarrow>
          Ret (\<lparr>bg_db = db, bg_len = 0, bg_initLenCall = False\<rparr>, gc_goroutine opts))"

section \<open>What reaches the database\<close>

lemma WithDetectConflicts_ignored:
  "badger_options_of (WithDetectConflicts b o1) = badger_options_of o1"
  by (simp add: badger_options_of_def WithDetectConflicts_def)

lemma in_memory_ignores_dir:
  "memoryStorage o1 \<Longrightarrow> badger_options_of (WithTempDir d o1) = badger_options_of o1"
  by (simp add: badger_options_of_def WithTempDir_def)

lemma WithEncryptionKey_ok_iff:
  "(\<exists>f. WithEncryptionKey key = Ret f) \<longleftrightarrow> length key \<in> {16, 24, 32}"
  by (simp add: WithEncryptionKey_def)

end
