(* ===== verification/Redis_Opts.thy ===== *)
theory Redis_Opts
  imports Prelude
begin

text \<open>
  \<open>storage/mightymapRedisOpts.go\<close> and the part of the constructor in
  \<open>storage/mightymapRedisStore.go\<close> that turns the options into the client's: defaults, functional
  options, TLS. Durations are nanoseconds. The types \<open>'t\<close> and \<open>'m\<close> stand for \<open>tls.Config\<close> and
  \<open>testing.T\<close>, whose contents the code never reads; a nil pointer is \<open>None\<close>.
\<close>

record ('t, 'm) redisOpts =
  addr :: string
  username :: string
  password :: string
  db_index :: int
  poolSize :: int
  maxRetries :: int
  tls :: bool
  tlsConfig :: "'t option"
  prefix :: string
  timeout :: int
  expire :: int
  mock :: "'m option"

text \<open>Default options.\<close>

definition defaultRedisPoolSize :: int where [simp]: "defaultRedisPoolSize = 3"
definition defaultRedisMaxRetries :: int where [simp]: "defaultRedisMaxRetries = 3"
definition defaultRedisTimeout :: int where [simp]: "defaultRedisTimeout = 5 * 1000000000"
definition defaultRedisCursorSize :: int where [simp]: "defaultRedisCursorSize = 2048"
definition redisPrefixSplitExpectedParts :: nat where [simp]: "redisPrefixSplitExpectedParts = 2"
definition redisScanSingleKey :: int where [simp]: "redisScanSingleKey = 1"

type_synonym ('t, 'm) OptionFuncRedis = "('t, 'm) redisOpts \<Rightarrow> ('t, 'm) redisOpts"

definition defaultRedisAddr :: string where
  "defaultRedisAddr = ''localhost:6379''"

definition getDefaultRedisOptions :: "('t, 'm) redisOpts" where
  "getDefaultRedisOptions =
     \<lparr>addr = defaultRedisAddr, username = '''', password = '''', db_index = 0,
      poolSize = defaultRedisPoolSize, maxRetries = defaultRedisMaxRetries, tls = False, tlsConfig = None, prefix = ''mightymap_'',
      timeout = defaultRedisTimeout, expire = 0, mock = None\<rparr>"

section \<open>Functional options\<close>

definition WithRedisExpire :: "int \<Rightarrow> ('t, 'm) redisOpts \<Rightarrow> ('t, 'm) redisOpts" where
  "WithRedisExpire d opts = opts\<lparr>expire := d\<rparr>"
definition WithRedisTimeout :: "int \<Rightarrow> ('t, 'm) redisOpts \<Rightarrow> ('t, 'm) redisOpts" where
  "WithRedisTimeout d opts = opts\<lparr>timeout := d\<rparr>"
definition WithRedisAddr :: "string \<Rightarrow> ('t, 'm) redisOpts \<Rightarrow> ('t, 'm) redisOpts" where
  "WithRedisAddr a opts = opts\<lparr>addr := a\<rparr>"
definition WithRedisUsername :: "string \<Rightarrow> ('t, 'm) redisOpts \<Rightarrow> ('t, 'm) redisOpts" where
  "WithRedisUsername u opts = opts\<lparr>username := u\<rparr>"
definition WithRedisPassword :: "string \<Rightarrow> ('t, 'm) redisOpts \<Rightarrow> ('t, 'm) redisOpts" where
  "WithRedisPassword p opts = opts\<lparr>password := p\<rparr>"
definition WithRedisDB :: "int \<Rightarrow> ('t, 'm) redisOpts \<Rightarrow> ('t, 'm) redisOpts" where
  "WithRedisDB n opts = opts\<lparr>db_index := n\<rparr>"
definition WithRedisPoolSize :: "int \<Rightarrow> ('t, 'm) redisOpts \<Rightarrow> ('t, 'm) redisOpts" where
  "WithRedisPoolSize n opts = opts\<lparr>poolSize := n\<rparr>"
definition WithRedisMaxRetries :: "int \<Rightarrow> ('t, 'm) redisOpts \<Rightarrow> ('t, 'm) redisOpts" where
  "WithRedisMaxRetries n opts = opts\<lparr>maxRetries := n\<rparr>"
definition WithRedisTLS :: "bool \<Rightarrow> ('t, 'm) redisOpts \<Rightarrow> ('t, 'm) redisOpts" where
  "WithRedisTLS b opts = opts\<lparr>tls := b\<rparr>"
definition WithRedisPrefix :: "string \<Rightarrow> ('t, 'm) redisOpts \<Rightarrow> ('t, 'm) redisOpts" where
  "WithRedisPrefix p opts = opts\<lparr>prefix := p\<rparr>"
definition WithRedisMock :: "'m \<Rightarrow> ('t, 'm) redisOpts \<Rightarrow> ('t, 'm) redisOpts" where
  "WithRedisMock t opts = opts\<lparr>mock := Some t\<rparr>"

text \<open>
  \<open>empty_tls\<close> is \<open>&tls.Config{}\<close>. The option writes its argument only when a configuration is
  already there.
\<close>

definition WithRedisTLSConfig ::
  "'t \<Rightarrow> 't option \<Rightarrow> ('t, 'm) redisOpts \<Rightarrow> ('t, 'm) redisOpts" where
  "WithRedisTLSConfig empty_tls cfg opts =
     (if tlsConfig opts = None then opts\<lparr>tlsConfig := Some empty_tls\<rparr>
      else opts\<lparr>tlsConfig := cfg\<rparr>)"

section \<open>The client's options\<close>

record 't redis_client_options =
  co_Addr :: string
  co_Username :: string
  co_Password :: string
  co_DB :: int
  co_PoolSize :: int
  co_MaxRetries :: int
  co_TLSConfig :: "'t option"

text \<open>
  The options after the constructor filled in a TLS configuration, and the client's options; a
  mock server, started by \<open>runT\<close>, gives an address and nothing else.
\<close>

definition redis_final_opts :: "'t \<Rightarrow> ('t, 'm) redisOpts \<Rightarrow> ('t, 'm) redisOpts" where
  "redis_final_opts empty_tls opts =
     (if tlsConfig opts = None \<and> tls opts then opts\<lparr>tlsConfig := Some empty_tls\<rparr> else opts)"

definition redis_client_options_of ::
  "('m \<Rightarrow> string) \<Rightarrow> ('t, 'm) redisOpts \<Rightarrow> 't redis_client_options" where
  "redis_client_options_of runT opts =
     (case mock opts of
        Some t \<Rightarrow>
          \<lparr>co_Addr = runT t, co_Username = '''', co_Password = '''', co_DB = 0, co_PoolSize = 0,
           co_MaxRetries = 0, co_TLSConfig = None\<rparr>
      | None \<Rightarrow>
          \<lparr>co_Addr = addr opts, co_Username = username opts, co_Password = password opts,
           co_DB = db_index opts, co_PoolSize = poolSize opts, co_MaxRetries = maxRetries opts,
           co_TLSConfig = (if tls opts then tlsConfig opts else None)\<rparr>)"

lemmas redis_option_defs =
  WithRedisExpire_def WithRedisTimeout_def WithRedisAddr_def WithRedisUsername_def
  WithRedisPassword_def WithRedisDB_def WithRedisPoolSize_def WithRedisMaxRetries_def
  WithRedisTLS_def WithRedisPrefix_def WithRedisMock_def WithRedisTLSConfig_def

text \<open>Where a TLS configuration ends up, given once to a fresh set of options, and given twice.\<close>

lemma WithRedisTLSConfig_once:
  "tlsConfig opts = None \<Longrightarrow>
    tlsConfig (WithRedisTLSConfig empty_tls cfg opts) = Some empty_tls"
  by (simp add: WithRedisTLSConfig_def)

lemma WithRedisTLSConfig_twice:
  "tlsConfig (WithRedisTLSConfig empty_tls cfg' (WithRedisTLSConfig empty_tls cfg opts)) = cfg'
    \<or> cfg = None"
  by (simp add: WithRedisTLSConfig_def)

end
