(* ===== verification/Redis_Storage.thy ===== *)
theory Redis_Storage
  imports Key_Codec Msgpack_Adapter Redis_Opts Go_Strings
begin

text \<open>
  \<open>storage/mightymapRedisStore.go\<close>: the byte storage over a Redis server. Keys are stored under
  \<open>prefix + msgpack(key)\<close>; the methods that need all keys run the \<open>SCAN\<close> cursor loop and cut the
  prefix off with \<open>strings.SplitN\<close>. The client (github.com/redis/go-redis) and the server behind it
  are the parameter \<open>api\<close>; a command that misses the context's deadline is one that returns an
  error.
\<close>

section \<open>The client\<close>

datatype redis_error = RedisNil | RedisErr err

fun redis_error_text :: "redis_error \<Rightarrow> err" where
  "redis_error_text RedisNil = ''redis: nil''"
| "redis_error_text (RedisErr e) = e"

record 'db redis_api =
  rd_set :: "'db \<Rightarrow> string \<Rightarrow> bytes \<Rightarrow> int \<Rightarrow> err + 'db"
  rd_get :: "'db \<Rightarrow> string \<Rightarrow> redis_error + bytes"
  rd_del :: "'db \<Rightarrow> string \<Rightarrow> err + 'db"
  rd_scan :: "'db \<Rightarrow> 64 word \<Rightarrow> string \<Rightarrow> int \<Rightarrow> err + (string list \<times> 64 word)"
  rd_close :: "'db \<Rightarrow> err option \<times> 'db"

section \<open>Methods\<close>

record ('db, 't, 'm) redis =
  rs_client :: 'db
  rs_opts :: "('t, 'm) redisOpts"

definition NewMightyMapRedisStorage ::
  "('t redis_client_options \<Rightarrow> 'db) \<Rightarrow> ('m \<Rightarrow> string) \<Rightarrow> 't \<Rightarrow>
    (('t, 'm) redisOpts \<Rightarrow> ('t, 'm) redisOpts) list \<Rightarrow> ('db, 't, 'm) redis" where
  "NewMightyMapRedisStorage new_client runT empty_tls optfuncs =
     (let opts = redis_final_opts empty_tls (apply_opts optfuncs getDefaultRedisOptions)
      in \<lparr>rs_client = new_client (redis_client_options_of runT opts), rs_opts = opts\<rparr>)"

definition full_key :: "('db, 't, 'm) redis \<Rightarrow> bytes \<Rightarrow> string" where
  "full_key c keyBytes = prefix (rs_opts c) @ keyBytes"

text \<open>
  The cursor loop: it ends when the server returns cursor 0. \<open>None\<close> is a loop that never ends.
\<close>

partial_function (option) scan_loop ::
  "'db redis_api \<Rightarrow> 'db \<Rightarrow> string \<Rightarrow> int \<Rightarrow> 64 word \<Rightarrow> string list \<Rightarrow> (err + string list) option" where
  "scan_loop api db keyPattern n cursor keys =
     (case rd_scan api db cursor keyPattern n of
        Inl e \<Rightarrow> Some (Inl e)
      | Inr (kk, cursor') \<Rightarrow>
          if cursor' = 0 then Some (Inr (keys @ kk))
          else scan_loop api db keyPattern n cursor' (keys @ kk))"

definition redis_scan ::
  "'db redis_api \<Rightarrow> ('db, 't, 'm) redis \<Rightarrow> string \<Rightarrow> int list \<Rightarrow> (err + string list) outcome" where
  "redis_scan api c keyPattern maxKeys =
     (case scan_loop api (rs_client c) keyPattern
             (case maxKeys of [] \<Rightarrow> defaultRedisCursorSize | n # _ \<Rightarrow> n) 0 [] of
        None \<Rightarrow> Hang
      | Some r \<Rightarrow> Ret r)"

text \<open>Scan all keys under the prefix, panicking on an error, as every caller does.\<close>

definition scan_prefix ::
  "'db redis_api \<Rightarrow> ('db, 't, 'm) redis \<Rightarrow> int list \<Rightarrow> string list outcome" where
  "scan_prefix api c maxKeys =
     obind (redis_scan api c (prefix (rs_opts c) @ ''*'') maxKeys) or_panic"

definition redis_Store ::
  "'k key_codec \<Rightarrow> 'db redis_api \<Rightarrow> ('db, 't, 'm) redis \<Rightarrow> 'k \<Rightarrow> bytes \<Rightarrow> ('db, 't, 'm) redis outcome"
where
  "redis_Store kc api c key value =
     (case key_marshal kc key of
        Inl e \<Rightarrow> Panic e
      | Inr keyBytes \<Rightarrow>
          (case rd_set api (rs_client c) (full_key c keyBytes) value (expire (rs_opts c)) of
             Inl e \<Rightarrow> Panic e
           | Inr db' \<Rightarrow> Ret (c\<lparr>rs_client := db'\<rparr>)))"

definition redis_Load ::
  "'k key_codec \<Rightarrow> 'db redis_api \<Rightarrow> ('db, 't, 'm) redis \<Rightarrow> 'k \<Rightarrow> (bytes \<times> bool) outcome" where
  "redis_Load kc api c key =
     (case key_marshal kc key of
        Inl e \<Rightarrow> Panic e
      | Inr keyBytes \<Rightarrow>
          (case rd_get api (rs_client c) (full_key c keyBytes) of
             Inl RedisNil \<Rightarrow> Ret ([], False)
           | Inl (RedisErr e) \<Rightarrow> Panic e
           | Inr v \<Rightarrow> Ret (v, True)))"

fun redis_Delete ::
  "'k key_codec \<Rightarrow> 'db redis_api \<Rightarrow> ('db, 't, 'm) redis \<Rightarrow> 'k list \<Rightarrow> ('db, 't, 'm) redis outcome"
where
  "redis_Delete kc api c [] = Ret c"
| "redis_Delete kc api c (key # keys) =
     (case key_marshal kc key of
        Inl e \<Rightarrow> Panic e
      | Inr keyBytes \<Rightarrow>
          (case rd_del api (rs_client c) (full_key c keyBytes) of
             Inl e \<Rightarrow> Panic e
           | Inr db' \<Rightarrow> redis_Delete kc api (c\<lparr>rs_client := db'\<rparr>) keys))"

text \<open>
  Cut the prefix off each key and decode the rest, as Clear and Keys do: a key that does not split
  in two is skipped, one that does not decode panics.
\<close>

fun redis_decode_keys :: "'k key_codec \<Rightarrow> string \<Rightarrow> string list \<Rightarrow> 'k list \<Rightarrow> 'k list outcome" where
  "redis_decode_keys kc p [] kkeys = Ret kkeys"
| "redis_decode_keys kc p (key # keys) kkeys =
     (let keySplit = split_n key p 2 in
      if length keySplit \<noteq> redisPrefixSplitExpectedParts then redis_decode_keys kc p keys kkeys
      else case key_unmarshal kc (keySplit ! 1) of
        Inl e \<Rightarrow> Panic e
      | Inr k \<Rightarrow> redis_decode_keys kc p keys (kkeys @ [k]))"

definition redis_Clear ::
  "'k key_codec \<Rightarrow> 'db redis_api \<Rightarrow> ('db, 't, 'm) redis \<Rightarrow> ('db, 't, 'm) redis outcome" where
  "redis_Clear kc api c =
     obind (scan_prefix api c []) (\<lambda>keys.
     obind (redis_decode_keys kc (prefix (rs_opts c)) keys []) (\<lambda>kkeys.
       if length kkeys > 0 then redis_Delete kc api c kkeys else Ret c))"

definition redis_Keys ::
  "'k key_codec \<Rightarrow> 'db redis_api \<Rightarrow> ('db, 't, 'm) redis \<Rightarrow> 'k list outcome" where
  "redis_Keys kc api c =
     obind (scan_prefix api c []) (\<lambda>keys. redis_decode_keys kc (prefix (rs_opts c)) keys [])"

definition redis_Len :: "'db redis_api \<Rightarrow> ('db, 't, 'm) redis \<Rightarrow> int outcome" where
  "redis_Len api c = obind (scan_prefix api c []) (\<lambda>keys. Ret (int (length keys)))"

definition redis_Next ::
  "'k key_codec \<Rightarrow> 'db redis_api \<Rightarrow> 'k \<Rightarrow> ('db, 't, 'm) redis \<Rightarrow>
    (('k \<times> bytes \<times> bool) \<times> ('db, 't, 'm) redis) outcome" where
  "redis_Next kc api zk c =
     obind (scan_prefix api c [redisScanSingleKey]) (\<lambda>keys.
       case keys of
         [] \<Rightarrow> Ret ((zk, [], False), c)
       | key0 # _ \<Rightarrow>
           (let splitKey = split_n key0 (prefix (rs_opts c)) 2 in
            if length splitKey \<noteq> redisPrefixSplitExpectedParts then Ret ((zk, [], False), c)
            else case key_unmarshal kc (splitKey ! 1) of
              Inl e \<Rightarrow> Panic e
            | Inr k \<Rightarrow>
                (case rd_get api (rs_client c) key0 of
                   Inl e \<Rightarrow> Panic (redis_error_text e)
                 | Inr v \<Rightarrow>
                     obind (redis_Delete kc api c [k]) (\<lambda>c'. Ret ((k, v, True), c')))))"

text \<open>Range reads each value when its turn comes; a key that is gone by then is an error.\<close>

fun redis_range_loop ::
  "'k key_codec \<Rightarrow> 'db redis_api \<Rightarrow> 'db \<Rightarrow> string \<Rightarrow> ('k, bytes, 'c) callback \<Rightarrow> string list \<Rightarrow> 'c \<Rightarrow>
    'c outcome" where
  "redis_range_loop kc api db p f [] st = Ret st"
| "redis_range_loop kc api db p f (key # keys) st =
     (let splitKey = split_n key p 2 in
      if length splitKey \<noteq> redisPrefixSplitExpectedParts then redis_range_loop kc api db p f keys st
      else case rd_get api db key of
        Inl e \<Rightarrow> Panic (redis_error_text e)
      | Inr vb \<Rightarrow>
          (case key_unmarshal kc (splitKey ! 1) of
             Inl e \<Rightarrow> Panic e
           | Inr k \<Rightarrow>
               obind (f k vb st) (\<lambda>(go, st').
                 if go then redis_range_loop kc api db p f keys st' else Ret st')))"

definition redis_Range ::
  "'k key_codec \<Rightarrow> 'db redis_api \<Rightarrow> ('db, 't, 'm) redis \<Rightarrow> ('k, bytes, 'c) callback \<Rightarrow> 'c \<Rightarrow> 'c outcome"
where
  "redis_Range kc api c f st =
     obind (scan_prefix api c []) (\<lambda>keys.
       redis_range_loop kc api (rs_client c) (prefix (rs_opts c)) f keys st)"

definition redis_Close ::
  "'db redis_api \<Rightarrow> ('db, 't, 'm) redis \<Rightarrow> err option \<times> ('db, 't, 'm) redis" where
  "redis_Close api c = (let (e, db') = rd_close api (rs_client c) in (e, c\<lparr>rs_client := db'\<rparr>))"

definition redis_ops ::
  "'k key_codec \<Rightarrow> 'db redis_api \<Rightarrow> 'k \<Rightarrow> (('db, 't, 'm) redis, 'k, bytes, 'c) storage_ops" where
  "redis_ops kc api zk =
     \<lparr>op_Load = redis_Load kc api, op_Store = redis_Store kc api, op_Delete = redis_Delete kc api,
      op_Range = redis_Range kc api, op_Keys = redis_Keys kc api, op_Next = redis_Next kc api zk,
      op_Len = \<lambda>c. obind (redis_Len api c) (\<lambda>n. Ret (n, c)),
      op_Clear = redis_Clear kc api, op_Close = \<lambda>c. Ret (redis_Close api c)\<rparr>"

end
