(* ===== verification/Redis_Contract.thy ===== *)
theory Redis_Contract
  imports Redis_Storage
begin

text \<open>
  What the Redis backend keeps of the storage interface, given the documented behaviour of the
  server, as long as no key expires during a call: SET, GET, DEL, and a SCAN whose cursor loop returns every key under the
  prefix at least once. Since SCAN may return a key more than once, the contract of Range, Keys
  and Len holds for servers that do not; Load, Store, Delete, Clear and Next hold for all.
\<close>

section \<open>The server's documented behaviour\<close>

text \<open>The batches of a SCAN iteration from a cursor, up to the batch that comes with cursor 0.\<close>

inductive scan_from ::
  "'db redis_api \<Rightarrow> 'db \<Rightarrow> string \<Rightarrow> int \<Rightarrow> 64 word \<Rightarrow> string list \<Rightarrow> bool"
  for api db pat n where
  scan_last: "rd_scan api db cursor pat n = Inr (kk, 0) \<Longrightarrow> scan_from api db pat n cursor kk"
| scan_more: "rd_scan api db cursor pat n = Inr (kk, cursor') \<Longrightarrow> cursor' \<noteq> 0 \<Longrightarrow>
    scan_from api db pat n cursor' ks \<Longrightarrow> scan_from api db pat n cursor (kk @ ks)"

text \<open>A prefix that MATCH takes literally: none of the characters of a glob pattern.\<close>

definition glob_free :: "string \<Rightarrow> bool" where
  "glob_free p \<longleftrightarrow> set p \<inter> {CHR ''*'', CHR ''?'', CHR ''['', CHR '']'', CHR 0x5C} = {}"

text \<open>
  \<open>up\<close> says that the client is open, \<open>dbmap\<close> is the server's key space and \<open>fit\<close> its bound on
  the size of keys and values.
\<close>

definition redis_ok ::
  "'db redis_api \<Rightarrow> ('db \<Rightarrow> bool) \<Rightarrow> ('db \<Rightarrow> string \<rightharpoonup> bytes) \<Rightarrow> (string \<Rightarrow> bool) \<Rightarrow> bool" where
  "redis_ok api up dbmap fit \<longleftrightarrow>
     (\<forall>db. up db \<longrightarrow>
        (\<forall>k v ttl. fit k \<and> fit v \<longrightarrow>
           (\<exists>db'. rd_set api db k v ttl = Inr db' \<and> up db' \<and> dbmap db' = (dbmap db)(k \<mapsto> v))) \<and>
        (\<forall>k. rd_get api db k = (case dbmap db k of None \<Rightarrow> Inl RedisNil | Some v \<Rightarrow> Inr v)) \<and>
        (\<forall>k. \<exists>db'. rd_del api db k = Inr db' \<and> up db' \<and> dbmap db' = (dbmap db)(k := None)) \<and>
        (\<forall>p n. glob_free p \<longrightarrow>
           (\<exists>ks. scan_from api db (p @ ''*'') n 0 ks \<and>
              set ks = {k \<in> dom (dbmap db). has_prefix k p})))"

text \<open>A server whose iterations return each key once.\<close>

definition scan_once :: "'db redis_api \<Rightarrow> ('db \<Rightarrow> bool) \<Rightarrow> bool" where
  "scan_once api up \<longleftrightarrow>
     (\<forall>db pat n ks. up db \<longrightarrow> scan_from api db pat n 0 ks \<longrightarrow> distinct ks)"

lemma redis_okD:
  assumes "redis_ok api up dbmap fit" "up db"
  shows "fit k \<Longrightarrow> fit v \<Longrightarrow>
      \<exists>db'. rd_set api db k v ttl = Inr db' \<and> up db' \<and> dbmap db' = (dbmap db)(k \<mapsto> v)"
    and "rd_get api db k = (case dbmap db k of None \<Rightarrow> Inl RedisNil | Some v \<Rightarrow> Inr v)"
    and "\<exists>db'. rd_del api db k = Inr db' \<and> up db' \<and> dbmap db' = (dbmap db)(k := None)"
    and "glob_free p \<Longrightarrow> \<exists>ks. scan_from api db (p @ ''*'') n 0 ks \<and>
      set ks = {k \<in> dom (dbmap db). has_prefix k p}"
proof -
  note d = assms(1)[unfolded redis_ok_def, THEN spec, THEN mp, OF assms(2)]
  show "fit k \<Longrightarrow> fit v \<Longrightarrow>
      \<exists>db'. rd_set api db k v ttl = Inr db' \<and> up db' \<and> dbmap db' = (dbmap db)(k \<mapsto> v)"
    using d[THEN conjunct1] by blast
  note d = d[THEN conjunct2]
  show "rd_get api db k = (case dbmap db k of None \<Rightarrow> Inl RedisNil | Some v \<Rightarrow> Inr v)"
    using d[THEN conjunct1] by blast
  note d = d[THEN conjunct2]
  show "\<exists>db'. rd_del api db k = Inr db' \<and> up db' \<and> dbmap db' = (dbmap db)(k := None)"
    using d[THEN conjunct1] by blast
  show "glob_free p \<Longrightarrow> \<exists>ks. scan_from api db (p @ ''*'') n 0 ks \<and>
      set ks = {k \<in> dom (dbmap db). has_prefix k p}"
    using d[THEN conjunct2] by blast
qed

section \<open>The cursor loop\<close>

text \<open>The loop ends whenever the server's iteration does, with the keys of all batches in order.\<close>

lemma scan_loop_scan_from:
  "scan_from api db pat n cursor ks \<Longrightarrow> scan_loop api db pat n cursor acc = Some (Inr (acc @ ks))"
proof (induction cursor ks arbitrary: acc rule: scan_from.induct)
  case (scan_last cursor kk)
  then show ?case by (subst scan_loop.simps) simp
next
  case (scan_more cursor kk cursor' ks)
  then show ?case by (subst scan_loop.simps) simp
qed

text \<open>Whatever it returns is the concatenation of a complete iteration.\<close>

lemma scan_loop_sound_all:
  assumes "scan_loop api db pat n cursor acc = Some y"
  shows "\<forall>r. y = Inr r \<longrightarrow> (\<exists>ks. r = acc @ ks \<and> scan_from api db pat n cursor ks)"
proof (rule scan_loop.raw_induct[where P = "\<lambda>api db pat n cursor acc y.
    \<forall>r. y = Inr r \<longrightarrow> (\<exists>ks. r = acc @ ks \<and> scan_from api db pat n cursor ks)", OF _ assms])
  fix scan :: "'a redis_api \<Rightarrow> 'a \<Rightarrow> string \<Rightarrow> int \<Rightarrow> 64 word \<Rightarrow> string list \<Rightarrow>
      (err + string list) option"
  fix api :: "'a redis_api" and db pat n cursor acc y
  assume IH: "\<And>api db pat n cursor acc y. scan api db pat n cursor acc = Some y \<Longrightarrow>
      \<forall>r. y = Inr r \<longrightarrow> (\<exists>ks. r = acc @ ks \<and> scan_from api db pat n cursor ks)"
    and body: "(case rd_scan api db cursor pat n of
        Inl e \<Rightarrow> Some (Inl e)
      | Inr (kk, cursor') \<Rightarrow>
          if cursor' = 0 then Some (Inr (acc @ kk)) else scan api db pat n cursor' (acc @ kk)) =
      Some y"
  show "\<forall>r. y = Inr r \<longrightarrow> (\<exists>ks. r = acc @ ks \<and> scan_from api db pat n cursor ks)"
  proof (intro allI impI)
    fix r assume y: "y = Inr r"
    show "\<exists>ks. r = acc @ ks \<and> scan_from api db pat n cursor ks"
    proof (cases "rd_scan api db cursor pat n")
      case (Inl e)
      with body y show ?thesis by simp
    next
      case (Inr b)
      obtain kk cursor' where b: "b = (kk, cursor')" by force
      show ?thesis
      proof (cases "cursor' = 0")
        case True
        with Inr b body y scan_last[of api db cursor pat n kk] show ?thesis by auto
      next
        case False
        with Inr b body y have "scan api db pat n cursor' (acc @ kk) = Some (Inr r)" by simp
        with IH obtain ks where "r = (acc @ kk) @ ks" "scan_from api db pat n cursor' ks" by blast
        with Inr b False scan_more[of api db cursor pat n kk cursor' ks] show ?thesis by auto
      qed
    qed
  qed
qed

lemma scan_loop_sound:
  assumes "scan_loop api db pat n cursor acc = Some (Inr r)"
  shows "\<exists>ks. r = acc @ ks \<and> scan_from api db pat n cursor ks"
  using scan_loop_sound_all[OF assms] by simp

section \<open>The invariant\<close>

text \<open>The part of the key space under a prefix, with the prefix cut off.\<close>

definition cut_prefix :: "string \<Rightarrow> (string \<rightharpoonup> 'v) \<Rightarrow> bytes \<rightharpoonup> 'v" where
  "cut_prefix p m = (\<lambda>b. m (p @ b))"

lemma cut_prefix_upd [simp]: "cut_prefix p (m(p @ b := x)) = (cut_prefix p m)(b := x)"
  by (auto simp: cut_prefix_def fun_eq_iff)

lemma dom_cut_prefix: "b \<in> dom (cut_prefix p m) \<longleftrightarrow> p @ b \<in> dom m"
  by (simp add: cut_prefix_def domIff)

definition redis_inv ::
  "'k key_codec \<Rightarrow> 'db redis_api \<Rightarrow> ('db \<Rightarrow> bool) \<Rightarrow> ('db \<Rightarrow> string \<rightharpoonup> bytes) \<Rightarrow> (string \<Rightarrow> bool) \<Rightarrow>
    string \<Rightarrow> ('db, 't, 'm) redis \<Rightarrow> bool" where
  "redis_inv kc api up dbmap fit p c \<longleftrightarrow>
     redis_ok api up dbmap fit \<and> up (rs_client c) \<and>
     prefix (rs_opts c) = p \<and> p \<noteq> [] \<and> glob_free p \<and>
     keys_decode kc (\<lambda>b. fit (p @ b)) (cut_prefix p (dbmap (rs_client c))) \<and>
     (\<forall>v \<in> ran (cut_prefix p (dbmap (rs_client c))). fit v)"

definition redis_abs ::
  "'k key_codec \<Rightarrow> ('db \<Rightarrow> string \<rightharpoonup> bytes) \<Rightarrow> (string \<Rightarrow> bool) \<Rightarrow> string \<Rightarrow> ('db, 't, 'm) redis \<Rightarrow>
    'k \<rightharpoonup> bytes" where
  "redis_abs kc dbmap fit p c = key_map kc (\<lambda>b. fit (p @ b)) (cut_prefix p (dbmap (rs_client c)))"

abbreviation redis_kok :: "'k key_codec \<Rightarrow> (string \<Rightarrow> bool) \<Rightarrow> string \<Rightarrow> 'k \<Rightarrow> bool" where
  "redis_kok kc fit p \<equiv> key_ok kc (\<lambda>b. fit (p @ b))"

text \<open>Keys that do not start with the prefix belong to others and are left alone.\<close>

definition redis_frame ::
  "('db \<Rightarrow> string \<rightharpoonup> bytes) \<Rightarrow> string \<Rightarrow> ('db, 't, 'm) redis \<Rightarrow> ('db, 't, 'm) redis \<Rightarrow> bool" where
  "redis_frame dbmap p c c' \<longleftrightarrow>
     (\<forall>x. \<not> has_prefix x p \<longrightarrow> dbmap (rs_client c') x = dbmap (rs_client c) x)"

lemma redis_frame_refl [simp]: "redis_frame dbmap p c c"
  by (simp add: redis_frame_def)

lemma redis_frame_trans:
  "redis_frame dbmap p c c' \<Longrightarrow> redis_frame dbmap p c' c'' \<Longrightarrow> redis_frame dbmap p c c''"
  by (simp add: redis_frame_def)

lemma redis_invD:
  assumes "redis_inv kc api up dbmap fit p c"
  shows "redis_ok api up dbmap fit" "up (rs_client c)" "prefix (rs_opts c) = p" "p \<noteq> []"
    "glob_free p"
    "keys_decode kc (\<lambda>b. fit (p @ b)) (cut_prefix p (dbmap (rs_client c)))"
    "cut_prefix p (dbmap (rs_client c)) b = Some v \<Longrightarrow> fit v"
  using assms unfolding redis_inv_def by (blast, blast, blast, blast, blast, blast, metis ranI)

text \<open>The server's key space after the entry of one of our keys is written or removed.\<close>

lemma redis_inv_upd:
  assumes "redis_inv kc api up dbmap fit p c" "up db'"
    and "dbmap db' = (dbmap (rs_client c))(p @ b := x)"
    and "redis_kok kc fit p k" "key_marshal kc k = Inr b" "\<And>v. x = Some v \<Longrightarrow> fit v"
  shows "redis_inv kc api up dbmap fit p (c\<lparr>rs_client := db'\<rparr>)"
    and "redis_abs kc dbmap fit p (c\<lparr>rs_client := db'\<rparr>) = (redis_abs kc dbmap fit p c)(k := x)"
    and "redis_frame dbmap p c (c\<lparr>rs_client := db'\<rparr>)"
proof -
  have u: "cut_prefix p (dbmap db') = (cut_prefix p (dbmap (rs_client c)))(b := x)" using assms(3) by simp
  show "redis_abs kc dbmap fit p (c\<lparr>rs_client := db'\<rparr>) = (redis_abs kc dbmap fit p c)(k := x)"
    using key_map_upd[OF assms(4,5)] u by (simp add: redis_abs_def)
  show "redis_inv kc api up dbmap fit p (c\<lparr>rs_client := db'\<rparr>)"
    using assms redis_invD[OF assms(1)] keys_decode_upd[OF _ assms(4,5)] u
    by (auto simp: redis_inv_def ran_def split: if_splits)
  show "redis_frame dbmap p c (c\<lparr>rs_client := db'\<rparr>)"
    using assms(3) by (auto simp: redis_frame_def)
qed

section \<open>Load, Store and Delete\<close>

lemma redis_Load_spec:
  assumes inv: "redis_inv kc api up dbmap fit p c" and k: "redis_kok kc fit p k"
  shows "redis_Load kc api c k = Ret (lookup_result [] (redis_abs kc dbmap fit p c) k)"
proof -
  obtain b where b: "key_marshal kc k = Inr b" using k by (rule key_okE)
  have "redis_abs kc dbmap fit p c k = dbmap (rs_client c) (p @ b)"
    using key_map_apply[OF k b] by (simp add: redis_abs_def cut_prefix_def)
  with b redis_invD(3)[OF inv] redis_okD(2)[OF redis_invD(1,2)[OF inv], of "p @ b"]
  show ?thesis
    by (auto simp: redis_Load_def full_key_def lookup_result_def split: option.splits)
qed

lemma redis_Store_spec:
  assumes inv: "redis_inv kc api up dbmap fit p c" and k: "redis_kok kc fit p k" and v: "fit v"
  shows "\<exists>c'. redis_Store kc api c k v = Ret c' \<and> redis_inv kc api up dbmap fit p c' \<and>
    redis_abs kc dbmap fit p c' = (redis_abs kc dbmap fit p c)(k \<mapsto> v) \<and> redis_frame dbmap p c c'"
proof -
  obtain b where b: "key_marshal kc k = Inr b" "fit (p @ b)" using k by (rule key_okE)
  then obtain db' where db': "rd_set api (rs_client c) (p @ b) v (expire (rs_opts c)) = Inr db'" "up db'"
    "dbmap db' = (dbmap (rs_client c))(p @ b \<mapsto> v)"
    using redis_okD(1)[OF redis_invD(1,2)[OF inv]] v by blast
  with b v redis_invD(3)[OF inv] redis_inv_upd[OF inv db'(2,3) k b(1)] show ?thesis
    by (auto simp: redis_Store_def full_key_def)
qed

lemma redis_Delete_spec:
  assumes "redis_inv kc api up dbmap fit p c" "\<forall>k \<in> set ks. redis_kok kc fit p k"
  shows "\<exists>c'. redis_Delete kc api c ks = Ret c' \<and> redis_inv kc api up dbmap fit p c' \<and>
    redis_abs kc dbmap fit p c' = redis_abs kc dbmap fit p c |` (- set ks) \<and>
    redis_frame dbmap p c c'"
  using assms
proof (induction ks arbitrary: c)
  case Nil
  then show ?case by simp
next
  case (Cons k ks)
  have k: "redis_kok kc fit p k" and ks: "\<forall>k \<in> set ks. redis_kok kc fit p k"
    using Cons.prems by auto
  note inv = Cons.prems(1)
  obtain b where b: "key_marshal kc k = Inr b" using k by (rule key_okE)
  obtain db' where db': "rd_del api (rs_client c) (p @ b) = Inr db'" "up db'"
    "dbmap db' = (dbmap (rs_client c))(p @ b := None)"
    using redis_okD(3)[OF redis_invD(1,2)[OF inv]] by blast
  let ?c = "c\<lparr>rs_client := db'\<rparr>"
  have u: "redis_inv kc api up dbmap fit p ?c"
    "redis_abs kc dbmap fit p ?c = (redis_abs kc dbmap fit p c)(k := None)"
    "redis_frame dbmap p c ?c"
    using redis_inv_upd[OF inv db'(2,3) k b] by (metis option.distinct(1))+
  obtain c' where c': "redis_Delete kc api ?c ks = Ret c'" "redis_inv kc api up dbmap fit p c'"
    "redis_abs kc dbmap fit p c' = redis_abs kc dbmap fit p ?c |` (- set ks)"
    "redis_frame dbmap p ?c c'"
    using Cons.IH[OF u(1) ks] by blast
  have "redis_Delete kc api c (k # ks) = Ret c'"
    using b db'(1) c'(1) redis_invD(3)[OF inv] by (simp add: full_key_def)
  moreover have "redis_abs kc dbmap fit p c' = redis_abs kc dbmap fit p c |` (- set (k # ks))"
    unfolding c'(3) u(2) restrict_Cons ..
  ultimately show ?case using c'(2) redis_frame_trans[OF u(3) c'(4)] by blast
qed

section \<open>Scanning\<close>

text \<open>The keys a scan returns, without the prefix: each of them, perhaps more than once.\<close>

lemma redis_scan_prefix:
  assumes inv: "redis_inv kc api up dbmap fit p c"
  obtains bs where "scan_prefix api c mk = Ret (map ((@) p) bs)"
    "set bs = dom (cut_prefix p (dbmap (rs_client c)))" "scan_once api up \<Longrightarrow> distinct bs"
proof -
  note d = redis_invD[OF inv]
  let ?n = "case mk of [] \<Rightarrow> defaultRedisCursorSize | n # _ \<Rightarrow> n"
  obtain ks where ks: "scan_from api (rs_client c) (p @ ''*'') ?n 0 ks"
    "set ks = {k \<in> dom (dbmap (rs_client c)). has_prefix k p}"
    using redis_okD(4)[OF d(1,2,5)] by blast
  let ?bs = "map (drop (length p)) ks"
  have "\<forall>k \<in> set ks. k = p @ drop (length p) k"
    using ks(2) by (auto simp: has_prefix_iff)
  then have m: "map ((@) p) ?bs = ks" by (induction ks) auto
  have "scan_loop api (rs_client c) (p @ ''*'') ?n 0 [] = Some (Inr ([] @ ks))"
    by (rule scan_loop_scan_from[OF ks(1)])
  then have "scan_prefix api c mk = Ret (map ((@) p) ?bs)"
    unfolding m by (simp add: scan_prefix_def redis_scan_def d(3))
  moreover have "set ?bs = dom (cut_prefix p (dbmap (rs_client c)))"
  proof -
    have "set ?bs = {b. p @ b \<in> set ks}"
    proof (rule set_eqI)
      fix b
      have "b \<in> set ?bs \<longleftrightarrow> p @ b \<in> set (map ((@) p) ?bs)" by (auto simp del: map_map)
      then show "b \<in> set ?bs \<longleftrightarrow> b \<in> {b. p @ b \<in> set ks}" unfolding m by simp
    qed
    then show ?thesis using ks(2) by (auto simp: cut_prefix_def)
  qed
  moreover have "distinct ?bs" if "scan_once api up"
  proof -
    have "distinct (map ((@) p) ?bs)"
      unfolding m using that d(2) ks(1) by (auto simp: scan_once_def)
    then show ?thesis by (rule distinct_map[THEN iffD1, THEN conjunct1])
  qed
  ultimately show thesis by (rule that)
qed

text \<open>The loops over the scanned keys, when each of them decodes.\<close>

lemma redis_decode_keys_eq:
  assumes "p \<noteq> []" "\<forall>b \<in> set bs. key_unmarshal kc b = Inr (decode_key kc b)"
  shows "redis_decode_keys kc p (map ((@) p) bs) acc = Ret (acc @ map (decode_key kc) bs)"
  using assms(2) by (induction bs arbitrary: acc) (simp_all add: split_n_prefix[OF assms(1)])

definition read_entries ::
  "'k key_codec \<Rightarrow> (bytes \<rightharpoonup> bytes) \<Rightarrow> bytes list \<Rightarrow> ('k \<times> bytes) list" where
  "read_entries kc m bs = decode_keys kc (map (\<lambda>b. (b, the (m b))) bs)"

lemma redis_range_loop_eq:
  assumes "p \<noteq> []" "\<forall>b \<in> set bs. key_unmarshal kc b = Inr (decode_key kc b)"
    and "\<forall>b \<in> set bs. rd_get api db (p @ b) = Inr (the (m b))"
  shows "redis_range_loop kc api db p f (map ((@) p) bs) st = range_loop f (read_entries kc m bs) st"
  using assms(2,3)
proof (induction bs arbitrary: st)
  case Nil
  then show ?case by (simp add: read_entries_def decode_keys_def)
next
  case (Cons b bs)
  then show ?case
    by (cases "f (decode_key kc b) (the (m b)) st")
      (auto simp: split_n_prefix[OF assms(1)] read_entries_def decode_keys_def)
qed

text \<open>Everything the callers of a scan need.\<close>

lemma redis_scanned:
  assumes inv: "redis_inv kc api up dbmap fit p c"
  obtains bs where "scan_prefix api c mk = Ret (map ((@) p) bs)"
    "set bs = dom (cut_prefix p (dbmap (rs_client c)))" "scan_once api up \<Longrightarrow> distinct bs"
    "\<forall>b \<in> set bs. key_unmarshal kc b = Inr (decode_key kc b)"
    "\<forall>b \<in> set bs. redis_kok kc fit p (decode_key kc b) \<and>
       key_marshal kc (decode_key kc b) = Inr b \<and>
       redis_abs kc dbmap fit p c (decode_key kc b) = cut_prefix p (dbmap (rs_client c)) b"
    "\<forall>b \<in> set bs. rd_get api (rs_client c) (p @ b) = Inr (the (cut_prefix p (dbmap (rs_client c)) b))"
    "decode_key kc ` set bs = dom (redis_abs kc dbmap fit p c)"
proof -
  note d = redis_invD[OF inv]
  let ?m = "cut_prefix p (dbmap (rs_client c))"
  obtain bs where bs: "scan_prefix api c mk = Ret (map ((@) p) bs)" "set bs = dom ?m"
    "scan_once api up \<Longrightarrow> distinct bs"
    using redis_scan_prefix[OF inv, of mk] by blast
  have k: "key_unmarshal kc b = Inr (decode_key kc b) \<and> redis_kok kc fit p (decode_key kc b) \<and>
      key_marshal kc (decode_key kc b) = Inr b \<and>
      redis_abs kc dbmap fit p c (decode_key kc b) = ?m b" if "b \<in> set bs" for b
  proof -
    from that bs(2) obtain v where v: "?m b = Some v" by auto
    from keys_decodeE[OF d(6) v] show ?thesis unfolding redis_abs_def v by metis
  qed
  have g: "rd_get api (rs_client c) (p @ b) = Inr (the (?m b))" if "b \<in> set bs" for b
    using that bs(2) redis_okD(2)[OF d(1,2), of "p @ b"] by (auto simp: cut_prefix_def)
  have "k \<in> decode_key kc ` set bs" if "k \<in> dom (redis_abs kc dbmap fit p c)" for k
  proof -
    from that obtain v where v: "redis_abs kc dbmap fit p c k = Some v" by auto
    then have ok: "redis_kok kc fit p k" unfolding redis_abs_def by (rule key_map_ok)
    then obtain b where b: "key_marshal kc k = Inr b" "key_unmarshal kc b = Inr k" by (rule key_okE)
    with ok v have "b \<in> set bs" by (auto simp: bs(2) redis_abs_def key_map_apply)
    with b(2) show ?thesis by (force simp: decode_key_def)
  qed
  moreover have "decode_key kc b \<in> dom (redis_abs kc dbmap fit p c)" if "b \<in> set bs" for b
    using that k[OF that] bs(2) by auto
  ultimately have "decode_key kc ` set bs = dom (redis_abs kc dbmap fit p c)" by blast
  with bs k g that show thesis by blast
qed

section \<open>Clear and Next\<close>

lemma redis_Clear_spec:
  assumes inv: "redis_inv kc api up dbmap fit p c"
  shows "\<exists>c'. redis_Clear kc api c = Ret c' \<and> redis_inv kc api up dbmap fit p c' \<and>
    redis_abs kc dbmap fit p c' = Map.empty \<and> redis_frame dbmap p c c'"
proof -
  let ?a = "redis_abs kc dbmap fit p c"
  obtain bs where bs: "scan_prefix api c [] = Ret (map ((@) p) bs)"
    "\<forall>b \<in> set bs. key_unmarshal kc b = Inr (decode_key kc b)"
    "\<forall>b \<in> set bs. redis_kok kc fit p (decode_key kc b)"
    "decode_key kc ` set bs = dom ?a"
    using redis_scanned[OF inv, of "[]"] by metis
  let ?ks = "map (decode_key kc) bs"
  have "redis_decode_keys kc p (map ((@) p) bs) [] = Ret ?ks"
    using redis_decode_keys_eq[OF redis_invD(4)[OF inv] bs(2), of "[]"] by simp
  then have clr: "redis_Clear kc api c = (if length ?ks > 0 then redis_Delete kc api c ?ks else Ret c)"
    by (simp add: redis_Clear_def bs(1) redis_invD(3)[OF inv])
  show ?thesis
  proof (cases "bs = []")
    case True
    with bs(4) have "?a = Map.empty" by auto
    with True clr inv show ?thesis by simp
  next
    case False
    obtain c' where c': "redis_Delete kc api c ?ks = Ret c'" "redis_inv kc api up dbmap fit p c'"
      "redis_abs kc dbmap fit p c' = ?a |` (- set ?ks)" "redis_frame dbmap p c c'"
      using redis_Delete_spec[OF inv, of ?ks] bs(3) by auto
    have "?a |` (- set ?ks) = Map.empty"
      using bs(4) by (auto simp: restrict_map_def fun_eq_iff domIff)
    with False clr c' show ?thesis by simp
  qed
qed

lemma redis_Next_spec:
  assumes inv: "redis_inv kc api up dbmap fit p c"
  shows "\<exists>r c'. redis_Next kc api zk c = Ret (r, c') \<and> redis_inv kc api up dbmap fit p c' \<and>
    next_result zk [] (redis_abs kc dbmap fit p c) r (redis_abs kc dbmap fit p c') \<and>
    redis_frame dbmap p c c'"
proof -
  let ?a = "redis_abs kc dbmap fit p c" and ?m = "cut_prefix p (dbmap (rs_client c))"
  obtain bs where bs: "scan_prefix api c [1] = Ret (map ((@) p) bs)" "set bs = dom ?m"
    "\<forall>b \<in> set bs. key_unmarshal kc b = Inr (decode_key kc b)"
    "\<forall>b \<in> set bs. redis_kok kc fit p (decode_key kc b) \<and>
       key_marshal kc (decode_key kc b) = Inr b \<and> ?a (decode_key kc b) = ?m b"
    "\<forall>b \<in> set bs. rd_get api (rs_client c) (p @ b) = Inr (the (?m b))"
    "decode_key kc ` set bs = dom ?a"
    using redis_scanned[OF inv, of "[1]"] by metis
  show ?thesis
  proof (cases bs)
    case Nil
    with bs(6) have "?a = Map.empty" by auto
    with Nil bs(1) inv show ?thesis by (simp add: redis_Next_def next_result_def)
  next
    case (Cons b bs')
    let ?k = "decode_key kc b"
    from Cons bs(2) obtain v where v: "?m b = Some v" by auto
    have k: "key_unmarshal kc b = Inr ?k" "redis_kok kc fit p ?k" "?a ?k = Some v"
      "rd_get api (rs_client c) (p @ b) = Inr v"
      using Cons bs(3,4,5) v by auto
    obtain c' where c': "redis_Delete kc api c [?k] = Ret c'" "redis_inv kc api up dbmap fit p c'"
      "redis_abs kc dbmap fit p c' = ?a |` (- {?k})" "redis_frame dbmap p c c'"
      using redis_Delete_spec[OF inv, of "[?k]"] k(2) by auto
    have "redis_Next kc api zk c = Ret ((?k, v, True), c')"
      using Cons bs(1) k(1,4) c'(1) redis_invD(3,4)[OF inv]
      by (simp add: redis_Next_def split_n_prefix Let_def)
    moreover have "?a \<noteq> Map.empty" using k(3) by auto
    ultimately show ?thesis using c' k(3) by (simp add: next_result_def kv_simps)
  qed
qed

section \<open>Range, Keys and Len\<close>

text \<open>With any server: each entry is seen, and none that is not there.\<close>

lemma redis_Range_covers:
  assumes inv: "redis_inv kc api up dbmap fit p c"
  obtains es where "\<And>f st. redis_Range kc api c f st = range_loop f es st"
    "redis_Keys kc api c = Ret (map fst es)" "redis_Len api c = Ret (int (length es))"
    "\<And>k v. (k, v) \<in> set es \<longleftrightarrow> redis_abs kc dbmap fit p c k = Some v"
    "scan_once api up \<Longrightarrow> enumerates (redis_abs kc dbmap fit p c) es"
proof -
  let ?a = "redis_abs kc dbmap fit p c" and ?m = "cut_prefix p (dbmap (rs_client c))"
  obtain bs where bs: "scan_prefix api c [] = Ret (map ((@) p) bs)" "set bs = dom ?m"
    "scan_once api up \<Longrightarrow> distinct bs"
    "\<forall>b \<in> set bs. key_unmarshal kc b = Inr (decode_key kc b)"
    "\<forall>b \<in> set bs. redis_kok kc fit p (decode_key kc b) \<and>
       key_marshal kc (decode_key kc b) = Inr b \<and> ?a (decode_key kc b) = ?m b"
    "\<forall>b \<in> set bs. rd_get api (rs_client c) (p @ b) = Inr (the (?m b))"
    "decode_key kc ` set bs = dom ?a"
    by (rule redis_scanned[OF inv, of "[]"]) (rule that)
  let ?es = "read_entries kc ?m bs"
  have p: "prefix (rs_opts c) = p" "p \<noteq> []" using redis_invD(3,4)[OF inv] .
  have fst_es: "map fst ?es = map (decode_key kc) bs"
    by (simp add: read_entries_def decode_keys_def)
  have "redis_Range kc api c f st = range_loop f ?es st" for f st
    using redis_range_loop_eq[OF p(2) bs(4) bs(6)] by (simp add: redis_Range_def bs(1) p(1))
  moreover have "redis_Keys kc api c = Ret (map fst ?es)"
    using redis_decode_keys_eq[OF p(2) bs(4), of "[]"] fst_es
    by (simp add: redis_Keys_def bs(1) p(1))
  moreover have "redis_Len api c = Ret (int (length ?es))"
    by (simp add: redis_Len_def bs(1) read_entries_def decode_keys_def)
  moreover have set_es: "(k, v) \<in> set ?es \<longleftrightarrow> ?a k = Some v" for k v
  proof
    assume "(k, v) \<in> set ?es"
    then obtain b where "b \<in> set bs" "k = decode_key kc b" "v = the (?m b)"
      by (auto simp: read_entries_def decode_keys_def)
    with bs(2,5) show "?a k = Some v" by auto
  next
    assume kv: "?a k = Some v"
    then have "k \<in> decode_key kc ` set bs" unfolding bs(7) by auto
    then obtain b where b: "b \<in> set bs" "k = decode_key kc b" by auto
    with bs(5) kv have "?m b = Some v" by auto
    with b(2) have "(k, v) = (\<lambda>b. (decode_key kc b, the (?m b))) b" by simp
    with b(1) have "(k, v) \<in> (\<lambda>b. (decode_key kc b, the (?m b))) ` set bs" by (rule image_eqI[rotated])
    then show "(k, v) \<in> set ?es" by (simp add: read_entries_def decode_keys_def image_image)
  qed
  moreover have "enumerates ?a ?es" if "scan_once api up"
  proof -
    have "inj_on (decode_key kc) (set bs)"
    proof (rule inj_onI)
      fix b b' assume "b \<in> set bs" "b' \<in> set bs" "decode_key kc b = decode_key kc b'"
      with bs(5) have "Inr b = (Inr b' :: err + bytes)" by metis
      then show "b = b'" by simp
    qed
    with bs(3)[OF that] have dist: "distinct (map fst ?es)"
      unfolding fst_es by (simp add: distinct_map)
    have "map_of ?es k = ?a k" for k
    proof (cases "?a k")
      case None
      with set_es show ?thesis by (metis map_of_SomeD not_None_eq)
    next
      case (Some v)
      with set_es dist show ?thesis by simp
    qed
    with dist show ?thesis by (simp add: enumerates_def fun_eq_iff)
  qed
  ultimately show thesis by (rule that)
qed

lemma redis_abs_ok:
  assumes "redis_inv kc api up dbmap fit p c" "redis_abs kc dbmap fit p c k = Some v"
  shows "redis_kok kc fit p k \<and> fit v"
  using assms(2) redis_invD(7)[OF assms(1)]
  by (auto simp: redis_abs_def key_map_def split: if_splits sum.splits)

lemma redis_finite:
  assumes "redis_inv kc api up dbmap fit p c"
  shows "finite (dom (redis_abs kc dbmap fit p c))"
  by (rule redis_scanned[OF assms]) (metis List.finite_set finite_imageI)

section \<open>The contract\<close>

interpretation redis: kv_core "\<lambda>_::'e. redis_ops kc api zk" "\<lambda>_. True"
  "redis_inv kc api up dbmap fit p" "redis_abs kc dbmap fit p" "redis_kok kc fit p" fit "[]"
  for kc :: "'k key_codec" and api :: "'db redis_api" and zk up dbmap fit p
proof (unfold_locales, goal_cases)
  case (1 s)
  then show ?case by (rule redis_finite)
next
  case (2 s k v)
  then show ?case by (rule redis_abs_ok)
next
  case (3 e s k)
  then show ?case by (simp add: redis_ops_def redis_Load_spec)
next
  case (4 e s k v)
  with redis_Store_spec[OF 4(2,3,4)] show ?case by (auto simp: redis_ops_def)
next
  case (5 e s ks)
  with redis_Delete_spec[OF 5(2,3)] show ?case by (auto simp: redis_ops_def)
next
  case (6 e s)
  with redis_Clear_spec[OF 6(2)] show ?case by (auto simp: redis_ops_def)
qed

interpretation redis_next: kv_next "\<lambda>_::'e. redis_ops kc api zk" "\<lambda>_. True"
  "redis_inv kc api up dbmap fit p" "redis_abs kc dbmap fit p" "redis_kok kc fit p" fit "[]" zk
  for kc :: "'k key_codec" and api :: "'db redis_api" and zk up dbmap fit p
proof (unfold_locales, goal_cases)
  case (1 e s)
  from redis_Next_spec[OF 1(2), of zk] show ?case by (auto simp: redis_ops_def)
qed

text \<open>A server that scans each key once gives the whole interface.\<close>

abbreviation redis_once ::
  "'k key_codec \<Rightarrow> 'db redis_api \<Rightarrow> ('db \<Rightarrow> bool) \<Rightarrow> ('db \<Rightarrow> string \<rightharpoonup> bytes) \<Rightarrow> (string \<Rightarrow> bool) \<Rightarrow>
    string \<Rightarrow> ('db, 't, 'm) redis \<Rightarrow> bool" where
  "redis_once kc api up dbmap fit p c \<equiv> scan_once api up \<and> redis_inv kc api up dbmap fit p c"

lemma redis_Len_spec:
  assumes "redis_once kc api up dbmap fit p c"
  shows "redis_Len api c = Ret (int (card (dom (redis_abs kc dbmap fit p c))))"
proof -
  have "redis_inv kc api up dbmap fit p c" using assms by simp
  from redis_Range_covers[OF this] assms enumerates_keys(3) show ?thesis by metis
qed

lemma redis_Range_spec:
  assumes "redis_once kc api up dbmap fit p c"
  shows "\<exists>es. enumerates (redis_abs kc dbmap fit p c) es \<and>
    (\<forall>f st. redis_Range kc api c f st = range_loop f es st)"
proof -
  have "redis_inv kc api up dbmap fit p c" using assms by simp
  from redis_Range_covers[OF this] assms show ?thesis by metis
qed

lemma redis_Keys_spec:
  assumes "redis_once kc api up dbmap fit p c"
  shows "\<exists>ks. redis_Keys kc api c = Ret ks \<and> distinct ks \<and>
    set ks = dom (redis_abs kc dbmap fit p c)"
proof -
  have "redis_inv kc api up dbmap fit p c" using assms by simp
  from redis_Range_covers[OF this] assms enumerates_keys(1,2) show ?thesis by metis
qed

interpretation redis_once: kv_store "\<lambda>_::'e. redis_ops kc api zk" "\<lambda>_. True"
  "redis_once kc api up dbmap fit p" "redis_abs kc dbmap fit p" "redis_kok kc fit p" fit "[]" zk
  for kc :: "'k key_codec" and api :: "'db redis_api" and zk up dbmap fit p
proof (unfold_locales, goal_cases)
  case (1 s)
  then have "redis_inv kc api up dbmap fit p s" by simp
  then show ?case by (rule redis_finite)
next
  case (2 s k v)
  then have "redis_inv kc api up dbmap fit p s" by simp
  then show ?case using 2(2) by (rule redis_abs_ok)
next
  case (3 e s k)
  then have "redis_inv kc api up dbmap fit p s" by simp
  from redis_Load_spec[OF this 3(3)] show ?case by (simp add: redis_ops_def)
next
  case (4 e s k v)
  then have "redis_inv kc api up dbmap fit p s" by simp
  from redis_Store_spec[OF this 4(3,4)] 4(2) show ?case by (auto simp: redis_ops_def)
next
  case (5 e s ks)
  then have "redis_inv kc api up dbmap fit p s" by simp
  from redis_Delete_spec[OF this 5(3)] 5(2) show ?case by (auto simp: redis_ops_def)
next
  case (6 e s)
  then have "redis_inv kc api up dbmap fit p s" by simp
  from redis_Clear_spec[OF this] 6(2) show ?case by (auto simp: redis_ops_def)
next
  case (7 e s)
  with redis_Range_spec[OF 7(2)] show ?case by (simp add: redis_ops_def)
next
  case (8 e s)
  with redis_Keys_spec[OF 8(2)] show ?case by (simp add: redis_ops_def)
next
  case (9 e s)
  with redis_Len_spec[OF 9(2)] show ?case by (simp add: redis_ops_def)
next
  case (10 e s)
  then have "redis_inv kc api up dbmap fit p s" by simp
  from redis_Next_spec[OF this, of zk] 10(2) show ?case by (auto simp: redis_ops_def)
qed

end
