(* ===== verification/SQLite_Opts.thy ===== *)
theory SQLite_Opts
  imports Prelude
begin

text \<open>
  The options of \<open>storage/mightymapStoreSQLite.go\<close>: defaults, functional options, and the
  connection string and SQL texts that the constructor and the methods build from them with
  \<open>fmt.Sprintf\<close>. Durations are nanoseconds.
\<close>

record sqliteOpts =
  dbPath :: string
  inMemory :: bool
  pragmas :: "(string, string) gomap"
  sq_opt_tableName :: string
  cacheCountDuration :: int
  maxOpenConns :: int
  maxIdleConns :: int
  journalMode :: string
  syncMode :: string

text \<open>Default options.\<close>

definition defaultTableName :: string where [simp]: "defaultTableName = ''mightymap_kv''"
definition defaultCacheCountDuration :: int where [simp]: "defaultCacheCountDuration = 5 * 1000000000"
definition defaultMaxOpenConns :: int where [simp]: "defaultMaxOpenConns = 10"
definition defaultMaxIdleConns :: int where [simp]: "defaultMaxIdleConns = 5"
definition defaultJournalMode :: string where [simp]: "defaultJournalMode = ''WAL''"
definition defaultSyncMode :: string where [simp]: "defaultSyncMode = ''NORMAL''"

type_synonym OptionFuncSQLite = "sqliteOpts \<Rightarrow> sqliteOpts"

definition getDefaultSQLiteOptions :: sqliteOpts where
  "getDefaultSQLiteOptions =
     \<lparr>dbPath = '''', inMemory = True, pragmas = [], sq_opt_tableName = defaultTableName,
      cacheCountDuration = defaultCacheCountDuration, maxOpenConns = defaultMaxOpenConns,
      maxIdleConns = defaultMaxIdleConns, journalMode = defaultJournalMode,
      syncMode = defaultSyncMode\<rparr>"

section \<open>Functional options\<close>

definition WithSQLiteDBPath :: "string \<Rightarrow> sqliteOpts \<Rightarrow> sqliteOpts" where
  "WithSQLiteDBPath path opts = opts\<lparr>dbPath := path, inMemory := False\<rparr>"
definition WithSQLiteInMemory :: "sqliteOpts \<Rightarrow> sqliteOpts" where
  "WithSQLiteInMemory opts = opts\<lparr>inMemory := True\<rparr>"
definition WithSQLiteTableName :: "string \<Rightarrow> sqliteOpts \<Rightarrow> sqliteOpts" where
  "WithSQLiteTableName tn opts = opts\<lparr>sq_opt_tableName := tn\<rparr>"
definition WithSQLiteJournalMode :: "string \<Rightarrow> sqliteOpts \<Rightarrow> sqliteOpts" where
  "WithSQLiteJournalMode mode opts = opts\<lparr>journalMode := mode\<rparr>"
definition WithSQLiteSyncMode :: "string \<Rightarrow> sqliteOpts \<Rightarrow> sqliteOpts" where
  "WithSQLiteSyncMode mode opts = opts\<lparr>syncMode := mode\<rparr>"
definition WithSQLiteCountCacheDuration :: "int \<Rightarrow> sqliteOpts \<Rightarrow> sqliteOpts" where
  "WithSQLiteCountCacheDuration d opts = opts\<lparr>cacheCountDuration := d\<rparr>"
definition WithSQLiteMaxOpenConns :: "int \<Rightarrow> sqliteOpts \<Rightarrow> sqliteOpts" where
  "WithSQLiteMaxOpenConns n opts = opts\<lparr>maxOpenConns := n\<rparr>"
definition WithSQLiteMaxIdleConns :: "int \<Rightarrow> sqliteOpts \<Rightarrow> sqliteOpts" where
  "WithSQLiteMaxIdleConns n opts = opts\<lparr>maxIdleConns := n\<rparr>"
definition WithSQLitePragma :: "string \<Rightarrow> string \<Rightarrow> sqliteOpts \<Rightarrow> sqliteOpts" where
  "WithSQLitePragma pragma value opts =
     opts\<lparr>pragmas := AList.update pragma value (pragmas opts)\<rparr>"

lemmas sqlite_option_defs =
  WithSQLiteDBPath_def WithSQLiteInMemory_def WithSQLiteTableName_def WithSQLiteJournalMode_def
  WithSQLiteSyncMode_def WithSQLiteCountCacheDuration_def WithSQLiteMaxOpenConns_def
  WithSQLiteMaxIdleConns_def WithSQLitePragma_def

section \<open>Texts\<close>

definition sqlite_dsn :: "sqliteOpts \<Rightarrow> string" where
  "sqlite_dsn opts =
     (if inMemory opts then '':memory:'' else dbPath opts) @ ''?_journal_mode='' @
     journalMode opts @ ''&_synchronous='' @ syncMode opts"

definition pragma_sql :: "string \<Rightarrow> string \<Rightarrow> string" where
  "pragma_sql pragma value = ''PRAGMA '' @ pragma @ '' = '' @ value"

definition nl_tabs :: "nat \<Rightarrow> string" where
  "nl_tabs n = CHR 0x0A # replicate n (CHR 0x09)"

definition create_table_sql :: "string \<Rightarrow> string" where
  "create_table_sql tn =
     nl_tabs 2 @ ''CREATE TABLE IF NOT EXISTS '' @ tn @ '' ('' @ nl_tabs 3 @
     ''key BLOB PRIMARY KEY,'' @ nl_tabs 3 @ ''value BLOB'' @ nl_tabs 2 @ '')''"

definition create_index_sql :: "string \<Rightarrow> string" where
  "create_index_sql tn =
     nl_tabs 2 @ ''CREATE INDEX IF NOT EXISTS idx_'' @ tn @ ''_key ON '' @ tn @ ''(key)'' @ nl_tabs 1"

definition load_sql :: "string \<Rightarrow> string" where
  "load_sql tn = ''SELECT value FROM '' @ tn @ '' WHERE key = ?''"
definition store_sql :: "string \<Rightarrow> string" where
  "store_sql tn = ''INSERT OR REPLACE INTO '' @ tn @ '' (key, value) VALUES (?, ?)''"
definition delete_sql :: "string \<Rightarrow> string" where
  "delete_sql tn = ''DELETE FROM '' @ tn @ '' WHERE key = ?''"
definition range_sql :: "string \<Rightarrow> string" where
  "range_sql tn = ''SELECT key, value FROM '' @ tn"
definition keys_sql :: "string \<Rightarrow> string" where
  "keys_sql tn = ''SELECT key FROM '' @ tn"
definition next_sql :: "string \<Rightarrow> string" where
  "next_sql tn = ''SELECT key, value FROM '' @ tn @ '' LIMIT 1''"
definition count_sql :: "string \<Rightarrow> string" where
  "count_sql tn = ''SELECT COUNT(*) FROM '' @ tn"
definition clear_sql :: "string \<Rightarrow> string" where
  "clear_sql tn = ''DELETE FROM '' @ tn"

text \<open>The last of several options that choose the database wins; a pragma set twice has one value.\<close>

lemma sqlite_dsn_path:
  "sqlite_dsn (WithSQLiteDBPath path opts) =
    path @ ''?_journal_mode='' @ journalMode opts @ ''&_synchronous='' @ syncMode opts"
  by (simp add: sqlite_dsn_def WithSQLiteDBPath_def)

lemma sqlite_pragmas_ok:
  "gomap_ok (pragmas opts) \<Longrightarrow> gomap_ok (pragmas (WithSQLitePragma p v opts))"
  by (simp add: WithSQLitePragma_def)

end
