(* ===== verification/SQLite_Storage.thy ===== *)
theory SQLite_Storage
  imports Key_Codec Msgpack_Adapter SQLite_Opts
begin

text \<open>
  \<open>storage/mightymapStoreSQLite.go\<close>: the byte storage over an SQL table with a cached row count.
  The driver and \<open>database/sql\<close> are the parameter \<open>api\<close>, which takes the SQL texts the code
  sends. Errors are printed and swallowed, so they are branches that go on; the printing is not
  modelled. The two mutexes are the subject of \<open>Lock_Programs\<close>; here each method runs alone.
\<close>

section \<open>The driver\<close>

datatype sql_error = NoRows | SqlErr err

text \<open>
  \<open>QueryRow\<close> with the columns of the first row, \<open>Exec\<close>, \<open>Query\<close> with the columns of each row or
  the error of scanning it, and transactions of type \<open>'tx\<close>. A transaction's statement is
  identified by its text.
\<close>

record ('db, 'tx) sqlite_api =
  sq_query_row :: "'db \<Rightarrow> string \<Rightarrow> bytes list \<Rightarrow> sql_error + bytes list"
  sq_query_int :: "'db \<Rightarrow> string \<Rightarrow> sql_error + int"
  sq_query :: "'db \<Rightarrow> string \<Rightarrow> err + (err + bytes list) list"
  sq_exec :: "'db \<Rightarrow> string \<Rightarrow> bytes list \<Rightarrow> err option \<times> 'db"
  sq_begin :: "'db \<Rightarrow> err + 'tx"
  sq_prepare :: "'tx \<Rightarrow> string \<Rightarrow> err option"
  sq_stmt_exec :: "'tx \<Rightarrow> string \<Rightarrow> bytes list \<Rightarrow> err option \<times> 'tx"
  sq_commit :: "'tx \<Rightarrow> err option \<times> 'db"
  sq_rollback :: "'tx \<Rightarrow> 'db"
  sq_close :: "'db \<Rightarrow> err option \<times> 'db"

section \<open>State and constructor\<close>

text \<open>\<open>lastCount\<close> is a time in nanoseconds, \<open>None\<close> the zero \<open>time.Time\<close>.\<close>

record 'db sqlite =
  sl_db :: 'db
  countCache :: int
  lastCount :: "int option"
  tableName :: string
  cacheDuration :: int

text \<open>
  What the constructor needs from outside: \<open>os.MkdirAll(filepath.Dir(path))\<close>, \<open>sql.Open\<close> with the
  pool's bounds, and \<open>Ping\<close>.
\<close>

record 'db sqlite_open_api =
  so_mkdir :: "string \<Rightarrow> err option"
  so_open :: "string \<Rightarrow> err + 'db"
  so_pool :: "'db \<Rightarrow> int \<Rightarrow> int \<Rightarrow> 'db"
  so_ping :: "'db \<Rightarrow> err option"

text \<open>The pragmas are set one after the other, in the order in which the map is visited.\<close>

fun set_pragmas ::
  "('db, 'tx) sqlite_api \<Rightarrow> (string \<times> string) list \<Rightarrow> 'db \<Rightarrow> 'db outcome" where
  "set_pragmas api [] db = Ret db"
| "set_pragmas api ((pragma, value) # rest) db =
     (case sq_exec api db (pragma_sql pragma value) [] of
        (Some e, db') \<Rightarrow> Panic (''failed to set PRAGMA '' @ pragma @ '': '' @ e)
      | (None, db') \<Rightarrow> set_pragmas api rest db')"

definition exec_or_panic ::
  "('db, 'tx) sqlite_api \<Rightarrow> 'db \<Rightarrow> string \<Rightarrow> string \<Rightarrow> 'db outcome" where
  "exec_or_panic api db sql msg =
     (case sq_exec api db sql [] of (Some e, db') \<Rightarrow> Panic (msg @ e) | (None, db') \<Rightarrow> Ret db')"

definition NewMightyMapSQLiteStorage ::
  "'db sqlite_open_api \<Rightarrow> ('db, 'tx) sqlite_api \<Rightarrow> (string, string) order \<Rightarrow>
    (sqliteOpts \<Rightarrow> sqliteOpts) list \<Rightarrow> 'db sqlite outcome" where
  "NewMightyMapSQLiteStorage os api ord optfuncs =
     (let opts = apply_opts optfuncs getDefaultSQLiteOptions in
      case (if inMemory opts then None else so_mkdir os (dbPath opts)) of
        Some e \<Rightarrow> Panic (''failed to create directory for SQLite database: '' @ e)
      | None \<Rightarrow>
          (case so_open os (sqlite_dsn opts) of
             Inl e \<Rightarrow> Panic (''failed to open SQLite database: '' @ e)
           | Inr db0 \<Rightarrow>
               (let db1 = so_pool os db0 (maxOpenConns opts) (maxIdleConns opts) in
                case so_ping os db1 of
                  Some e \<Rightarrow> Panic (''failed to connect to SQLite database: '' @ e)
                | None \<Rightarrow>
                    obind (set_pragmas api (ord (pragmas opts)) db1) (\<lambda>db2.
                    obind (exec_or_panic api db2 (create_table_sql (sq_opt_tableName opts))
                             ''failed to create table: '') (\<lambda>db3.
                    obind (exec_or_panic api db3 (create_index_sql (sq_opt_tableName opts))
                             ''failed to create index: '') (\<lambda>db4.
                      Ret \<lparr>sl_db = db4, countCache = -1, lastCount = None,
                           tableName = sq_opt_tableName opts,
                           cacheDuration = cacheCountDuration opts\<rparr>))))))"

section \<open>Methods\<close>

definition invalidateCountCache :: "'db sqlite \<Rightarrow> 'db sqlite" where
  "invalidateCountCache s = s\<lparr>countCache := -1, lastCount := None\<rparr>"

definition sqlite_Load ::
  "'k key_codec \<Rightarrow> ('db, 'tx) sqlite_api \<Rightarrow> 'db sqlite \<Rightarrow> 'k \<Rightarrow> (bytes \<times> bool) outcome" where
  "sqlite_Load kc api s key =
     Ret (case key_marshal kc key of
            Inl e \<Rightarrow> ([], False)
          | Inr keyBytes \<Rightarrow>
              (case sq_query_row api (sl_db s) (load_sql (tableName s)) [keyBytes] of
                 Inr [valueBytes] \<Rightarrow> (valueBytes, True)
               | _ \<Rightarrow> ([], False)))"

definition sqlite_Store ::
  "'k key_codec \<Rightarrow> ('db, 'tx) sqlite_api \<Rightarrow> 'db sqlite \<Rightarrow> 'k \<Rightarrow> bytes \<Rightarrow> 'db sqlite outcome" where
  "sqlite_Store kc api s key value =
     (case key_marshal kc key of
        Inl e \<Rightarrow> Ret s
      | Inr keyBytes \<Rightarrow>
          (let (err, db') = sq_exec api (sl_db s) (store_sql (tableName s)) [keyBytes, value]
           in Ret (invalidateCountCache (s\<lparr>sl_db := db'\<rparr>))))"

text \<open>
  The loop inside the transaction: a key that does not encode is skipped, and a failing statement
  does not stop the loop or undo the others (its \<open>err\<close> shadows the one the rollback looks at).
\<close>

fun sqlite_delete_loop ::
  "'k key_codec \<Rightarrow> ('db, 'tx) sqlite_api \<Rightarrow> string \<Rightarrow> 'k list \<Rightarrow> 'tx \<Rightarrow> 'tx" where
  "sqlite_delete_loop kc api query [] tx = tx"
| "sqlite_delete_loop kc api query (key # keys) tx =
     (case key_marshal kc key of
        Inl e \<Rightarrow> sqlite_delete_loop kc api query keys tx
      | Inr keyBytes \<Rightarrow>
          sqlite_delete_loop kc api query keys (snd (sq_stmt_exec api tx query [keyBytes])))"

definition sqlite_Delete ::
  "'k key_codec \<Rightarrow> ('db, 'tx) sqlite_api \<Rightarrow> 'db sqlite \<Rightarrow> 'k list \<Rightarrow> 'db sqlite outcome" where
  "sqlite_Delete kc api s keys =
     Ret (if keys = [] then s
          else case sq_begin api (sl_db s) of
            Inl e \<Rightarrow> s
          | Inr tx \<Rightarrow>
              (let query = delete_sql (tableName s) in
               case sq_prepare api tx query of
                 Some e \<Rightarrow> s\<lparr>sl_db := sq_rollback api tx\<rparr>
               | None \<Rightarrow>
                   (let tx' = sqlite_delete_loop kc api query keys tx;
                        (err, db') = sq_commit api tx';
                        db'' = (if err = None then db' else sq_rollback api tx')
                    in invalidateCountCache (s\<lparr>sl_db := db''\<rparr>))))"

text \<open>Rows that do not scan into the columns or whose key does not decode are skipped.\<close>

fun sqlite_range_loop ::
  "'k key_codec \<Rightarrow> ('k, bytes, 'c) callback \<Rightarrow> (err + bytes list) list \<Rightarrow> 'c \<Rightarrow> 'c outcome" where
  "sqlite_range_loop kc f [] c = Ret c"
| "sqlite_range_loop kc f (row # rows) c =
     (case row of
        Inr [keyBytes, valueBytes] \<Rightarrow>
          (case key_unmarshal kc keyBytes of
             Inl e \<Rightarrow> sqlite_range_loop kc f rows c
           | Inr key \<Rightarrow> obind (f key valueBytes c) (\<lambda>(go, c').
               if go then sqlite_range_loop kc f rows c' else Ret c'))
      | _ \<Rightarrow> sqlite_range_loop kc f rows c)"

definition sqlite_Range ::
  "'k key_codec \<Rightarrow> ('db, 'tx) sqlite_api \<Rightarrow> 'db sqlite \<Rightarrow> ('k, bytes, 'c) callback \<Rightarrow> 'c \<Rightarrow> 'c outcome"
where
  "sqlite_Range kc api s f c =
     (case sq_query api (sl_db s) (range_sql (tableName s)) of
        Inl e \<Rightarrow> Ret c
      | Inr rows \<Rightarrow> sqlite_range_loop kc f rows c)"

fun sqlite_keys_loop ::
  "'k key_codec \<Rightarrow> (err + bytes list) list \<Rightarrow> 'k list \<Rightarrow> 'k list" where
  "sqlite_keys_loop kc [] keys = keys"
| "sqlite_keys_loop kc (row # rows) keys =
     (case row of
        Inr [keyBytes] \<Rightarrow>
          (case key_unmarshal kc keyBytes of
             Inl e \<Rightarrow> sqlite_keys_loop kc rows keys
           | Inr key \<Rightarrow> sqlite_keys_loop kc rows (keys @ [key]))
      | _ \<Rightarrow> sqlite_keys_loop kc rows keys)"

definition sqlite_Keys ::
  "'k key_codec \<Rightarrow> ('db, 'tx) sqlite_api \<Rightarrow> 'db sqlite \<Rightarrow> 'k list outcome" where
  "sqlite_Keys kc api s =
     Ret (case sq_query api (sl_db s) (keys_sql (tableName s)) of
            Inl e \<Rightarrow> [] | Inr rows \<Rightarrow> sqlite_keys_loop kc rows [])"

text \<open>
  A first row whose key does not decode is left where it is, and Next returns false (the key it
  returns is the zero key, which a failing decoder of a scalar type leaves).
\<close>

definition sqlite_Next ::
  "'k key_codec \<Rightarrow> ('db, 'tx) sqlite_api \<Rightarrow> 'k \<Rightarrow> 'db sqlite \<Rightarrow>
    (('k \<times> bytes \<times> bool) \<times> 'db sqlite) outcome" where
  "sqlite_Next kc api zk s =
     Ret (case sq_query_row api (sl_db s) (next_sql (tableName s)) [] of
            Inr [keyBytes, value] \<Rightarrow>
              (case key_unmarshal kc keyBytes of
                 Inl e \<Rightarrow> ((zk, [], False), s)
               | Inr key \<Rightarrow>
                   (let (err, db') = sq_exec api (sl_db s) (delete_sql (tableName s)) [keyBytes]
                    in ((key, value, True), invalidateCountCache (s\<lparr>sl_db := db'\<rparr>))))
          | _ \<Rightarrow> ((zk, [], False), s))"

text \<open>
  \<open>clk\<close> gives the readings of the clock during one call: twice in \<open>time.Since\<close> (the check before
  and after taking the write lock) and once for \<open>time.Now\<close>.
\<close>

definition count_fresh :: "'db sqlite \<Rightarrow> int \<Rightarrow> bool" where
  "count_fresh s now =
     (case lastCount s of None \<Rightarrow> False | Some t \<Rightarrow> now - t < cacheDuration s)"

definition sqlite_Len ::
  "('db, 'tx) sqlite_api \<Rightarrow> (nat \<Rightarrow> int) \<Rightarrow> 'db sqlite \<Rightarrow> (int \<times> 'db sqlite) outcome" where
  "sqlite_Len api clk s =
     Ret (if count_fresh s (clk 0) then (countCache s, s)
          else if count_fresh s (clk 1) then (countCache s, s)
          else case sq_query_int api (sl_db s) (count_sql (tableName s)) of
            Inl e \<Rightarrow> (0, s)
          | Inr n \<Rightarrow> (n, s\<lparr>countCache := n, lastCount := Some (clk 2)\<rparr>))"

definition sqlite_Clear :: "('db, 'tx) sqlite_api \<Rightarrow> 'db sqlite \<Rightarrow> 'db sqlite outcome" where
  "sqlite_Clear api s =
     (let (err, db') = sq_exec api (sl_db s) (clear_sql (tableName s)) []
      in Ret (invalidateCountCache (s\<lparr>sl_db := db'\<rparr>)))"

definition sqlite_Close :: "('db, 'tx) sqlite_api \<Rightarrow> 'db sqlite \<Rightarrow> err option \<times> 'db sqlite" where
  "sqlite_Close api s = (let (e, db') = sq_close api (sl_db s) in (e, s\<lparr>sl_db := db'\<rparr>))"

definition sqlite_ops ::
  "'k key_codec \<Rightarrow> ('db, 'tx) sqlite_api \<Rightarrow> 'k \<Rightarrow> (nat \<Rightarrow> int) \<Rightarrow>
    ('db sqlite, 'k, bytes, 'c) storage_ops" where
  "sqlite_ops kc api zk clk =
     \<lparr>op_Load = sqlite_Load kc api, op_Store = sqlite_Store kc api,
      op_Delete = sqlite_Delete kc api, op_Range = sqlite_Range kc api,
      op_Keys = sqlite_Keys kc api, op_Next = sqlite_Next kc api zk, op_Len = sqlite_Len api clk,
      op_Clear = sqlite_Clear api, op_Close = \<lambda>s. Ret (sqlite_Close api s)\<rparr>"

end
