(* ===== verification/SQLite_Contract.thy ===== *)
theory SQLite_Contract
  imports SQLite_Storage
begin

text \<open>
  The SQLite backend keeps the whole storage interface, whatever the clock reads: the row count is
  cached, and every method that writes drops the cached count. The assumptions on the database are
  what the SQL texts say.
\<close>

section \<open>What the SQL texts do\<close>

text \<open>
  \<open>tabs db tn\<close> is the contents of the table \<open>tn\<close>, and \<open>ident\<close> tells the names that can be
  pasted into an SQL text; \<open>kfit\<close> and \<open>vfit\<close> are the bounds on the size of a BLOB.
\<close>

definition tx_ok ::
  "('db, 'tx) sqlite_api \<Rightarrow> ('db \<Rightarrow> bool) \<Rightarrow> ('db \<Rightarrow> string \<rightharpoonup> (bytes \<rightharpoonup> bytes)) \<Rightarrow>
    ('tx \<Rightarrow> string \<rightharpoonup> (bytes \<rightharpoonup> bytes)) \<Rightarrow> string \<Rightarrow> bool" where
  "tx_ok api up tabs txtabs tn \<longleftrightarrow>
     (\<forall>db. up db \<longrightarrow> (\<exists>tx. sq_begin api db = Inr tx \<and> txtabs tx = tabs db)) \<and>
     (\<forall>tx m. txtabs tx tn = Some m \<longrightarrow>
        sq_prepare api tx (delete_sql tn) = None \<and>
        (\<forall>k. txtabs (snd (sq_stmt_exec api tx (delete_sql tn) [k])) =
           (txtabs tx)(tn \<mapsto> m(k := None))) \<and>
        (\<exists>db'. sq_commit api tx = (None, db') \<and> up db' \<and> tabs db' = txtabs tx))"

definition query_ok ::
  "('db, 'tx) sqlite_api \<Rightarrow> ('db \<Rightarrow> bool) \<Rightarrow> ('db \<Rightarrow> string \<rightharpoonup> (bytes \<rightharpoonup> bytes)) \<Rightarrow> string \<Rightarrow> bool"
where
  "query_ok api up tabs tn \<longleftrightarrow>
     (\<forall>db m. up db \<and> tabs db tn = Some m \<longrightarrow>
        (\<forall>k. sq_query_row api db (load_sql tn) [k] =
           (case m k of None \<Rightarrow> Inl NoRows | Some v \<Rightarrow> Inr [v])) \<and>
        (\<exists>es. enumerates m es \<and>
           sq_query api db (range_sql tn) = Inr (map (\<lambda>(k, v). Inr [k, v]) es)) \<and>
        (if m = Map.empty then sq_query_row api db (next_sql tn) [] = Inl NoRows
         else \<exists>k v. m k = Some v \<and> sq_query_row api db (next_sql tn) [] = Inr [k, v]) \<and>
        (\<exists>es. enumerates m es \<and>
           sq_query api db (keys_sql tn) = Inr (map (\<lambda>(k, v). Inr [k]) es)) \<and>
        sq_query_int api db (count_sql tn) = Inr (int (card (dom m))))"

definition exec_ok ::
  "('db, 'tx) sqlite_api \<Rightarrow> ('db \<Rightarrow> bool) \<Rightarrow> ('db \<Rightarrow> string \<rightharpoonup> (bytes \<rightharpoonup> bytes)) \<Rightarrow>
    (bytes \<Rightarrow> bool) \<Rightarrow> (bytes \<Rightarrow> bool) \<Rightarrow> string \<Rightarrow> bool" where
  "exec_ok api up tabs kfit vfit tn \<longleftrightarrow>
     (\<forall>db m. up db \<and> tabs db tn = Some m \<longrightarrow>
        (\<forall>k v. kfit k \<and> vfit v \<longrightarrow> (\<exists>db'. sq_exec api db (store_sql tn) [k, v] = (None, db') \<and>
           up db' \<and> tabs db' = (tabs db)(tn \<mapsto> m(k \<mapsto> v)))) \<and>
        (\<forall>k. \<exists>db'. sq_exec api db (delete_sql tn) [k] = (None, db') \<and>
           up db' \<and> tabs db' = (tabs db)(tn \<mapsto> m(k := None))) \<and>
        (\<exists>db'. sq_exec api db (clear_sql tn) [] = (None, db') \<and>
           up db' \<and> tabs db' = (tabs db)(tn \<mapsto> Map.empty)))"

definition sqlite_ok ::
  "('db, 'tx) sqlite_api \<Rightarrow> ('db \<Rightarrow> bool) \<Rightarrow> ('db \<Rightarrow> string \<rightharpoonup> (bytes \<rightharpoonup> bytes)) \<Rightarrow>
    ('tx \<Rightarrow> string \<rightharpoonup> (bytes \<rightharpoonup> bytes)) \<Rightarrow> (string \<Rightarrow> bool) \<Rightarrow> (bytes \<Rightarrow> bool) \<Rightarrow> (bytes \<Rightarrow> bool) \<Rightarrow> bool"
where
  "sqlite_ok api up tabs txtabs ident kfit vfit \<longleftrightarrow>
     (\<forall>tn. ident tn \<longrightarrow>
        tx_ok api up tabs txtabs tn \<and> query_ok api up tabs tn \<and> exec_ok api up tabs kfit vfit tn)"

lemma tx_okD:
  assumes "tx_ok api up tabs txtabs tn"
  shows "up db \<Longrightarrow> \<exists>tx. sq_begin api db = Inr tx \<and> txtabs tx = tabs db"
    and "txtabs tx tn = Some m \<Longrightarrow> sq_prepare api tx (delete_sql tn) = None"
    and "txtabs tx tn = Some m \<Longrightarrow>
      txtabs (snd (sq_stmt_exec api tx (delete_sql tn) [k])) = (txtabs tx)(tn \<mapsto> m(k := None))"
    and "txtabs tx tn = Some m \<Longrightarrow>
      \<exists>db'. sq_commit api tx = (None, db') \<and> up db' \<and> tabs db' = txtabs tx"
  using assms unfolding tx_ok_def by blast+

lemma query_okD:
  assumes "query_ok api up tabs tn" "up db" "tabs db tn = Some m"
  shows "sq_query_row api db (load_sql tn) [k] =
      (case m k of None \<Rightarrow> Inl NoRows | Some v \<Rightarrow> Inr [v])"
    and "\<exists>es. enumerates m es \<and>
      sq_query api db (range_sql tn) = Inr (map (\<lambda>(k, v). Inr [k, v]) es)"
    and "if m = Map.empty then sq_query_row api db (next_sql tn) [] = Inl NoRows
      else \<exists>k v. m k = Some v \<and> sq_query_row api db (next_sql tn) [] = Inr [k, v]"
    and "\<exists>es. enumerates m es \<and> sq_query api db (keys_sql tn) = Inr (map (\<lambda>(k, v). Inr [k]) es)"
    and "sq_query_int api db (count_sql tn) = Inr (int (card (dom m)))"
proof -
  note d = assms(1)[unfolded query_ok_def, THEN spec, THEN spec, THEN mp, OF conjI, OF assms(2,3)]
  show "sq_query_row api db (load_sql tn) [k] =
      (case m k of None \<Rightarrow> Inl NoRows | Some v \<Rightarrow> Inr [v])"
    by (rule d[THEN conjunct1, THEN spec])
  note d = d[THEN conjunct2]
  show "\<exists>es. enumerates m es \<and>
      sq_query api db (range_sql tn) = Inr (map (\<lambda>(k, v). Inr [k, v]) es)"
    by (rule d[THEN conjunct1])
  note d = d[THEN conjunct2]
  show "if m = Map.empty then sq_query_row api db (next_sql tn) [] = Inl NoRows
      else \<exists>k v. m k = Some v \<and> sq_query_row api db (next_sql tn) [] = Inr [k, v]"
    by (rule d[THEN conjunct1])
  note d = d[THEN conjunct2]
  show "\<exists>es. enumerates m es \<and> sq_query api db (keys_sql tn) = Inr (map (\<lambda>(k, v). Inr [k]) es)"
    by (rule d[THEN conjunct1])
  show "sq_query_int api db (count_sql tn) = Inr (int (card (dom m)))"
    by (rule d[THEN conjunct2])
qed

lemma exec_okD:
  assumes "exec_ok api up tabs kfit vfit tn" "up db" "tabs db tn = Some m"
  shows "kfit k \<Longrightarrow> vfit v \<Longrightarrow> \<exists>db'. sq_exec api db (store_sql tn) [k, v] = (None, db') \<and>
      up db' \<and> tabs db' = (tabs db)(tn \<mapsto> m(k \<mapsto> v))"
    and "\<exists>db'. sq_exec api db (delete_sql tn) [k] = (None, db') \<and>
      up db' \<and> tabs db' = (tabs db)(tn \<mapsto> m(k := None))"
    and "\<exists>db'. sq_exec api db (clear_sql tn) [] = (None, db') \<and>
      up db' \<and> tabs db' = (tabs db)(tn \<mapsto> Map.empty)"
proof -
  note d = assms(1)[unfolded exec_ok_def, THEN spec, THEN spec, THEN mp, OF conjI, OF assms(2,3)]
  show "kfit k \<Longrightarrow> vfit v \<Longrightarrow> \<exists>db'. sq_exec api db (store_sql tn) [k, v] = (None, db') \<and>
      up db' \<and> tabs db' = (tabs db)(tn \<mapsto> m(k \<mapsto> v))"
    using d[THEN conjunct1] by blast
  note d = d[THEN conjunct2]
  show "\<exists>db'. sq_exec api db (delete_sql tn) [k] = (None, db') \<and>
      up db' \<and> tabs db' = (tabs db)(tn \<mapsto> m(k := None))"
    by (rule d[THEN conjunct1, THEN spec])
  show "\<exists>db'. sq_exec api db (clear_sql tn) [] = (None, db') \<and>
      up db' \<and> tabs db' = (tabs db)(tn \<mapsto> Map.empty)"
    by (rule d[THEN conjunct2])
qed

section \<open>Invariant\<close>

definition sqlite_table :: "('db \<Rightarrow> string \<rightharpoonup> (bytes \<rightharpoonup> bytes)) \<Rightarrow> 'db sqlite \<Rightarrow> bytes \<rightharpoonup> bytes" where
  "sqlite_table tabs s = (case tabs (sl_db s) (tableName s) of None \<Rightarrow> Map.empty | Some m \<Rightarrow> m)"

definition sqlite_abs ::
  "'k key_codec \<Rightarrow> ('db \<Rightarrow> string \<rightharpoonup> (bytes \<rightharpoonup> bytes)) \<Rightarrow> (bytes \<Rightarrow> bool) \<Rightarrow> 'db sqlite \<Rightarrow> 'k \<rightharpoonup> bytes"
where
  "sqlite_abs kc tabs kfit s = key_map kc kfit (sqlite_table tabs s)"

text \<open>A cached count is the number of rows, as long as it has a time at all.\<close>

definition sqlite_inv ::
  "'k key_codec \<Rightarrow> ('db, 'tx) sqlite_api \<Rightarrow> ('db \<Rightarrow> bool) \<Rightarrow> ('db \<Rightarrow> string \<rightharpoonup> (bytes \<rightharpoonup> bytes)) \<Rightarrow>
    ('tx \<Rightarrow> string \<rightharpoonup> (bytes \<rightharpoonup> bytes)) \<Rightarrow> (string \<Rightarrow> bool) \<Rightarrow> (bytes \<Rightarrow> bool) \<Rightarrow> (bytes \<Rightarrow> bool) \<Rightarrow>
    'db sqlite \<Rightarrow> bool" where
  "sqlite_inv kc api up tabs txtabs ident kfit vfit s \<longleftrightarrow>
     sqlite_ok api up tabs txtabs ident kfit vfit \<and> ident (tableName s) \<and> up (sl_db s) \<and>
     tabs (sl_db s) (tableName s) \<noteq> None \<and>
     keys_decode kc kfit (sqlite_table tabs s) \<and> (\<forall>v \<in> ran (sqlite_table tabs s). vfit v) \<and>
     (lastCount s \<noteq> None \<longrightarrow> countCache s = int (card (dom (sqlite_table tabs s))))"

lemma sqlite_invD:
  assumes "sqlite_inv kc api up tabs txtabs ident kfit vfit s"
  shows "tx_ok api up tabs txtabs (tableName s)" "query_ok api up tabs (tableName s)"
    "exec_ok api up tabs kfit vfit (tableName s)" "up (sl_db s)"
    "tabs (sl_db s) (tableName s) = Some (sqlite_table tabs s)"
    "keys_decode kc kfit (sqlite_table tabs s)"
    "sqlite_table tabs s b = Some v \<Longrightarrow> vfit v"
    "lastCount s \<noteq> None \<Longrightarrow> countCache s = int (card (dom (sqlite_table tabs s)))"
  using assms unfolding sqlite_inv_def sqlite_ok_def
  by (blast, blast, blast, blast, force simp: sqlite_table_def, blast, metis ranI, blast)

text \<open>
  A write: the table has new contents, all of whose keys decode and whose values fit, other
  tables are as before, and the count cache is dropped.
\<close>

lemma sqlite_written:
  assumes inv: "sqlite_inv kc api up tabs txtabs ident kfit vfit s" and "up db'"
    and t: "tabs db' = (tabs (sl_db s))(tableName s \<mapsto> m)"
    and "keys_decode kc kfit m" "\<And>b v. m b = Some v \<Longrightarrow> vfit v"
  shows "sqlite_inv kc api up tabs txtabs ident kfit vfit (invalidateCountCache (s\<lparr>sl_db := db'\<rparr>))"
    and "sqlite_abs kc tabs kfit (invalidateCountCache (s\<lparr>sl_db := db'\<rparr>)) = key_map kc kfit m"
proof -
  let ?s = "invalidateCountCache (s\<lparr>sl_db := db'\<rparr>)"
  have m: "sqlite_table tabs ?s = m" by (simp add: sqlite_table_def invalidateCountCache_def t)
  show "sqlite_inv kc api up tabs txtabs ident kfit vfit ?s"
    using assms unfolding sqlite_inv_def m by (auto simp: invalidateCountCache_def ran_def)
  show "sqlite_abs kc tabs kfit ?s = key_map kc kfit m" by (simp add: sqlite_abs_def m)
qed

text \<open>The write of one entry.\<close>

lemma sqlite_written_key:
  assumes inv: "sqlite_inv kc api up tabs txtabs ident kfit vfit s" and "up db'"
    and "tabs db' = (tabs (sl_db s))(tableName s \<mapsto> (sqlite_table tabs s)(b := x))"
    and k: "key_ok kc kfit k" "key_marshal kc k = Inr b" and "\<And>v. x = Some v \<Longrightarrow> vfit v"
  shows "sqlite_inv kc api up tabs txtabs ident kfit vfit (invalidateCountCache (s\<lparr>sl_db := db'\<rparr>))"
    and "sqlite_abs kc tabs kfit (invalidateCountCache (s\<lparr>sl_db := db'\<rparr>)) =
      (sqlite_abs kc tabs kfit s)(k := x)"
proof -
  let ?m = "(sqlite_table tabs s)(b := x)"
  have kd: "keys_decode kc kfit ?m" by (rule keys_decode_upd[OF sqlite_invD(6)[OF inv] k])
  have vf: "\<And>b' v. ?m b' = Some v \<Longrightarrow> vfit v"
    using sqlite_invD(7)[OF inv] assms(6) by (auto split: if_splits)
  show "sqlite_inv kc api up tabs txtabs ident kfit vfit (invalidateCountCache (s\<lparr>sl_db := db'\<rparr>))"
    by (rule sqlite_written(1)[OF inv assms(2,3) kd vf])
  show "sqlite_abs kc tabs kfit (invalidateCountCache (s\<lparr>sl_db := db'\<rparr>)) =
      (sqlite_abs kc tabs kfit s)(k := x)"
    using sqlite_written(2)[OF inv assms(2,3) kd vf] key_map_upd[OF k]
    by (simp add: sqlite_abs_def)
qed

section \<open>The operations\<close>

lemma sqlite_Load_spec:
  assumes inv: "sqlite_inv kc api up tabs txtabs ident kfit vfit s" and k: "key_ok kc kfit k"
  shows "sqlite_Load kc api s k = Ret (lookup_result [] (sqlite_abs kc tabs kfit s) k)"
proof -
  note d = sqlite_invD[OF inv]
  obtain b where b: "key_marshal kc k = Inr b" using k by (rule key_okE)
  have "sqlite_abs kc tabs kfit s k = sqlite_table tabs s b"
    using key_map_apply[OF k b] by (simp add: sqlite_abs_def)
  with b query_okD(1)[OF d(2,4,5), of b] show ?thesis
    by (auto simp: sqlite_Load_def lookup_result_def split: option.splits)
qed

lemma sqlite_Store_spec:
  assumes inv: "sqlite_inv kc api up tabs txtabs ident kfit vfit s" and k: "key_ok kc kfit k"
    and v: "vfit v"
  shows "\<exists>s'. sqlite_Store kc api s k v = Ret s' \<and>
    sqlite_inv kc api up tabs txtabs ident kfit vfit s' \<and>
    sqlite_abs kc tabs kfit s' = (sqlite_abs kc tabs kfit s)(k \<mapsto> v)"
proof -
  note d = sqlite_invD[OF inv]
  obtain b where b: "key_marshal kc k = Inr b" "kfit b" using k by (rule key_okE)
  obtain db' where db': "sq_exec api (sl_db s) (store_sql (tableName s)) [b, v] = (None, db')"
    "up db'" "tabs db' = (tabs (sl_db s))(tableName s \<mapsto> (sqlite_table tabs s)(b \<mapsto> v))"
    using exec_okD(1)[OF d(3,4,5) b(2) v] by blast
  with b(1) v sqlite_written_key[OF inv db'(2,3) k b(1)] show ?thesis
    by (auto simp: sqlite_Store_def)
qed

text \<open>The statements of a transaction remove the keys from its view of the table.\<close>

lemma sqlite_delete_loop_spec:
  assumes tx: "tx_ok api up tabs txtabs tn" and "txtabs t0 tn = Some m"
    and "\<forall>k \<in> set ks. key_ok kc kfit k" "keys_decode kc kfit m"
  shows "\<exists>m'. txtabs (sqlite_delete_loop kc api (delete_sql tn) ks t0) = (txtabs t0)(tn \<mapsto> m') \<and>
    keys_decode kc kfit m' \<and> m' \<subseteq>\<^sub>m m \<and> key_map kc kfit m' = key_map kc kfit m |` (- set ks)"
  using assms(2-)
proof (induction ks arbitrary: t0 m)
  case Nil
  then have "txtabs t0 = (txtabs t0)(tn \<mapsto> m)" by auto
  with Nil(3) show ?case
    by (intro exI[of _ m] conjI) (simp_all only: sqlite_delete_loop.simps, simp_all)
next
  case (Cons k ks)
  have k: "key_ok kc kfit k" using Cons.prems(2) by simp
  then obtain b where b: "key_marshal kc k = Inr b" by (rule key_okE)
  let ?t = "snd (sq_stmt_exec api t0 (delete_sql tn) [b])"
  have t: "txtabs ?t = (txtabs t0)(tn \<mapsto> m(b := None))" by (rule tx_okD(3)[OF tx Cons.prems(1)])
  have kd: "keys_decode kc kfit (m(b := None))" by (rule keys_decode_upd[OF Cons.prems(3) k b])
  have "txtabs ?t tn = Some (m(b := None))" using t by simp
  have ks: "\<forall>k \<in> set ks. key_ok kc kfit k" using Cons.prems(2) by simp
  obtain m' where
    m': "txtabs (sqlite_delete_loop kc api (delete_sql tn) ks ?t) = (txtabs ?t)(tn \<mapsto> m')"
      "keys_decode kc kfit m'" "m' \<subseteq>\<^sub>m m(b := None)"
      "key_map kc kfit m' = key_map kc kfit (m(b := None)) |` (- set ks)"
    using Cons.IH[OF \<open>txtabs ?t tn = Some (m(b := None))\<close> ks kd] by blast
  have "txtabs (sqlite_delete_loop kc api (delete_sql tn) (k # ks) t0) = (txtabs t0)(tn \<mapsto> m')"
    using m'(1) t b by simp
  moreover have "key_map kc kfit m' = key_map kc kfit m |` (- set (k # ks))"
    unfolding m'(4) key_map_upd[OF k b] restrict_Cons ..
  moreover have "m' \<subseteq>\<^sub>m m" by (rule map_le_trans[OF m'(3) upd_None_map_le])
  ultimately show ?case using m'(2) by blast
qed

lemma sqlite_Delete_spec:
  assumes inv: "sqlite_inv kc api up tabs txtabs ident kfit vfit s"
    and ks: "\<forall>k \<in> set ks. key_ok kc kfit k"
  shows "\<exists>s'. sqlite_Delete kc api s ks = Ret s' \<and>
    sqlite_inv kc api up tabs txtabs ident kfit vfit s' \<and>
    sqlite_abs kc tabs kfit s' = sqlite_abs kc tabs kfit s |` (- set ks)"
proof (cases "ks = []")
  case True
  with inv show ?thesis by (simp add: sqlite_Delete_def)
next
  case False
  note d = sqlite_invD[OF inv]
  obtain tx where tx: "sq_begin api (sl_db s) = Inr tx" "txtabs tx = tabs (sl_db s)"
    using tx_okD(1)[OF d(1,4)] by blast
  then have t0: "txtabs tx (tableName s) = Some (sqlite_table tabs s)" using d(5) by simp
  let ?tx = "sqlite_delete_loop kc api (delete_sql (tableName s)) ks tx"
  obtain m' where m': "txtabs ?tx = (tabs (sl_db s))(tableName s \<mapsto> m')" "keys_decode kc kfit m'"
    "m' \<subseteq>\<^sub>m sqlite_table tabs s"
    "key_map kc kfit m' = key_map kc kfit (sqlite_table tabs s) |` (- set ks)"
    using sqlite_delete_loop_spec[OF d(1) t0 ks d(6)] tx(2) by auto
  obtain db' where db': "sq_commit api ?tx = (None, db')" "up db'" "tabs db' = txtabs ?tx"
    using tx_okD(4)[OF d(1), of ?tx m'] m'(1) by auto
  have t: "tabs db' = (tabs (sl_db s))(tableName s \<mapsto> m')" using db'(3) m'(1) by simp
  have vf: "vfit v" if "m' b = Some v" for b v
  proof -
    from that m'(3) have "sqlite_table tabs s b = Some v" by (metis domI map_le_def)
    then show ?thesis by (rule d(7))
  qed
  have "sqlite_Delete kc api s ks = Ret (invalidateCountCache (s\<lparr>sl_db := db'\<rparr>))"
    using False tx(1) tx_okD(2)[OF d(1) t0] db'(1) by (simp add: sqlite_Delete_def Let_def)
  with sqlite_written[OF inv db'(2) t m'(2) vf] m'(4) show ?thesis by (simp add: sqlite_abs_def)
qed

lemma sqlite_Clear_spec:
  assumes inv: "sqlite_inv kc api up tabs txtabs ident kfit vfit s"
  shows "\<exists>s'. sqlite_Clear api s = Ret s' \<and>
    sqlite_inv kc api up tabs txtabs ident kfit vfit s' \<and> sqlite_abs kc tabs kfit s' = Map.empty"
proof -
  note d = sqlite_invD[OF inv]
  obtain db' where db': "sq_exec api (sl_db s) (clear_sql (tableName s)) [] = (None, db')" "up db'"
    "tabs db' = (tabs (sl_db s))(tableName s \<mapsto> Map.empty)"
    using exec_okD(3)[OF d(3,4,5)] by blast
  from sqlite_written[OF inv db'(2,3) keys_decode_empty] db'(1) show ?thesis
    by (simp add: sqlite_Clear_def)
qed

lemma sqlite_Next_spec:
  assumes inv: "sqlite_inv kc api up tabs txtabs ident kfit vfit s"
  shows "\<exists>r s'. sqlite_Next kc api zk s = Ret (r, s') \<and>
    sqlite_inv kc api up tabs txtabs ident kfit vfit s' \<and>
    next_result zk [] (sqlite_abs kc tabs kfit s) r (sqlite_abs kc tabs kfit s')"
proof -
  note d = sqlite_invD[OF inv]
  note row = query_okD(3)[OF d(2,4,5)]
  show ?thesis
  proof (cases "sqlite_table tabs s = Map.empty")
    case True
    then have "sqlite_abs kc tabs kfit s = Map.empty" by (simp add: sqlite_abs_def)
    with True row inv show ?thesis by (simp add: sqlite_Next_def next_result_def)
  next
    case False
    with row obtain b v where b: "sqlite_table tabs s b = Some v"
      "sq_query_row api (sl_db s) (next_sql (tableName s)) [] = Inr [b, v]" by auto
    obtain k where k: "key_ok kc kfit k" "key_marshal kc k = Inr b" "key_unmarshal kc b = Inr k"
      "sqlite_abs kc tabs kfit s k = Some v"
      unfolding sqlite_abs_def by (rule keys_decodeE[OF d(6) b(1)])
    obtain db' where db': "sq_exec api (sl_db s) (delete_sql (tableName s)) [b] = (None, db')"
      "up db'" "tabs db' = (tabs (sl_db s))(tableName s \<mapsto> (sqlite_table tabs s)(b := None))"
      using exec_okD(2)[OF d(3,4,5)] by blast
    let ?s = "invalidateCountCache (s\<lparr>sl_db := db'\<rparr>)"
    have s': "sqlite_inv kc api up tabs txtabs ident kfit vfit ?s"
      "sqlite_abs kc tabs kfit ?s = (sqlite_abs kc tabs kfit s)(k := None)"
      using sqlite_written_key[OF inv db'(2,3) k(1,2)] by (metis option.distinct(1))+
    have "sqlite_Next kc api zk s = Ret ((k, v, True), ?s)"
      using b(2) k(3) db'(1) by (simp add: sqlite_Next_def)
    moreover have "sqlite_abs kc tabs kfit s \<noteq> Map.empty" using k(4) by auto
    ultimately show ?thesis using s' k(4) by (simp add: next_result_def)
  qed
qed

lemma sqlite_range_loop_eq:
  assumes "\<forall>(b, v) \<in> set es. key_unmarshal kc b = Inr (decode_key kc b)"
  shows "sqlite_range_loop kc f (map (\<lambda>(k, v). Inr [k, v]) es) st =
    range_loop f (decode_keys kc es) st"
  using assms
proof (induction es arbitrary: st)
  case Nil
  then show ?case by (simp add: decode_keys_def)
next
  case (Cons x es)
  obtain b v where "x = (b, v)" by force
  with Cons show ?case
    by (cases "f (decode_key kc b) v st") (auto simp: decode_keys_def)
qed

lemma sqlite_keys_loop_eq:
  assumes "\<forall>(b, v) \<in> set es. key_unmarshal kc b = Inr (decode_key kc b)"
  shows "sqlite_keys_loop kc (map (\<lambda>(k, v). Inr [k]) es) ks = ks @ map fst (decode_keys kc es)"
  using assms by (induction es arbitrary: ks) (auto simp: decode_keys_def)

lemma enumerated_keys_decode:
  assumes "keys_decode kc fit m" "enumerates m es"
  shows "\<forall>(b, v) \<in> set es. key_unmarshal kc b = Inr (decode_key kc b)"
proof safe
  fix b v assume "(b, v) \<in> set es"
  then have "m b = Some v" using enumerates_set[OF assms(2)] by simp
  from keys_decodeE[OF assms(1) this] show "key_unmarshal kc b = Inr (decode_key kc b)" by metis
qed

lemma sqlite_Range_spec:
  assumes inv: "sqlite_inv kc api up tabs txtabs ident kfit vfit s"
  shows "\<exists>es. enumerates (sqlite_abs kc tabs kfit s) es \<and>
    (\<forall>f c. sqlite_Range kc api s f c = range_loop f es c)"
proof -
  note d = sqlite_invD[OF inv]
  obtain es where es: "enumerates (sqlite_table tabs s) es"
    "sq_query api (sl_db s) (range_sql (tableName s)) = Inr (map (\<lambda>(k, v). Inr [k, v]) es)"
    using query_okD(2)[OF d(2,4,5)] by blast
  have "enumerates (sqlite_abs kc tabs kfit s) (decode_keys kc es)"
    unfolding sqlite_abs_def by (rule decode_keys_enumerates[OF d(6) es(1)])
  moreover have "sqlite_Range kc api s f c = range_loop f (decode_keys kc es) c" for f c
    by (simp add: sqlite_Range_def es(2) sqlite_range_loop_eq[OF enumerated_keys_decode[OF d(6) es(1)]])
  ultimately show ?thesis by blast
qed

lemma sqlite_Keys_spec:
  assumes inv: "sqlite_inv kc api up tabs txtabs ident kfit vfit s"
  shows "\<exists>ks. sqlite_Keys kc api s = Ret ks \<and> distinct ks \<and>
    set ks = dom (sqlite_abs kc tabs kfit s)"
proof -
  note d = sqlite_invD[OF inv]
  obtain es where es: "enumerates (sqlite_table tabs s) es"
    "sq_query api (sl_db s) (keys_sql (tableName s)) = Inr (map (\<lambda>(k, v). Inr [k]) es)"
    using query_okD(4)[OF d(2,4,5)] by blast
  have "enumerates (sqlite_abs kc tabs kfit s) (decode_keys kc es)"
    unfolding sqlite_abs_def by (rule decode_keys_enumerates[OF d(6) es(1)])
  moreover have "sqlite_Keys kc api s = Ret (map fst (decode_keys kc es))"
    by (simp add: sqlite_Keys_def es(2) sqlite_keys_loop_eq[OF enumerated_keys_decode[OF d(6) es(1)]])
  ultimately show ?thesis using enumerates_keys(1,2) by blast
qed

text \<open>The number of rows is the number of keys, and Len returns it whatever the clock reads.\<close>

lemma sqlite_rows:
  assumes inv: "sqlite_inv kc api up tabs txtabs ident kfit vfit s"
  shows "card (dom (sqlite_abs kc tabs kfit s)) = card (dom (sqlite_table tabs s))"
    and "finite (dom (sqlite_abs kc tabs kfit s))"
proof -
  note d = sqlite_invD[OF inv]
  obtain es where es: "enumerates (sqlite_table tabs s) es"
    using query_okD(2)[OF d(2,4,5)] by blast
  show "card (dom (sqlite_abs kc tabs kfit s)) = card (dom (sqlite_table tabs s))"
    using key_map_dom_card[OF d(6) es] enumerates_keys(3)[OF es] by (simp add: sqlite_abs_def)
  have "finite (dom (sqlite_table tabs s))" using enumerates_keys(2)[OF es] by (metis List.finite_set)
  then show "finite (dom (sqlite_abs kc tabs kfit s))"
    unfolding sqlite_abs_def by (rule key_map_finite[OF d(6)])
qed

lemma sqlite_Len_spec:
  assumes inv: "sqlite_inv kc api up tabs txtabs ident kfit vfit s"
  shows "\<exists>s'. sqlite_Len api clk s = Ret (int (card (dom (sqlite_abs kc tabs kfit s))), s') \<and>
    sqlite_inv kc api up tabs txtabs ident kfit vfit s' \<and>
    sqlite_abs kc tabs kfit s' = sqlite_abs kc tabs kfit s"
proof -
  note d = sqlite_invD[OF inv]
  have fresh: "countCache s = int (card (dom (sqlite_abs kc tabs kfit s)))" if "count_fresh s now" for now
    using that d(8) sqlite_rows(1)[OF inv] by (auto simp: count_fresh_def split: option.splits)
  let ?s = "s\<lparr>countCache := int (card (dom (sqlite_table tabs s))), lastCount := Some (clk 2)\<rparr>"
  have t: "sqlite_table tabs ?s = sqlite_table tabs s" by (simp add: sqlite_table_def)
  have "sqlite_inv kc api up tabs txtabs ident kfit vfit ?s"
    using inv unfolding sqlite_inv_def t by simp
  moreover have "sqlite_abs kc tabs kfit ?s = sqlite_abs kc tabs kfit s" by (simp add: sqlite_abs_def t)
  ultimately show ?thesis
    using inv fresh query_okD(5)[OF d(2,4,5)] sqlite_rows(1)[OF inv]
    by (simp add: sqlite_Len_def)
qed

lemma sqlite_abs_ok:
  assumes "sqlite_inv kc api up tabs txtabs ident kfit vfit s" "sqlite_abs kc tabs kfit s k = Some v"
  shows "key_ok kc kfit k \<and> vfit v"
  using assms(2) sqlite_invD(7)[OF assms(1)]
  by (auto simp: sqlite_abs_def key_map_def split: if_splits sum.splits)

section \<open>The contract\<close>

text \<open>The environment's choice for a call is the readings of the clock, and any will do.\<close>

interpretation sqlite: kv_store "sqlite_ops kc api zk" "\<lambda>_. True"
  "sqlite_inv kc api up tabs txtabs ident kfit vfit" "sqlite_abs kc tabs kfit" "key_ok kc kfit" vfit
  "[]" zk
  for kc :: "'k key_codec" and api :: "('db, 'tx) sqlite_api" and zk up tabs txtabs ident kfit vfit
proof (unfold_locales, goal_cases)
  case (1 s)
  then show ?case by (rule sqlite_rows(2))
next
  case (2 s k v)
  then show ?case by (rule sqlite_abs_ok)
next
  case (3 e s k)
  then show ?case by (simp add: sqlite_ops_def sqlite_Load_spec)
next
  case (4 e s k v)
  then show ?case by (simp add: sqlite_ops_def sqlite_Store_spec)
next
  case (5 e s ks)
  then show ?case by (simp add: sqlite_ops_def sqlite_Delete_spec)
next
  case (6 e s)
  then show ?case by (simp add: sqlite_ops_def sqlite_Clear_spec)
next
  case (7 e s)
  then show ?case by (simp add: sqlite_ops_def sqlite_Range_spec)
next
  case (8 e s)
  then show ?case by (simp add: sqlite_ops_def sqlite_Keys_spec)
next
  case (9 e s)
  then show ?case by (simp add: sqlite_ops_def sqlite_Len_spec)
next
  case (10 e s)
  from sqlite_Next_spec[OF 10(2), of zk] show ?case unfolding sqlite_ops_def storage_ops.simps .
qed

end
