(* ===== verification/Direct_Storage.thy ===== *)
theory Direct_Storage
  imports Storage_Interface
begin

text \<open>
  The in-memory backends of \<open>storage/mightymapStore.go\<close>: \<open>mightyMapDirectStorage\<close>, which
  holds values as they are, and \<open>mightyMapDefaultStorage\<close>, which holds encoded values. Each
  keeps a Go map behind an \<open>RWMutex\<close>; a method takes the lock, runs, and releases it, so one
  method is one step here (how methods of several goroutines interleave is the subject of
  \<open>Lock_Programs\<close> and \<open>Interleaving\<close>). \<open>Next\<close> finds out whether \<open>Range\<close> has shown it an entry
  by comparing the key with K's zero value; what this does to an entry stored under the zero key
  is proved here.
\<close>

section \<open>Values as they are: mightyMapDirectStorage\<close>

record ('k, 'v) direct =
  direct_data :: "('k, 'v) gomap"

definition NewMightyMapDefaultStorage :: "('k, 'v) direct" where
  "NewMightyMapDefaultStorage = \<lparr>direct_data = []\<rparr>"

definition direct_Load :: "'v \<Rightarrow> ('k, 'v) direct \<Rightarrow> 'k \<Rightarrow> 'v \<times> bool" where
  "direct_Load zv c key = go_index_map zv (direct_data c) key"

definition direct_Store :: "('k, 'v) direct \<Rightarrow> 'k \<Rightarrow> 'v \<Rightarrow> ('k, 'v) direct" where
  "direct_Store c key value = c\<lparr>direct_data := AList.update key value (direct_data c)\<rparr>"

definition direct_Delete :: "('k, 'v) direct \<Rightarrow> 'k list \<Rightarrow> ('k, 'v) direct" where
  "direct_Delete c keys = c\<lparr>direct_data := delete_all keys (direct_data c)\<rparr>"

definition direct_Range ::
  "('k, 'v) order \<Rightarrow> ('k, 'v) direct \<Rightarrow> ('k, 'v, 'c) callback \<Rightarrow> 'c \<Rightarrow> 'c outcome" where
  "direct_Range ord c f s = range_loop f (ord (direct_data c)) s"

definition direct_Keys :: "('k, 'v) order \<Rightarrow> ('k, 'v) direct \<Rightarrow> 'k list" where
  "direct_Keys ord c = map fst (ord (direct_data c))"

definition direct_Len :: "('k, 'v) direct \<Rightarrow> int" where
  "direct_Len c = int (length (direct_data c))"

definition direct_Clear :: "('k, 'v) direct \<Rightarrow> ('k, 'v) direct" where
  "direct_Clear c = c\<lparr>direct_data := []\<rparr>"

text \<open>\<open>zk\<close> is \<open>*new(K)\<close> and \<open>zv\<close> the zero value of V.\<close>

definition direct_Next ::
  "'k \<Rightarrow> 'v \<Rightarrow> ('k, 'v) order \<Rightarrow> ('k, 'v) direct \<Rightarrow> (('k \<times> 'v \<times> bool) \<times> ('k, 'v) direct) outcome" where
  "direct_Next zk zv ord c =
     obind (direct_Range ord c first_cb (zk, zv)) (\<lambda>(key, value).
       if key \<noteq> zk then Ret ((key, value, True), direct_Delete c [key])
       else Ret ((key, value, False), c))"

definition direct_Close :: "('k, 'v) direct \<Rightarrow> err option" where
  "direct_Close c = None"

definition direct_ops ::
  "'k \<Rightarrow> 'v \<Rightarrow> ('k, 'v) order \<Rightarrow> (('k, 'v) direct, 'k, 'v, 'c) storage_ops" where
  "direct_ops zk zv ord =
     \<lparr>op_Load = \<lambda>c k. Ret (direct_Load zv c k),
      op_Store = \<lambda>c k v. Ret (direct_Store c k v),
      op_Delete = \<lambda>c ks. Ret (direct_Delete c ks),
      op_Range = direct_Range ord,
      op_Keys = \<lambda>c. Ret (direct_Keys ord c),
      op_Next = direct_Next zk zv ord,
      op_Len = \<lambda>c. Ret (direct_Len c, c),
      op_Clear = \<lambda>c. Ret (direct_Clear c),
      op_Close = \<lambda>c. Ret (direct_Close c, c)\<rparr>"

lemmas direct_method_defs =
  direct_Load_def direct_Store_def direct_Delete_def direct_Range_def direct_Keys_def direct_Len_def
  direct_Clear_def direct_Close_def

definition direct_inv :: "('k, 'v) direct \<Rightarrow> bool" where
  "direct_inv c \<longleftrightarrow> gomap_ok (direct_data c)"

definition direct_abs :: "('k, 'v) direct \<Rightarrow> 'k \<rightharpoonup> 'v" where
  "direct_abs c = map_of (direct_data c)"

text \<open>The full behaviour of Next: it hinges on the first entry the range would visit.\<close>

lemma direct_Next_cases:
  "direct_Next zk zv ord c =
     (case ord (direct_data c) of
        [] \<Rightarrow> Ret ((zk, zv, False), c)
      | (k, v) # _ \<Rightarrow> if k = zk then Ret ((zk, v, False), c)
                     else Ret ((k, v, True), direct_Delete c [k]))"
  by (cases "ord (direct_data c)") (auto simp: direct_Next_def direct_Range_def range_loop_first)

text \<open>Every promise but Next holds for all keys.\<close>

interpretation direct: kv_iter "direct_ops zk zv" is_order direct_inv direct_abs "\<lambda>_. True" "\<lambda>_. True" zv
  for zk :: 'k and zv :: 'v
proof (unfold_locales, goal_cases)
  case (7 e s)
  then show ?case
    by (auto simp: direct_ops_def direct_Range_def direct_inv_def direct_abs_def intro: enumerates_order)
next
  case (8 e s)
  then show ?case
    using enumerates_keys(1,2)[OF enumerates_order, of e "direct_data s"]
    by (simp add: direct_ops_def direct_Keys_def direct_inv_def direct_abs_def)
qed (auto simp: direct_ops_def direct_method_defs direct_inv_def direct_abs_def kv_simps finite_dom_map_of)

interpretation direct_len: kv_len "direct_ops zk zv" is_order direct_inv direct_abs "\<lambda>_. True" "\<lambda>_. True" zv
  for zk :: 'k and zv :: 'v
  by unfold_locales
    (simp add: direct_ops_def direct_Len_def direct_inv_def direct_abs_def card_dom_gomap)

text \<open>On maps that never hold the zero key, Next keeps its promise as well.\<close>

definition direct_inv_nz :: "'k \<Rightarrow> ('k, 'v) direct \<Rightarrow> bool" where
  "direct_inv_nz zk c \<longleftrightarrow> direct_inv c \<and> zk \<notin> dom (direct_abs c)"

lemma direct_Next_nz:
  assumes ord: "is_order ord" and inv: "direct_inv_nz zk c"
  shows "\<exists>r c'. direct_Next zk zv ord c = Ret (r, c') \<and> direct_inv_nz zk c' \<and>
    next_result zk zv (direct_abs c) r (direct_abs c')"
proof -
  have ok: "gomap_ok (direct_data c)" and nz: "zk \<notin> dom (direct_abs c)"
    using inv by (simp_all add: direct_inv_nz_def direct_inv_def)
  have en: "enumerates (direct_abs c) (ord (direct_data c))"
    using enumerates_order[OF ord ok] by (simp add: direct_abs_def)
  have del: "direct_abs (direct_Delete c [k]) = (direct_abs c)(k := None)"
    and del_inv: "direct_inv_nz zk (direct_Delete c [k])" for k
    using inv by (auto simp: direct_abs_def direct_Delete_def direct_inv_nz_def direct_inv_def kv_simps)
  show ?thesis
  proof (cases "ord (direct_data c)")
    case Nil
    with next_of_first_entry[OF en nz, of zv] inv show ?thesis by (simp add: direct_Next_cases)
  next
    case (Cons e es)
    obtain k v where e: "e = (k, v)" by force
    with Cons en nz have "k \<noteq> zk" using enumerates_Cons by fastforce
    with next_of_first_entry[OF en nz, of zv] Cons e del del_inv show ?thesis
      by (simp add: direct_Next_cases)
  qed
qed

interpretation direct_nz: kv_store "direct_ops zk zv" is_order "direct_inv_nz zk" direct_abs
  "\<lambda>k. k \<noteq> zk" "\<lambda>_. True" zv zk
  for zk :: 'k and zv :: 'v
proof (unfold_locales, goal_cases)
  case (7 e s)
  then show ?case by (auto simp: direct_inv_nz_def intro: direct.Range_spec)
next
  case (8 e s)
  then show ?case by (auto simp: direct_inv_nz_def intro: direct.Keys_spec)
next
  case (9 e s)
  then show ?case
    by (simp add: direct_ops_def direct_Len_def direct_inv_nz_def direct_inv_def direct_abs_def card_dom_gomap)
next
  case (10 e s)
  then show ?case using direct_Next_nz by (fastforce simp: direct_ops_def)
qed (auto simp: direct_ops_def direct_method_defs direct_inv_nz_def direct_inv_def direct_abs_def kv_simps
       finite_dom_map_of)

section \<open>Encoded values: mightyMapDefaultStorage\<close>

record 'k bytestore =
  default_data :: "('k, bytes) gomap"

definition default_Load :: "'k bytestore \<Rightarrow> 'k \<Rightarrow> bytes \<times> bool" where
  "default_Load c key = go_index_map [] (default_data c) key"

definition default_Store :: "'k bytestore \<Rightarrow> 'k \<Rightarrow> bytes \<Rightarrow> 'k bytestore" where
  "default_Store c key value = c\<lparr>default_data := AList.update key value (default_data c)\<rparr>"

definition default_Delete :: "'k bytestore \<Rightarrow> 'k list \<Rightarrow> 'k bytestore" where
  "default_Delete c keys = c\<lparr>default_data := delete_all keys (default_data c)\<rparr>"

definition default_Range ::
  "('k, bytes) order \<Rightarrow> 'k bytestore \<Rightarrow> ('k, bytes, 'c) callback \<Rightarrow> 'c \<Rightarrow> 'c outcome" where
  "default_Range ord c f s = range_loop f (ord (default_data c)) s"

definition default_Keys :: "('k, bytes) order \<Rightarrow> 'k bytestore \<Rightarrow> 'k list" where
  "default_Keys ord c = map fst (ord (default_data c))"

definition default_Len :: "'k bytestore \<Rightarrow> int" where
  "default_Len c = int (length (default_data c))"

definition default_Clear :: "'k bytestore \<Rightarrow> 'k bytestore" where
  "default_Clear c = c\<lparr>default_data := []\<rparr>"

text \<open>\<open>zk\<close> is \<open>*new(K)\<close>.\<close>

definition default_Next ::
  "'k \<Rightarrow> ('k, bytes) order \<Rightarrow> 'k bytestore \<Rightarrow> (('k \<times> bytes \<times> bool) \<times> 'k bytestore) outcome" where
  "default_Next zk ord c =
     obind (default_Range ord c first_cb (zk, [])) (\<lambda>(key, value).
       if key \<noteq> zk then Ret ((key, value, True), default_Delete c [key])
       else Ret ((key, value, False), c))"

definition default_Close :: "'k bytestore \<Rightarrow> err option" where
  "default_Close c = None"

definition default_ops ::
  "'k \<Rightarrow> ('k, bytes) order \<Rightarrow> ('k bytestore, 'k, bytes, 'c) storage_ops" where
  "default_ops zk ord =
     \<lparr>op_Load = \<lambda>c k. Ret (default_Load c k),
      op_Store = \<lambda>c k v. Ret (default_Store c k v),
      op_Delete = \<lambda>c ks. Ret (default_Delete c ks),
      op_Range = default_Range ord,
      op_Keys = \<lambda>c. Ret (default_Keys ord c),
      op_Next = default_Next zk ord,
      op_Len = \<lambda>c. Ret (default_Len c, c),
      op_Clear = \<lambda>c. Ret (default_Clear c),
      op_Close = \<lambda>c. Ret (default_Close c, c)\<rparr>"

lemmas default_method_defs =
  default_Load_def default_Store_def default_Delete_def default_Range_def default_Keys_def default_Len_def
  default_Clear_def default_Close_def

definition default_inv :: "'k bytestore \<Rightarrow> bool" where
  "default_inv c \<longleftrightarrow> gomap_ok (default_data c)"

definition default_abs :: "'k bytestore \<Rightarrow> 'k \<rightharpoonup> bytes" where
  "default_abs c = map_of (default_data c)"

text \<open>The full behaviour of Next: it hinges on the first entry the range would visit.\<close>

lemma default_Next_cases:
  "default_Next zk ord c =
     (case ord (default_data c) of
        [] \<Rightarrow> Ret ((zk, [], False), c)
      | (k, v) # _ \<Rightarrow> if k = zk then Ret ((zk, v, False), c)
                     else Ret ((k, v, True), default_Delete c [k]))"
  by (cases "ord (default_data c)") (auto simp: default_Next_def default_Range_def range_loop_first)

text \<open>Every promise but Next holds for all keys.\<close>

interpretation default: kv_iter "default_ops zk" is_order default_inv default_abs "\<lambda>_. True" "\<lambda>_. True" "[]"
  for zk :: 'k
proof (unfold_locales, goal_cases)
  case (7 e s)
  then show ?case
    by (auto simp: default_ops_def default_Range_def default_inv_def default_abs_def intro: enumerates_order)
next
  case (8 e s)
  then show ?case
    using enumerates_keys(1,2)[OF enumerates_order, of e "default_data s"]
    by (simp add: default_ops_def default_Keys_def default_inv_def default_abs_def)
qed (auto simp: default_ops_def default_method_defs default_inv_def default_abs_def kv_simps finite_dom_map_of)

interpretation default_len: kv_len "default_ops zk" is_order default_inv default_abs "\<lambda>_. True" "\<lambda>_. True" "[]"
  for zk :: 'k
  by unfold_locales
    (simp add: default_ops_def default_Len_def default_inv_def default_abs_def card_dom_gomap)

text \<open>On maps that never hold the zero key, Next keeps its promise as well.\<close>

definition default_inv_nz :: "'k \<Rightarrow> 'k bytestore \<Rightarrow> bool" where
  "default_inv_nz zk c \<longleftrightarrow> default_inv c \<and> zk \<notin> dom (default_abs c)"

lemma default_Next_nz:
  assumes ord: "is_order ord" and inv: "default_inv_nz zk c"
  shows "\<exists>r c'. default_Next zk ord c = Ret (r, c') \<and> default_inv_nz zk c' \<and>
    next_result zk [] (default_abs c) r (default_abs c')"
proof -
  have ok: "gomap_ok (default_data c)" and nz: "zk \<notin> dom (default_abs c)"
    using inv by (simp_all add: default_inv_nz_def default_inv_def)
  have en: "enumerates (default_abs c) (ord (default_data c))"
    using enumerates_order[OF ord ok] by (simp add: default_abs_def)
  have del: "default_abs (default_Delete c [k]) = (default_abs c)(k := None)"
    and del_inv: "default_inv_nz zk (default_Delete c [k])" for k
    using inv by (auto simp: default_abs_def default_Delete_def default_inv_nz_def default_inv_def kv_simps)
  show ?thesis
  proof (cases "ord (default_data c)")
    case Nil
    with next_of_first_entry[OF en nz, of "[]"] inv show ?thesis by (simp add: default_Next_cases)
  next
    case (Cons e es)
    obtain k v where e: "e = (k, v)" by force
    with Cons en nz have "k \<noteq> zk" using enumerates_Cons by fastforce
    with next_of_first_entry[OF en nz, of "[]"] Cons e del del_inv show ?thesis
      by (simp add: default_Next_cases)
  qed
qed

interpretation default_nz: kv_store "default_ops zk" is_order "default_inv_nz zk" default_abs
  "\<lambda>k. k \<noteq> zk" "\<lambda>_. True" "[]" zk
  for zk :: 'k
proof (unfold_locales, goal_cases)
  case (7 e s)
  then show ?case by (auto simp: default_inv_nz_def intro: default.Range_spec)
next
  case (8 e s)
  then show ?case by (auto simp: default_inv_nz_def intro: default.Keys_spec)
next
  case (9 e s)
  then show ?case
    by (simp add: default_ops_def default_Len_def default_inv_nz_def default_inv_def default_abs_def card_dom_gomap)
next
  case (10 e s)
  then show ?case using default_Next_nz by (fastforce simp: default_ops_def)
qed (auto simp: default_ops_def default_method_defs default_inv_nz_def default_inv_def default_abs_def kv_simps
       finite_dom_map_of)

end
