(* ===== verification/Swiss_Storage.thy ===== *)
theory Swiss_Storage
  imports Storage_Interface Go_Strings
begin

text \<open>
  \<open>storage/mightymapStoreSwiss.go\<close>: the byte storage over \<open>swiss.Map\<close> of
  github.com/dolthub/swiss, which is not part of the repository and is a parameter \<open>api\<close> of the
  model; \<open>swiss_ok\<close> states what its documentation promises. The constructor's check of the Go
  version is here as well.
\<close>

section \<open>The library swiss.Map\<close>

text \<open>
  \<open>sw_visits\<close> lists the entries in the order in which \<open>Iter\<close> passes them to its callback, which
  the library leaves open (\<open>'e\<close>: its choice for this call); \<open>Iter\<close> stops as soon as the
  callback returns true.
\<close>

record ('e, 'm, 'k) swiss_api =
  sw_new :: "32 word \<Rightarrow> 'm"
  sw_get :: "'m \<Rightarrow> 'k \<Rightarrow> bytes \<times> bool"
  sw_put :: "'m \<Rightarrow> 'k \<Rightarrow> bytes \<Rightarrow> 'm"
  sw_delete :: "'m \<Rightarrow> 'k \<Rightarrow> bool \<times> 'm"
  sw_visits :: "'e \<Rightarrow> 'm \<Rightarrow> ('k \<times> bytes) list"
  sw_count :: "'m \<Rightarrow> int"
  sw_clear :: "'m \<Rightarrow> 'm"

fun iter_until :: "('k, 'v, 'c) callback \<Rightarrow> ('k \<times> 'v) list \<Rightarrow> 'c \<Rightarrow> 'c outcome" where
  "iter_until cb [] c = Ret c"
| "iter_until cb ((k, v) # es) c =
     obind (cb k v c) (\<lambda>(stop, c'). if stop then Ret c' else iter_until cb es c')"

definition swiss_ok :: "('e, 'm, 'k) swiss_api \<Rightarrow> ('m \<Rightarrow> 'k \<rightharpoonup> bytes) \<Rightarrow> bool" where
  "swiss_ok api mabs \<longleftrightarrow>
     (\<forall>n. mabs (sw_new api n) = Map.empty) \<and>
     (\<forall>m k. sw_get api m k = lookup_result [] (mabs m) k) \<and>
     (\<forall>m k v. mabs (sw_put api m k v) = (mabs m)(k \<mapsto> v)) \<and>
     (\<forall>m k. sw_delete api m k = (k \<in> dom (mabs m), snd (sw_delete api m k))) \<and>
     (\<forall>m k. mabs (snd (sw_delete api m k)) = (mabs m)(k := None)) \<and>
     (\<forall>e m. enumerates (mabs m) (sw_visits api e m)) \<and>
     (\<forall>m. sw_count api m = int (card (dom (mabs m)))) \<and>
     (\<forall>m. mabs (sw_clear api m) = Map.empty)"

section \<open>Options and constructor\<close>

record swissOpts =
  defaultCapacity :: "32 word"

definition defaultSwissCapacity :: "32 word" where
  "defaultSwissCapacity = 10000"

definition getDefaultSwissOptions :: swissOpts where
  "getDefaultSwissOptions = \<lparr>defaultCapacity = defaultSwissCapacity\<rparr>"

definition WithDefaultCapacity :: "32 word \<Rightarrow> swissOpts \<Rightarrow> swissOpts" where
  "WithDefaultCapacity capacity o1 = o1\<lparr>defaultCapacity := capacity\<rparr>"

text \<open>Whether the constructor logs its warning, given \<open>runtime.Version()\<close>.\<close>

definition checkGoVersion :: "string \<Rightarrow> bool" where
  "checkGoVersion goVersion =
     (if has_prefix goVersion ''go1.'' then
        let versionParts = go_split (trim_prefix goVersion ''go1.'') ''.'' in
        if length versionParts > 0 then
          (case atoi (versionParts ! 0) of
             None \<Rightarrow> False
           | Some majorVersion \<Rightarrow> majorVersion \<ge> 24)
        else False
      else False)"

record 'm swiss =
  swiss_data :: 'm

definition NewMightyMapSwissStorage ::
  "('e, 'm, 'k) swiss_api \<Rightarrow> string \<Rightarrow> (swissOpts \<Rightarrow> swissOpts) list \<Rightarrow> bool \<times> 'm swiss" where
  "NewMightyMapSwissStorage api goVersion optfuncs =
     (checkGoVersion goVersion,
      \<lparr>swiss_data = sw_new api (defaultCapacity (apply_opts optfuncs getDefaultSwissOptions))\<rparr>)"

section \<open>Methods\<close>

definition swiss_Load :: "('e, 'm, 'k) swiss_api \<Rightarrow> 'm swiss \<Rightarrow> 'k \<Rightarrow> bytes \<times> bool" where
  "swiss_Load api c key = sw_get api (swiss_data c) key"

definition swiss_Store ::
  "('e, 'm, 'k) swiss_api \<Rightarrow> 'm swiss \<Rightarrow> 'k \<Rightarrow> bytes \<Rightarrow> 'm swiss" where
  "swiss_Store api c key value = c\<lparr>swiss_data := sw_put api (swiss_data c) key value\<rparr>"

fun swiss_Delete :: "('e, 'm, 'k) swiss_api \<Rightarrow> 'm swiss \<Rightarrow> 'k list \<Rightarrow> 'm swiss" where
  "swiss_Delete api c [] = c"
| "swiss_Delete api c (key # keys) =
     swiss_Delete api (c\<lparr>swiss_data := snd (sw_delete api (swiss_data c) key)\<rparr>) keys"

definition swiss_Range ::
  "('e, 'm, 'k) swiss_api \<Rightarrow> 'e \<Rightarrow> 'm swiss \<Rightarrow> ('k, bytes, 'c) callback \<Rightarrow> 'c \<Rightarrow> 'c outcome"
where
  "swiss_Range api e c f s =
     iter_until (\<lambda>k v st. obind (f k v st) (\<lambda>(go, st'). Ret (\<not> go, st')))
       (sw_visits api e (swiss_data c)) s"

definition swiss_Keys :: "('e, 'm, 'k) swiss_api \<Rightarrow> 'e \<Rightarrow> 'm swiss \<Rightarrow> 'k list outcome" where
  "swiss_Keys api e c =
     iter_until (\<lambda>k v keys. Ret (False, keys @ [k])) (sw_visits api e (swiss_data c)) []"

definition swiss_Len :: "('e, 'm, 'k) swiss_api \<Rightarrow> 'm swiss \<Rightarrow> int" where
  "swiss_Len api c = sw_count api (swiss_data c)"

definition swiss_Clear :: "('e, 'm, 'k) swiss_api \<Rightarrow> 'm swiss \<Rightarrow> 'm swiss" where
  "swiss_Clear api c = c\<lparr>swiss_data := sw_clear api (swiss_data c)\<rparr>"

definition swiss_Next ::
  "('e, 'm, 'k) swiss_api \<Rightarrow> 'k \<Rightarrow> 'e \<Rightarrow> 'm swiss \<Rightarrow> (('k \<times> bytes \<times> bool) \<times> 'm swiss) outcome"
where
  "swiss_Next api zk e c =
     obind (swiss_Range api e c first_cb (zk, [])) (\<lambda>(key, value).
       if key \<noteq> zk then Ret ((key, value, True), swiss_Delete api c [key])
       else Ret ((key, value, False), c))"

definition swiss_Close :: "'m swiss \<Rightarrow> err option" where
  "swiss_Close c = None"

definition swiss_ops ::
  "('e, 'm, 'k) swiss_api \<Rightarrow> 'k \<Rightarrow> 'e \<Rightarrow> ('m swiss, 'k, bytes, 'c) storage_ops" where
  "swiss_ops api zk e =
     \<lparr>op_Load = \<lambda>c k. Ret (swiss_Load api c k),
      op_Store = \<lambda>c k v. Ret (swiss_Store api c k v),
      op_Delete = \<lambda>c ks. Ret (swiss_Delete api c ks),
      op_Range = swiss_Range api e,
      op_Keys = swiss_Keys api e,
      op_Next = swiss_Next api zk e,
      op_Len = \<lambda>c. Ret (swiss_Len api c, c),
      op_Clear = \<lambda>c. Ret (swiss_Clear api c),
      op_Close = \<lambda>c. Ret (swiss_Close c, c)\<rparr>"

section \<open>The contract\<close>

definition swiss_abs :: "('m \<Rightarrow> 'k \<rightharpoonup> bytes) \<Rightarrow> 'm swiss \<Rightarrow> 'k \<rightharpoonup> bytes" where
  "swiss_abs mabs c = mabs (swiss_data c)"

lemmas swiss_method_defs =
  swiss_Load_def swiss_Store_def swiss_Len_def swiss_Clear_def swiss_Close_def

lemma swiss_okD:
  assumes "swiss_ok api mabs"
  shows "mabs (sw_new api n) = Map.empty" "sw_get api m k = lookup_result [] (mabs m) k"
    "mabs (sw_put api m k v) = (mabs m)(k \<mapsto> v)"
    "mabs (snd (sw_delete api m k)) = (mabs m)(k := None)"
    "enumerates (mabs m) (sw_visits api e m)" "sw_count api m = int (card (dom (mabs m)))"
    "mabs (sw_clear api m) = Map.empty"
  using assms unfolding swiss_ok_def by blast+

lemma swiss_finite: "swiss_ok api mabs \<Longrightarrow> finite (dom (mabs m))"
  using enumerates_keys(2)[OF swiss_okD(5)] by (metis List.finite_set)

lemma iter_until_negated:
  "iter_until (\<lambda>k v st. obind (f k v st) (\<lambda>(go, st'). Ret (\<not> go, st'))) es c = range_loop f es c"
proof (induction es arbitrary: c)
  case Nil
  then show ?case by simp
next
  case (Cons e es)
  obtain k v where "e = (k, v)" by force
  with Cons show ?case by (cases "f k v c") auto
qed

lemma iter_until_keys:
  "iter_until (\<lambda>k v keys. Ret (False, keys @ [k])) es ks = Ret (ks @ map fst es)"
  by (induction es arbitrary: ks) auto

lemma swiss_Range_loop [simp]:
  "swiss_Range api e c f s = range_loop f (sw_visits api e (swiss_data c)) s"
  by (simp add: swiss_Range_def iter_until_negated)

lemma swiss_Keys_eq [simp]: "swiss_Keys api e c = Ret (map fst (sw_visits api e (swiss_data c)))"
  by (simp add: swiss_Keys_def iter_until_keys)

lemma swiss_abs_Delete:
  "swiss_ok api mabs \<Longrightarrow> swiss_abs mabs (swiss_Delete api c ks) = swiss_abs mabs c |` (- set ks)"
proof (induction ks arbitrary: c)
  case Nil
  then show ?case by simp
next
  case (Cons k ks)
  have "swiss_abs mabs (c\<lparr>swiss_data := snd (sw_delete api (swiss_data c) k)\<rparr>) =
      (swiss_abs mabs c)(k := None)"
    using Cons.prems by (simp add: swiss_abs_def swiss_okD fun_eq_iff)
  with Cons show ?case unfolding restrict_Cons by simp
qed

interpretation swiss: kv_iter "swiss_ops api zk" "\<lambda>_. True" "\<lambda>_. swiss_ok api mabs"
  "swiss_abs mabs" "\<lambda>_. True" "\<lambda>_. True" "[]"
  for api :: "('e, 'm, 'k) swiss_api" and mabs zk
proof (unfold_locales, goal_cases)
  case (5 e s ks)
  then show ?case by (simp add: swiss_ops_def swiss_abs_Delete)
next
  case (7 e s)
  then have "enumerates (swiss_abs mabs s) (sw_visits api e (swiss_data s))"
    by (simp add: swiss_abs_def swiss_okD)
  then show ?case by (auto simp: swiss_ops_def)
next
  case (8 e s)
  then have "enumerates (swiss_abs mabs s) (sw_visits api e (swiss_data s))"
    by (simp add: swiss_abs_def swiss_okD)
  from enumerates_keys(1,2)[OF this] show ?case by (simp add: swiss_ops_def)
qed (auto simp: swiss_ops_def swiss_method_defs swiss_abs_def swiss_okD intro: swiss_finite)

interpretation swiss_len: kv_len "swiss_ops api zk" "\<lambda>_. True" "\<lambda>_. swiss_ok api mabs"
  "swiss_abs mabs" "\<lambda>_. True" "\<lambda>_. True" "[]"
  for api :: "('e, 'm, 'k) swiss_api" and mabs zk
  by unfold_locales (simp add: swiss_ops_def swiss_Len_def swiss_abs_def swiss_okD)

text \<open>As in \<open>Direct_Storage\<close>, Next keeps its promise where the zero key is never stored.\<close>

definition swiss_inv_nz ::
  "('e, 'm, 'k) swiss_api \<Rightarrow> ('m \<Rightarrow> 'k \<rightharpoonup> bytes) \<Rightarrow> 'k \<Rightarrow> 'm swiss \<Rightarrow> bool" where
  "swiss_inv_nz api mabs zk c \<longleftrightarrow> swiss_ok api mabs \<and> zk \<notin> dom (swiss_abs mabs c)"

lemma swiss_Next_cases:
  "swiss_Next api zk e c =
     (case sw_visits api e (swiss_data c) of
        [] \<Rightarrow> Ret ((zk, [], False), c)
      | (k, v) # _ \<Rightarrow> if k = zk then Ret ((zk, v, False), c)
                     else Ret ((k, v, True), swiss_Delete api c [k]))"
  by (cases "sw_visits api e (swiss_data c)") (auto simp: swiss_Next_def range_loop_first)

lemma swiss_Next_nz:
  assumes inv: "swiss_inv_nz api mabs zk c"
  shows "\<exists>r c'. swiss_Next api zk e c = Ret (r, c') \<and> swiss_inv_nz api mabs zk c' \<and>
    next_result zk [] (swiss_abs mabs c) r (swiss_abs mabs c')"
proof -
  have ok: "swiss_ok api mabs" and nz: "zk \<notin> dom (swiss_abs mabs c)"
    using inv by (simp_all add: swiss_inv_nz_def)
  have en: "enumerates (swiss_abs mabs c) (sw_visits api e (swiss_data c))"
    using swiss_okD(5)[OF ok] by (simp add: swiss_abs_def)
  have del: "swiss_abs mabs (swiss_Delete api c [k]) = (swiss_abs mabs c)(k := None)"
    and del_inv: "swiss_inv_nz api mabs zk (swiss_Delete api c [k])" for k
    using inv ok by (simp_all add: swiss_abs_Delete swiss_inv_nz_def kv_simps del: swiss_Delete.simps)
  show ?thesis
  proof (cases "sw_visits api e (swiss_data c)")
    case Nil
    with next_of_first_entry[OF en nz, of "[]"] inv show ?thesis by (simp add: swiss_Next_cases)
  next
    case (Cons x es)
    obtain k v where x: "x = (k, v)" by force
    with Cons en nz have "k \<noteq> zk" using enumerates_Cons by fastforce
    with next_of_first_entry[OF en nz, of "[]"] Cons x del del_inv show ?thesis
      by (simp add: swiss_Next_cases del: swiss_Delete.simps)
  qed
qed

interpretation swiss_nz: kv_store "swiss_ops api zk" "\<lambda>_. True" "swiss_inv_nz api mabs zk"
  "swiss_abs mabs" "\<lambda>k. k \<noteq> zk" "\<lambda>_. True" "[]" zk
  for api :: "('e, 'm, 'k) swiss_api" and mabs zk
proof (unfold_locales, goal_cases)
  case (5 e s ks)
  then show ?case by (auto simp: swiss_ops_def swiss_abs_Delete swiss_inv_nz_def)
next
  case (7 e s)
  then show ?case by (auto simp: swiss_inv_nz_def intro!: swiss.Range_spec)
next
  case (8 e s)
  then show ?case by (auto simp: swiss_inv_nz_def intro!: swiss.Keys_spec)
next
  case (9 e s)
  then show ?case by (simp add: swiss_ops_def swiss_Len_def swiss_abs_def swiss_okD swiss_inv_nz_def)
next
  case (10 e s)
  then show ?case using swiss_Next_nz by (fastforce simp: swiss_ops_def)
qed (auto simp: swiss_ops_def swiss_method_defs swiss_abs_def swiss_okD swiss_inv_nz_def
       swiss_finite)

end
