(* ===== verification/Memory_Stacks.thy ===== *)
theory Memory_Stacks
  imports Msgpack_Adapter Direct_Storage Swiss_Storage
begin

text \<open>
  The in-memory byte storages under the MessagePack adapter: \<open>newMsgpackAdapter\<close> around
  \<open>mightyMapDefaultStorage\<close> and around \<open>mightyMapSwissStorage\<close>, for all keys (without Next) and
  for non-zero keys (with Next).
\<close>

interpretation default_mp: msgpack_iter "default_ops zk" is_order default_inv default_abs
  "\<lambda>_. True" "\<lambda>_. True" cd gen plain T
  for zk :: 'k and cd :: "'p codec" and gen plain T ..

interpretation default_mp_len: msgpack_len "default_ops zk" is_order default_inv default_abs
  "\<lambda>_. True" "\<lambda>_. True" cd gen plain T
  for zk :: 'k and cd :: "'p codec" and gen plain T ..

interpretation default_mp_nz: msgpack_store "default_ops zk" is_order "default_inv_nz zk"
  default_abs "\<lambda>k. k \<noteq> zk" "\<lambda>_. True" zk cd gen plain T
  for zk :: 'k and cd :: "'p codec" and gen plain T ..

interpretation swiss_mp: msgpack_iter "swiss_ops api zk" "\<lambda>_. True" "\<lambda>_. swiss_ok api mabs"
  "swiss_abs mabs" "\<lambda>_. True" "\<lambda>_. True" cd gen plain T
  for api :: "('e, 'm, 'k) swiss_api" and mabs zk and cd :: "'p codec" and gen plain T ..

interpretation swiss_mp_len: msgpack_len "swiss_ops api zk" "\<lambda>_. True" "\<lambda>_. swiss_ok api mabs"
  "swiss_abs mabs" "\<lambda>_. True" "\<lambda>_. True" cd gen plain T
  for api :: "('e, 'm, 'k) swiss_api" and mabs zk and cd :: "'p codec" and gen plain T ..

interpretation swiss_mp_nz: msgpack_store "swiss_ops api zk" "\<lambda>_. True"
  "swiss_inv_nz api mabs zk" "swiss_abs mabs" "\<lambda>k. k \<noteq> zk" "\<lambda>_. True" zk cd gen plain T
  for api :: "('e, 'm, 'k) swiss_api" and mabs zk and cd :: "'p codec" and gen plain T ..

end
