(* ===== verification/Mighty_Map.thy ===== *)
theory Mighty_Map
  imports Direct_Storage Msgpack_Codec
begin

text \<open>
  \<open>mightymap.go\<close>: the generic map in front of a storage. Its methods are modelled over any method
  table; the abstract specification is a step relation on a finite map, and the refinement is
  proved once, inside the locales of \<open>Storage_Interface\<close>, for every backend that keeps its
  contract.
\<close>

section \<open>The map and its methods\<close>

record 's mightymap =
  mm_storage :: 's
  mm_allowOverwrite :: bool

text \<open>
  \<open>New(allowOverwrite, storages...)\<close>: the in-memory storage when no storage is given (left), the
  first of the given ones otherwise (right).
\<close>

fun New :: "bool \<Rightarrow> 's list \<Rightarrow> ('k, 'v) direct mightymap + 's mightymap" where
  "New allow [] = Inl \<lparr>mm_storage = NewMightyMapDefaultStorage, mm_allowOverwrite = allow\<rparr>"
| "New allow (store # rest) = Inr \<lparr>mm_storage = store, mm_allowOverwrite = allow\<rparr>"

definition RegisterType :: "registry \<Rightarrow> 'p goval \<Rightarrow> registry" where
  "RegisterType reg value = RegisterMsgpackType reg value"

definition Map_Load ::
  "('s, 'k, 'v, 'c) storage_ops \<Rightarrow> 's mightymap \<Rightarrow> 'k \<Rightarrow> ('v \<times> bool) outcome" where
  "Map_Load ops m key = op_Load ops (mm_storage m) key"

definition Map_Has :: "('s, 'k, 'v, 'c) storage_ops \<Rightarrow> 's mightymap \<Rightarrow> 'k \<Rightarrow> bool outcome" where
  "Map_Has ops m key = obind (op_Load ops (mm_storage m) key) (\<lambda>(_, ok). Ret ok)"

definition set_storage :: "'s mightymap \<Rightarrow> 's outcome \<Rightarrow> 's mightymap outcome" where
  "set_storage m r = obind r (\<lambda>s'. Ret (m\<lparr>mm_storage := s'\<rparr>))"

definition Map_Store ::
  "('s, 'k, 'v, 'c) storage_ops \<Rightarrow> 's mightymap \<Rightarrow> 'k \<Rightarrow> 'v \<Rightarrow> 's mightymap outcome" where
  "Map_Store ops m key value =
     (if mm_allowOverwrite m then set_storage m (op_Store ops (mm_storage m) key value)
      else obind (op_Load ops (mm_storage m) key) (\<lambda>(_, ok).
        if \<not> ok then set_storage m (op_Store ops (mm_storage m) key value) else Ret m))"

definition Map_Delete ::
  "('s, 'k, 'v, 'c) storage_ops \<Rightarrow> 's mightymap \<Rightarrow> 'k list \<Rightarrow> 's mightymap outcome" where
  "Map_Delete ops m keys = set_storage m (op_Delete ops (mm_storage m) keys)"

definition Map_Range ::
  "('s, 'k, 'v, 'c) storage_ops \<Rightarrow> 's mightymap \<Rightarrow> ('k, 'v, 'c) callback \<Rightarrow> 'c \<Rightarrow> 'c outcome" where
  "Map_Range ops m f = op_Range ops (mm_storage m) f"

definition Map_Keys :: "('s, 'k, 'v, 'c) storage_ops \<Rightarrow> 's mightymap \<Rightarrow> 'k list outcome" where
  "Map_Keys ops m = op_Keys ops (mm_storage m)"

definition Map_Pop ::
  "('s, 'k, 'v, 'c) storage_ops \<Rightarrow> 's mightymap \<Rightarrow> 'k \<Rightarrow> (('v \<times> bool) \<times> 's mightymap) outcome"
where
  "Map_Pop ops m key =
     obind (op_Load ops (mm_storage m) key) (\<lambda>(value, ok).
       if \<not> ok then Ret ((value, ok), m)
       else obind (op_Delete ops (mm_storage m) [key]) (\<lambda>s'.
         Ret ((value, True), m\<lparr>mm_storage := s'\<rparr>)))"

definition Map_Next ::
  "('s, 'k, 'v, 'c) storage_ops \<Rightarrow> 's mightymap \<Rightarrow> (('v \<times> 'k \<times> bool) \<times> 's mightymap) outcome"
where
  "Map_Next ops m =
     obind (op_Next ops (mm_storage m)) (\<lambda>((key, value, ok), s').
       Ret ((value, key, ok), m\<lparr>mm_storage := s'\<rparr>))"

definition Map_Len ::
  "('s, 'k, 'v, 'c) storage_ops \<Rightarrow> 's mightymap \<Rightarrow> (int \<times> 's mightymap) outcome" where
  "Map_Len ops m =
     obind (op_Len ops (mm_storage m)) (\<lambda>(n, s'). Ret (n, m\<lparr>mm_storage := s'\<rparr>))"

definition Map_Clear :: "('s, 'k, 'v, 'c) storage_ops \<Rightarrow> 's mightymap \<Rightarrow> 's mightymap outcome" where
  "Map_Clear ops m = set_storage m (op_Clear ops (mm_storage m))"

definition Map_Close ::
  "('s, 'k, 'v, 'c) storage_ops \<Rightarrow> 's mightymap \<Rightarrow> (err option \<times> 's mightymap) outcome" where
  "Map_Close ops m =
     obind (op_Close ops (mm_storage m)) (\<lambda>(e, s'). Ret (e, m\<lparr>mm_storage := s'\<rparr>))"

lemmas Map_defs =
  Map_Load_def Map_Has_def Map_Store_def Map_Delete_def Map_Range_def Map_Keys_def Map_Pop_def
  Map_Next_def Map_Len_def Map_Clear_def set_storage_def

section \<open>Programs over a map\<close>

text \<open>Calls and what they return; \<open>CRange\<close> is a Range whose callback collects every entry.\<close>

datatype ('k, 'v) call =
    CLoad 'k | CHas 'k | CStore 'k 'v | CDelete "'k list" | CRange | CKeys | CPop 'k | CNext
  | CLen | CClear

datatype ('k, 'v) reply =
    RLoad 'v bool | RHas bool | RUnit | REntries "('k \<times> 'v) list" | RKeys "'k list"
  | RNext 'v 'k bool | RLen int

fun map_exec ::
  "('s, 'k, 'v, ('k \<times> 'v) list) storage_ops \<Rightarrow> 's mightymap \<Rightarrow> ('k, 'v) call \<Rightarrow>
    (('k, 'v) reply \<times> 's mightymap) outcome" where
  "map_exec ops m (CLoad k) = obind (Map_Load ops m k) (\<lambda>(v, ok). Ret (RLoad v ok, m))"
| "map_exec ops m (CHas k) = obind (Map_Has ops m k) (\<lambda>ok. Ret (RHas ok, m))"
| "map_exec ops m (CStore k v) = obind (Map_Store ops m k v) (\<lambda>m'. Ret (RUnit, m'))"
| "map_exec ops m (CDelete ks) = obind (Map_Delete ops m ks) (\<lambda>m'. Ret (RUnit, m'))"
| "map_exec ops m CRange = obind (Map_Range ops m collect_cb []) (\<lambda>es. Ret (REntries es, m))"
| "map_exec ops m CKeys = obind (Map_Keys ops m) (\<lambda>ks. Ret (RKeys ks, m))"
| "map_exec ops m (CPop k) = obind (Map_Pop ops m k) (\<lambda>((v, ok), m'). Ret (RLoad v ok, m'))"
| "map_exec ops m CNext = obind (Map_Next ops m) (\<lambda>((v, k, ok), m'). Ret (RNext v k ok, m'))"
| "map_exec ops m CLen = obind (Map_Len ops m) (\<lambda>(n, m'). Ret (RLen n, m'))"
| "map_exec ops m CClear = obind (Map_Clear ops m) (\<lambda>m'. Ret (RUnit, m'))"

text \<open>A run of calls, each with the environment's choice for it.\<close>

fun map_run ::
  "('e \<Rightarrow> ('s, 'k, 'v, ('k \<times> 'v) list) storage_ops) \<Rightarrow> 's mightymap \<Rightarrow> ('e \<times> ('k, 'v) call) list \<Rightarrow>
    (('k, 'v) reply list \<times> 's mightymap) outcome" where
  "map_run ops m [] = Ret ([], m)"
| "map_run ops m ((e, c) # cs) =
     obind (map_exec (ops e) m c) (\<lambda>(r, m'). obind (map_run ops m' cs) (\<lambda>(rs, m'').
       Ret (r # rs, m'')))"

section \<open>The abstract specification\<close>

text \<open>
  What the package promises, over a finite map. Load, Has, Store, Delete, Pop, Len and Clear are
  determined; Range, Keys and Next may choose an order.
\<close>

inductive spec_step ::
  "'k \<Rightarrow> 'v \<Rightarrow> bool \<Rightarrow> ('k \<rightharpoonup> 'v) \<Rightarrow> ('k, 'v) call \<Rightarrow> ('k, 'v) reply \<Rightarrow> ('k \<rightharpoonup> 'v) \<Rightarrow> bool"
  for zk zv allow where
  spec_Load: "lookup_result zv a k = (v, ok) \<Longrightarrow> spec_step zk zv allow a (CLoad k) (RLoad v ok) a"
| spec_Has: "spec_step zk zv allow a (CHas k) (RHas (k \<in> dom a)) a"
| spec_Store: "spec_step zk zv allow a (CStore k v) RUnit
    (if allow \<or> k \<notin> dom a then a(k \<mapsto> v) else a)"
| spec_Delete: "spec_step zk zv allow a (CDelete ks) RUnit (a |` (- set ks))"
| spec_Range: "enumerates a es \<Longrightarrow> spec_step zk zv allow a CRange (REntries es) a"
| spec_Keys: "distinct ks \<Longrightarrow> set ks = dom a \<Longrightarrow> spec_step zk zv allow a CKeys (RKeys ks) a"
| spec_Pop: "lookup_result zv a k = (v, ok) \<Longrightarrow>
    spec_step zk zv allow a (CPop k) (RLoad v ok) (a(k := None))"
| spec_Next: "next_result zk zv a (k, v, ok) a' \<Longrightarrow> spec_step zk zv allow a CNext (RNext v k ok) a'"
| spec_Len: "spec_step zk zv allow a CLen (RLen (int (card (dom a)))) a"
| spec_Clear: "spec_step zk zv allow a CClear RUnit Map.empty"

inductive_simps spec_step_simps [simp]:
  "spec_step zk zv allow a (CLoad k) r a'"
  "spec_step zk zv allow a (CHas k) r a'"
  "spec_step zk zv allow a (CStore k v) r a'"
  "spec_step zk zv allow a (CDelete ks) r a'"
  "spec_step zk zv allow a CRange r a'"
  "spec_step zk zv allow a CKeys r a'"
  "spec_step zk zv allow a (CPop k) r a'"
  "spec_step zk zv allow a CNext r a'"
  "spec_step zk zv allow a CLen r a'"
  "spec_step zk zv allow a CClear r a'"

inductive spec_run ::
  "'k \<Rightarrow> 'v \<Rightarrow> bool \<Rightarrow> ('k \<rightharpoonup> 'v) \<Rightarrow> ('k, 'v) call list \<Rightarrow> ('k, 'v) reply list \<Rightarrow> ('k \<rightharpoonup> 'v) \<Rightarrow> bool"
  for zk zv allow where
  spec_run_Nil: "spec_run zk zv allow a [] [] a"
| spec_run_Cons: "spec_step zk zv allow a c r a' \<Longrightarrow> spec_run zk zv allow a' cs rs a'' \<Longrightarrow>
    spec_run zk zv allow a (c # cs) (r # rs) a''"

text \<open>The calls a backend accepts: keys and values within its bounds; Next and Len where kept.\<close>

fun call_ok :: "('k \<Rightarrow> bool) \<Rightarrow> ('v \<Rightarrow> bool) \<Rightarrow> ('k, 'v) call \<Rightarrow> bool" where
  "call_ok kok vok (CLoad k) = kok k"
| "call_ok kok vok (CHas k) = kok k"
| "call_ok kok vok (CStore k v) = (kok k \<and> vok v)"
| "call_ok kok vok (CDelete ks) = list_all kok ks"
| "call_ok kok vok (CPop k) = kok k"
| "call_ok kok vok _ = True"

section \<open>Refinement\<close>

context kv_core
begin

lemma Map_Load_spec:
  "eok e \<Longrightarrow> sinv (mm_storage m) \<Longrightarrow> kok k \<Longrightarrow>
    Map_Load (ops e) m k = Ret (lookup_result zv (amap (mm_storage m)) k)"
  by (simp add: Map_Load_def Load_spec)

lemma Map_Has_spec:
  "eok e \<Longrightarrow> sinv (mm_storage m) \<Longrightarrow> kok k \<Longrightarrow>
    Map_Has (ops e) m k = Ret (k \<in> dom (amap (mm_storage m)))"
  by (auto simp: Map_Has_def Load_spec lookup_result_def split: option.splits)

lemma Map_Store_spec:
  assumes "eok e" "sinv (mm_storage m)" "kok k" "vok v"
  shows "\<exists>m'. Map_Store (ops e) m k v = Ret m' \<and> sinv (mm_storage m') \<and>
    mm_allowOverwrite m' = mm_allowOverwrite m \<and>
    amap (mm_storage m') =
      (if mm_allowOverwrite m \<or> k \<notin> dom (amap (mm_storage m))
       then (amap (mm_storage m))(k \<mapsto> v) else amap (mm_storage m))"
proof -
  obtain s' where "op_Store (ops e) (mm_storage m) k v = Ret s'" "sinv s'"
    "amap s' = (amap (mm_storage m))(k \<mapsto> v)"
    using Store_spec[OF assms] by blast
  with assms show ?thesis
    by (auto simp: Map_Store_def set_storage_def Load_spec lookup_result_def split: option.splits)
qed

lemma Map_Pop_spec:
  assumes "eok e" "sinv (mm_storage m)" "kok k"
  shows "\<exists>m'. Map_Pop (ops e) m k = Ret (lookup_result zv (amap (mm_storage m)) k, m') \<and>
    sinv (mm_storage m') \<and> mm_allowOverwrite m' = mm_allowOverwrite m \<and>
    amap (mm_storage m') = (amap (mm_storage m))(k := None)"
proof (cases "amap (mm_storage m) k")
  case None
  then have "(amap (mm_storage m))(k := None) = amap (mm_storage m)" by auto
  with None assms show ?thesis by (simp add: Map_Pop_def Load_spec lookup_result_def)
next
  case (Some v)
  with assms Delete_one_spec[OF assms] show ?thesis
    by (auto simp: Map_Pop_def Load_spec lookup_result_def)
qed

end

text \<open>
  A backend whose Range is used with the collecting callback, which \<open>map_exec\<close> fixes: the calls
  refine the specification where Range and Keys are kept, Next where Next is, and Len where Len is.
\<close>

locale map_iter = kv_iter ops eok sinv amap kok vok zv
  for ops :: "'e \<Rightarrow> ('s, 'k, 'v, ('k \<times> 'v) list) storage_ops" and eok sinv amap kok vok zv
begin

lemma map_exec_refines_basic:
  assumes e: "eok e" and s: "sinv (mm_storage m)" and c: "call_ok kok vok c" and "c \<noteq> CLen" "c \<noteq> CNext"
  shows "\<exists>r m'. map_exec (ops e) m c = Ret (r, m') \<and> sinv (mm_storage m') \<and>
    mm_allowOverwrite m' = mm_allowOverwrite m \<and>
    spec_step zk zv (mm_allowOverwrite m) (amap (mm_storage m)) c r (amap (mm_storage m'))"
proof (cases c)
  case (CLoad k)
  obtain v ok where "lookup_result zv (amap (mm_storage m)) k = (v, ok)" by force
  with CLoad assms show ?thesis by (simp add: Map_Load_spec)
next
  case (CHas k)
  with assms show ?thesis by (simp add: Map_Has_spec)
next
  case (CStore k v)
  with assms Map_Store_spec[OF e s, of k v] show ?thesis by auto
next
  case (CDelete ks)
  with c have "\<forall>k \<in> set ks. kok k" by (simp add: list_all_iff)
  from Delete_spec[OF e s this] CDelete show ?thesis
    by (auto simp: Map_Delete_def set_storage_def)
next
  case CRange
  with Range_spec[OF e s] s show ?thesis by (auto simp: Map_Range_def range_loop_collect)
next
  case CKeys
  with Keys_spec[OF e s] s show ?thesis by (auto simp: Map_Keys_def)
next
  case (CPop k)
  obtain v ok where "lookup_result zv (amap (mm_storage m)) k = (v, ok)" by force
  with CPop c Map_Pop_spec[OF e s, of k] show ?thesis by auto
next
  case CNext
  with assms(5) show ?thesis by simp
next
  case CLen
  with assms(4) show ?thesis by simp
next
  case CClear
  with Clear_spec[OF e s] show ?thesis by (auto simp: Map_Clear_def set_storage_def)
qed

end

locale map_partial = map_iter ops eok sinv amap kok vok zv + kv_next ops eok sinv amap kok vok zv zk
  for ops :: "'e \<Rightarrow> ('s, 'k, 'v, ('k \<times> 'v) list) storage_ops" and eok sinv amap kok vok zv zk
begin

lemma map_exec_refines_but_Len:
  assumes e: "eok e" and s: "sinv (mm_storage m)" and c: "call_ok kok vok c" and "c \<noteq> CLen"
  shows "\<exists>r m'. map_exec (ops e) m c = Ret (r, m') \<and> sinv (mm_storage m') \<and>
    mm_allowOverwrite m' = mm_allowOverwrite m \<and>
    spec_step zk zv (mm_allowOverwrite m) (amap (mm_storage m)) c r (amap (mm_storage m'))"
proof (cases "c = CNext")
  case True
  obtain k v ok s' where "op_Next (ops e) (mm_storage m) = Ret ((k, v, ok), s')" "sinv s'"
    "next_result zk zv (amap (mm_storage m)) (k, v, ok) (amap s')"
    using Next_spec[OF e s] by (metis prod_cases3)
  with True show ?thesis by (simp add: Map_Next_def)
next
  case False
  then show ?thesis by (rule map_exec_refines_basic[OF assms])
qed

end

locale map_backend = map_partial ops eok sinv amap kok vok zv zk + kv_len ops eok sinv amap kok vok zv
  for ops :: "'e \<Rightarrow> ('s, 'k, 'v, ('k \<times> 'v) list) storage_ops" and eok sinv amap kok vok zv zk
begin

lemma map_exec_refines:
  assumes e: "eok e" and s: "sinv (mm_storage m)" and c: "call_ok kok vok c"
  shows "\<exists>r m'. map_exec (ops e) m c = Ret (r, m') \<and> sinv (mm_storage m') \<and>
    mm_allowOverwrite m' = mm_allowOverwrite m \<and>
    spec_step zk zv (mm_allowOverwrite m) (amap (mm_storage m)) c r (amap (mm_storage m'))"
proof (cases "c = CLen")
  case True
  with Len_spec[OF e s] show ?thesis by (auto simp: Map_Len_def)
next
  case False
  then show ?thesis by (rule map_exec_refines_but_Len[OF e s c])
qed

text \<open>Every run returns, and its replies are a run of the specification.\<close>

lemma map_run_refines:
  assumes "\<forall>(e, c) \<in> set cs. eok e \<and> call_ok kok vok c" and "sinv (mm_storage m)"
  shows "\<exists>rs m'. map_run ops m cs = Ret (rs, m') \<and> sinv (mm_storage m') \<and>
    spec_run zk zv (mm_allowOverwrite m) (amap (mm_storage m)) (map snd cs) rs
      (amap (mm_storage m'))"
  using assms
proof (induction cs arbitrary: m)
  case Nil
  then show ?case by (simp add: spec_run_Nil)
next
  case (Cons x cs)
  obtain e c where x: "x = (e, c)" by force
  with Cons.prems have "eok e" "call_ok kok vok c" by auto
  then obtain r m' where step: "map_exec (ops e) m c = Ret (r, m')" "sinv (mm_storage m')"
    "mm_allowOverwrite m' = mm_allowOverwrite m"
    "spec_step zk zv (mm_allowOverwrite m) (amap (mm_storage m)) c r (amap (mm_storage m'))"
    using map_exec_refines Cons.prems(2) by blast
  obtain rs m'' where "map_run ops m' cs = Ret (rs, m'')" "sinv (mm_storage m'')"
    "spec_run zk zv (mm_allowOverwrite m') (amap (mm_storage m')) (map snd cs) rs
      (amap (mm_storage m''))"
    using Cons.IH[OF _ step(2)] Cons.prems(1) by auto
  with x step show ?case by (auto intro: spec_run_Cons)
qed

end

text \<open>The default map, \<open>New(allow)\<close>, whose storage holds values as they are.\<close>

interpretation direct_map: map_backend "direct_ops zk zv" is_order "direct_inv_nz zk" direct_abs
  "\<lambda>k. k \<noteq> zk" "\<lambda>_. True" zv zk
  for zk :: 'k and zv :: 'v ..

end
