(* ===== verification/Persistent_Stacks.thy ===== *)
theory Persistent_Stacks
  imports Badger_Storage Badger_Opts Redis_Contract SQLite_Contract Memory_Stacks Mighty_Map
begin

text \<open>
  The persistent byte storages under the MessagePack adapter, as their constructors return them,
  and the map of \<open>mightymap.go\<close> over each stack that keeps the whole interface. For BadgerDB, whose
  Len counts stores rather than keys, the parts it keeps are instantiated.
\<close>

section \<open>Adapters\<close>

interpretation badger_mp: msgpack_iter "\<lambda>_::unit. badger_ops kc api zk" "\<lambda>_. True"
  "badger_inv kc api opn dbmap kfit vfit" "badger_abs kc dbmap kfit" "key_ok kc kfit" vfit
  cd gen plain T
  for kc :: "'k key_codec" and api :: "'db badger_api" and zk opn dbmap kfit vfit
    and cd :: "'p codec" and gen plain T ..

interpretation badger_mp_next: msgpack_next "\<lambda>_::unit. badger_ops kc api zk" "\<lambda>_. True"
  "badger_inv kc api opn dbmap kfit vfit" "badger_abs kc dbmap kfit" "key_ok kc kfit" vfit zk
  cd gen plain T
  for kc :: "'k key_codec" and api :: "'db badger_api" and zk opn dbmap kfit vfit
    and cd :: "'p codec" and gen plain T ..

interpretation redis_mp: msgpack_next "\<lambda>_::'e. redis_ops kc api zk" "\<lambda>_. True"
  "redis_inv kc api up dbmap fit p" "redis_abs kc dbmap fit p" "redis_kok kc fit p" fit zk
  cd gen plain T
  for kc :: "'k key_codec" and api :: "'db redis_api" and zk up dbmap fit p
    and cd :: "'p codec" and gen plain T ..

interpretation redis_once_mp: msgpack_store "\<lambda>_::'e. redis_ops kc api zk" "\<lambda>_. True"
  "redis_once kc api up dbmap fit p" "redis_abs kc dbmap fit p" "redis_kok kc fit p" fit zk
  cd gen plain T
  for kc :: "'k key_codec" and api :: "'db redis_api" and zk up dbmap fit p
    and cd :: "'p codec" and gen plain T ..

interpretation sqlite_mp: msgpack_store "sqlite_ops kc api zk" "\<lambda>_. True"
  "sqlite_inv kc api up tabs txtabs ident kfit vfit" "sqlite_abs kc tabs kfit" "key_ok kc kfit" vfit
  zk cd gen plain T
  for kc :: "'k key_codec" and api :: "('db, 'tx) sqlite_api" and zk up tabs txtabs ident kfit vfit
    and cd :: "'p codec" and gen plain T ..

section \<open>Maps\<close>

text \<open>\<open>New(allow, storage)\<close> over each stack: runs of calls refine the specification.\<close>

interpretation default_map: map_backend "\<lambda>e. adapter_ops cd (default_ops zk e)" is_order
  "adapter_inv cd gen plain T (\<lambda>_. True) (default_inv_nz zk) default_abs"
  "adapter_abs cd default_abs" "\<lambda>k. k \<noteq> zk" "adapter_vok cd plain T (\<lambda>_. True)" "cd_zero cd" zk
  for zk :: 'k and cd :: "'p codec" and gen plain T ..

interpretation swiss_map: map_backend "\<lambda>e. adapter_ops cd (swiss_ops api zk e)" "\<lambda>_. True"
  "adapter_inv cd gen plain T (\<lambda>_. True) (swiss_inv_nz api mabs zk) (swiss_abs mabs)"
  "adapter_abs cd (swiss_abs mabs)" "\<lambda>k. k \<noteq> zk" "adapter_vok cd plain T (\<lambda>_. True)"
  "cd_zero cd" zk
  for api :: "('e, 'm, 'k) swiss_api" and mabs zk and cd :: "'p codec" and gen plain T ..

interpretation redis_map: map_backend "\<lambda>_::'e. adapter_ops cd (redis_ops kc api zk)" "\<lambda>_. True"
  "adapter_inv cd gen plain T fit (redis_once kc api up dbmap fit p) (redis_abs kc dbmap fit p)"
  "adapter_abs cd (redis_abs kc dbmap fit p)" "redis_kok kc fit p" "adapter_vok cd plain T fit"
  "cd_zero cd" zk
  for kc :: "'k key_codec" and api :: "'db redis_api" and zk up dbmap fit p
    and cd :: "'p codec" and gen plain T ..

interpretation sqlite_map: map_backend "\<lambda>e. adapter_ops cd (sqlite_ops kc api zk e)" "\<lambda>_. True"
  "adapter_inv cd gen plain T vfit (sqlite_inv kc api up tabs txtabs ident kfit vfit)
    (sqlite_abs kc tabs kfit)"
  "adapter_abs cd (sqlite_abs kc tabs kfit)" "key_ok kc kfit" "adapter_vok cd plain T vfit"
  "cd_zero cd" zk
  for kc :: "'k key_codec" and api :: "('db, 'tx) sqlite_api" and zk up tabs txtabs ident kfit vfit
    and cd :: "'p codec" and gen plain T ..

end
