(* ===== verification/Badger_Map.thy ===== *)
theory Badger_Map
  imports Persistent_Stacks
begin

text \<open>
  The map over BadgerDB when it does not overwrite: each Store that reaches the storage adds a new
  key, so the storage's counter, once filled, is the number of keys, and Len is right as well.
\<close>

interpretation badger_map: map_partial "\<lambda>_::unit. adapter_ops cd (badger_ops kc api zk)" "\<lambda>_. True"
  "adapter_inv cd gen plain T vfit (badger_inv kc api opn dbmap kfit vfit) (badger_abs kc dbmap kfit)"
  "adapter_abs cd (badger_abs kc dbmap kfit)" "key_ok kc kfit" "adapter_vok cd plain T vfit"
  "cd_zero cd" zk
  for kc :: "'k key_codec" and api :: "'db badger_api" and zk opn dbmap kfit vfit
    and cd :: "'p codec" and gen plain T ..

section \<open>An exact counter\<close>

text \<open>Not filled yet, or equal to the number of keys.\<close>

definition badger_exact ::
  "'k key_codec \<Rightarrow> ('db \<Rightarrow> bytes \<rightharpoonup> bytes) \<Rightarrow> (bytes \<Rightarrow> bool) \<Rightarrow> 'db badger \<Rightarrow> bool" where
  "badger_exact kc dbmap kfit c \<longleftrightarrow> (bg_initLenCall c \<longrightarrow> badger_ahead kc dbmap kfit c 0)"

lemma badger_exact_call:
  assumes inv: "badger_inv kc api opn dbmap kfit vfit c" and ex: "badger_exact kc dbmap kfit c"
    and ok: "badger_call_ok kc kfit vfit x" and new: "\<And>k v. x = BStore k v \<Longrightarrow>
      k \<notin> dom (badger_abs kc dbmap kfit c)"
    and run: "badger_counted kc api zk (c, 0) x = Ret (c', n')"
  shows "badger_exact kc dbmap kfit c'"
proof (cases "bg_initLenCall c")
  case True
  with ex have ah: "badger_ahead kc dbmap kfit c 0" by (simp add: badger_exact_def)
  have "n' = 0"
  proof (cases x)
    case (BStore k v)
    with ok have "badger_Load kc api c k = Ret (lookup_result [] (badger_abs kc dbmap kfit c) k)"
      using badger_Load_spec[OF inv] by simp
    moreover from BStore new have "k \<notin> dom (badger_abs kc dbmap kfit c)" by blast
    ultimately show ?thesis using BStore run
      by (auto simp: lookup_result_def domIff obind_eq_Ret_iff)
  qed (use run in \<open>auto simp: obind_eq_Ret_iff\<close>)
  with badger_counted_step[OF inv ah ok, of zk] run show ?thesis by (simp add: badger_exact_def)
next
  case False
  show ?thesis
  proof (cases x)
    case BLen
    with badger_first_Len[OF inv False] run show ?thesis
      by (auto simp: obind_eq_Ret_iff badger_exact_def)
  next
    case (BStore k v)
    with False ok run badger_Store_spec[OF inv, of k v] show ?thesis
      by (auto simp: obind_eq_Ret_iff badger_exact_def)
  next
    case (BDelete ks)
    with False ok run badger_Delete_spec[OF inv, of ks] show ?thesis
      by (auto simp: obind_eq_Ret_iff badger_exact_def list_all_iff)
  next
    case BNext
    with False run badger_Next_spec[OF inv, of zk] show ?thesis
      by (auto simp: obind_eq_Ret_iff badger_exact_def)
  next
    case BClear
    with False run badger_Clear_spec[OF inv] show ?thesis
      by (auto simp: obind_eq_Ret_iff badger_exact_def)
  qed
qed

text \<open>An exact counter makes Len right while the number of keys fits an \<open>int64\<close>.\<close>

lemma badger_exact_Len:
  assumes inv: "badger_inv kc api opn dbmap kfit vfit c" and ex: "badger_exact kc dbmap kfit c"
    and small: "card (dom (badger_abs kc dbmap kfit c)) < 2 ^ 63"
  shows "\<exists>c'. badger_Len api c = Ret (int (card (dom (badger_abs kc dbmap kfit c))), c') \<and>
    badger_inv kc api opn dbmap kfit vfit c' \<and>
    badger_abs kc dbmap kfit c' = badger_abs kc dbmap kfit c \<and> badger_exact kc dbmap kfit c'"
proof (cases "bg_initLenCall c")
  case True
  with ex have "badger_ahead kc dbmap kfit c 0" by (simp add: badger_exact_def)
  from badger_Len_ahead[OF this] small inv ex show ?thesis by simp
next
  case False
  from badger_first_Len[OF inv this] obtain c' where
    "badger_Len api c = Ret (sint (of_nat (card (dom (badger_abs kc dbmap kfit c))) :: 64 word), c')"
    "badger_inv kc api opn dbmap kfit vfit c'"
    "badger_abs kc dbmap kfit c' = badger_abs kc dbmap kfit c" "badger_ahead kc dbmap kfit c' 0"
    by blast
  with sint_of_nat_64[OF small] show ?thesis by (simp add: badger_exact_def)
qed

section \<open>The map\<close>

abbreviation stored :: "'s adapter mightymap \<Rightarrow> 's" where
  "stored m \<equiv> ad_storage (mm_storage m)"

abbreviation badger_map_ops ::
  "'p codec \<Rightarrow> 'k key_codec \<Rightarrow> 'db badger_api \<Rightarrow> 'k \<Rightarrow>
    ('db badger adapter, 'k, 'p goval, 'c) storage_ops" where
  "badger_map_ops cd kc api zk \<equiv> adapter_ops cd (badger_ops kc api zk)"

abbreviation badger_map_inv ::
  "'p codec \<Rightarrow> ('p goval \<Rightarrow> 'p goval) \<Rightarrow> ('p goval \<Rightarrow> bool) \<Rightarrow> gotype set \<Rightarrow> 'k key_codec \<Rightarrow>
    'db badger_api \<Rightarrow> ('db \<Rightarrow> bool) \<Rightarrow> ('db \<Rightarrow> bytes \<rightharpoonup> bytes) \<Rightarrow> (bytes \<Rightarrow> bool) \<Rightarrow> (bytes \<Rightarrow> bool) \<Rightarrow>
    'db badger adapter \<Rightarrow> bool" where
  "badger_map_inv cd gen plain T kc api opn dbmap kfit vfit \<equiv>
     adapter_inv cd gen plain T vfit (badger_inv kc api opn dbmap kfit vfit) (badger_abs kc dbmap kfit)"

lemma adapter_Next_storage:
  assumes "adapter_Next cd ops a = Ret (res, a')"
  shows "\<exists>res'. op_Next ops (ad_storage a) = Ret (res', ad_storage a')"
proof -
  from assms obtain x where x: "op_Next ops (ad_storage a) = Ret x"
    by (auto simp: adapter_Next_def obind_eq_Ret_iff)
  obtain k data ok s' where "x = ((k, data, ok), s')" by (cases x) auto
  with x have n: "op_Next ops (ad_storage a) = Ret ((k, data, ok), s')" by simp
  show ?thesis
  proof (cases ok)
    case False
    with assms n show ?thesis by (auto simp: adapter_Next_def)
  next
    case True
    with assms n obtain d where "msgpackDecodeValue cd (ad_registry a) data = Ret d"
      by (auto simp: adapter_Next_def obind_eq_Ret_iff)
    with assms n True show ?thesis by (cases d) (auto simp: adapter_Next_def)
  qed
qed

text \<open>A call on the map changes the storage as a storage call does, if at all.\<close>

lemma badger_map_exec_storage:
  fixes kc :: "'k key_codec" and api :: "'db badger_api" and cd :: "'p codec"
  assumes inv: "badger_map_inv cd gen plain T kc api opn dbmap kfit vfit (mm_storage m)"
    and over: "\<not> mm_allowOverwrite m"
    and ok: "call_ok (key_ok kc kfit) (adapter_vok cd plain T vfit) c"
    and run: "map_exec (badger_map_ops cd kc api zk) m c = Ret (r, m')"
  shows "stored m' = stored m \<or>
    (\<exists>x n'. badger_counted kc api zk (stored m, 0) x = Ret (stored m', n') \<and>
       badger_call_ok kc kfit vfit x \<and>
       (\<forall>k v. x = BStore k v \<longrightarrow> k \<notin> dom (badger_abs kc dbmap kfit (stored m))))"
proof (cases c)
  case (CStore k v)
  let ?a = "badger_abs kc dbmap kfit (stored m)"
  let ?ops = "badger_ops kc api zk :: ('db badger, 'k, bytes, ('k \<times> 'p goval) list) storage_ops"
  note d = adapter_invD[OF inv]
  have k: "key_ok kc kfit k" using ok CStore by simp
  have l: "badger_Load kc api (stored m) k = Ret (lookup_result [] ?a k)"
    by (rule badger_Load_spec[OF d(3) k])
  have al: "adapter_Load cd ?ops (mm_storage m) k =
      Ret (lookup_result (cd_zero cd) (adapter_abs cd (badger_abs kc dbmap kfit) (mm_storage m)) k)"
    by (rule badger_mp.adapter_Load_spec[OF _ inv k]) simp
  show ?thesis
  proof (cases "k \<in> dom ?a")
    case True
    then have "k \<in> dom (adapter_abs cd (badger_abs kc dbmap kfit) (mm_storage m))"
      using adapter_dom[OF inv] by simp
    with al run CStore over show ?thesis
      by (auto simp: Map_Store_def adapter_ops_def lookup_result_def split: option.splits)
  next
    case False
    then have "k \<notin> dom (adapter_abs cd (badger_abs kc dbmap kfit) (mm_storage m))"
      using adapter_dom[OF inv] by simp
    with al run CStore over obtain a' where
      st: "adapter_Store cd ?ops (mm_storage m) k v = Ret a'"
      "stored m' = ad_storage a'"
      by (auto simp: Map_Store_def adapter_ops_def lookup_result_def set_storage_def
          obind_eq_Ret_iff domIff)
    obtain e reg' where e: "msgpackEncodeValue (cd_mp cd) (ad_registry (mm_storage m)) v = (e, reg')"
      by force
    show ?thesis
    proof (cases e)
      case (Inl err)
      with st e show ?thesis by (auto simp: adapter_Store_def)
    next
      case (Inr b)
      have "fst (msgpackEncodeValue (cd_mp cd) (ad_registry (mm_storage m)) v) = Inr b"
        using e Inr by simp
      then have "vfit b" using ok CStore by (auto simp: adapter_vok_def)
      moreover have "badger_Store kc api (stored m) k b = Ret (stored m')"
        using st e Inr by (auto simp: adapter_Store_def badger_ops_def obind_eq_Ret_iff)
      ultimately show ?thesis using False k l
        by (intro disjI2 exI[of _ "BStore k b"] exI[of _ 0]) (auto simp: lookup_result_def domIff)
    qed
  qed
next
  case (CDelete ks)
  with run have "badger_Delete kc api (stored m) ks = Ret (stored m')"
    by (auto simp: Map_Delete_def set_storage_def adapter_ops_def adapter_Delete_def badger_ops_def
        obind_eq_Ret_iff)
  with ok CDelete show ?thesis
    by (intro disjI2 exI[of _ "BDelete ks"] exI[of _ 0]) (auto simp: list_all_iff)
next
  case (CPop k)
  with run have "stored m' = stored m \<or> badger_Delete kc api (stored m) [k] = Ret (stored m')"
    by (auto simp: Map_Pop_def adapter_ops_def adapter_Delete_def badger_ops_def obind_eq_Ret_iff
        simp del: badger_Delete.simps split: if_splits)
  with ok CPop show ?thesis
    by (auto intro!: exI[of _ "BDelete [k]"] simp del: badger_Delete.simps)
next
  case CNext
  with run obtain res0 a' where a': "stored m' = ad_storage a'"
    "adapter_Next cd (badger_ops kc api zk :: ('db badger, 'k, bytes, ('k \<times> 'p goval) list) storage_ops)
      (mm_storage m) = Ret (res0, a')"
    by (auto simp: Map_Next_def adapter_ops_def obind_eq_Ret_iff)
  from adapter_Next_storage[OF a'(2)] a'(1) obtain res where
    "badger_Next kc api zk (stored m) = Ret (res, stored m')" by (auto simp: badger_ops_def)
  then show ?thesis by (intro disjI2 exI[of _ BNext] exI[of _ 0]) (auto split: prod.splits)
next
  case CLen
  with run obtain n where "badger_Len api (stored m) = Ret (n, stored m')"
    by (auto simp: Map_Len_def adapter_ops_def adapter_Len_def badger_ops_def obind_eq_Ret_iff)
  then show ?thesis by (intro disjI2 exI[of _ BLen] exI[of _ 0]) auto
next
  case CClear
  with run have "badger_Clear api (stored m) = Ret (stored m')"
    by (auto simp: Map_Clear_def set_storage_def adapter_ops_def adapter_Clear_def badger_ops_def
        obind_eq_Ret_iff)
  then show ?thesis by (intro disjI2 exI[of _ BClear] exI[of _ 0]) auto
qed (use run in \<open>auto simp: obind_eq_Ret_iff\<close>)

text \<open>So it keeps the counter exact, and adds at most one key.\<close>

lemma badger_map_exact:
  assumes inv: "badger_map_inv cd gen plain T kc api opn dbmap kfit vfit (mm_storage m)"
    and over: "\<not> mm_allowOverwrite m"
    and ok: "call_ok (key_ok kc kfit) (adapter_vok cd plain T vfit) c"
    and run: "map_exec (badger_map_ops cd kc api zk) m c = Ret (r, m')"
    and ex: "badger_exact kc dbmap kfit (stored m)"
  shows "badger_exact kc dbmap kfit (stored m')"
  using badger_map_exec_storage[OF inv over ok run]
proof (elim disjE exE conjE)
  assume "stored m' = stored m"
  with ex show ?thesis by simp
next
  fix x n'
  assume x: "badger_counted kc api zk (stored m, 0) x = Ret (stored m', n')"
    "badger_call_ok kc kfit vfit x"
    "\<forall>k v. x = BStore k v \<longrightarrow> k \<notin> dom (badger_abs kc dbmap kfit (stored m))"
  show ?thesis by (rule badger_exact_call[OF adapter_invD(3)[OF inv] ex x(2) _ x(1)]) (use x(3) in blast)
qed

lemma spec_step_card:
  assumes "spec_step zk zv False a c r a'" "finite (dom a)"
  shows "card (dom a') \<le> Suc (card (dom a))"
proof -
  have shrink: "card (dom a'') \<le> Suc (card (dom a))" if "dom a'' \<subseteq> dom a" for a''
    using that assms(2) by (simp add: card_mono le_SucI)
  from assms(1) show ?thesis
  proof cases
    case (spec_Store k v)
    then show ?thesis using assms(2) by (auto simp: card_insert_if)
  next
    case (spec_Next k v ok)
    then have "dom a' \<subseteq> dom a" by (auto simp: next_result_def split: if_splits)
    then show ?thesis by (rule shrink)
  next
    case (spec_Delete ks)
    then have "dom a' \<subseteq> dom a" by auto
    then show ?thesis by (rule shrink)
  next
    case (spec_Pop k v ok)
    then have "dom a' \<subseteq> dom a" by auto
    then show ?thesis by (rule shrink)
  qed simp_all
qed

text \<open>
  The run of a map that does not overwrite: the whole interface, Len included, as long as the
  number of keys, with one more for each call, stays below \<open>2 ^ 63\<close>.
\<close>

lemma badger_map_run:
  assumes "badger_map_inv cd gen plain T kc api opn dbmap kfit vfit (mm_storage m)"
    and "\<not> mm_allowOverwrite m" and "badger_exact kc dbmap kfit (stored m)"
    and "list_all (call_ok (key_ok kc kfit) (adapter_vok cd plain T vfit)) cs"
    and "card (dom (badger_abs kc dbmap kfit (stored m))) + length cs < 2 ^ 63"
  shows "\<exists>rs m'. map_run (\<lambda>_::unit. badger_map_ops cd kc api zk) m (map (Pair ()) cs) = Ret (rs, m') \<and>
    badger_map_inv cd gen plain T kc api opn dbmap kfit vfit (mm_storage m') \<and>
    spec_run zk (cd_zero cd) False (adapter_abs cd (badger_abs kc dbmap kfit) (mm_storage m)) cs rs
      (adapter_abs cd (badger_abs kc dbmap kfit) (mm_storage m'))"
  using assms
proof (induction cs arbitrary: m)
  case Nil
  then show ?case by (simp add: spec_run_Nil)
next
  case (Cons c cs)
  let ?A = "\<lambda>m. adapter_abs cd (badger_abs kc dbmap kfit) (mm_storage m)"
  note inv = Cons.prems(1) and over = Cons.prems(2)
  have ok: "call_ok (key_ok kc kfit) (adapter_vok cd plain T vfit) c" using Cons.prems(4) by simp
  have doms: "dom (?A m) = dom (badger_abs kc dbmap kfit (stored m))" by (rule adapter_dom[OF inv])
  have small: "card (dom (badger_abs kc dbmap kfit (stored m))) < 2 ^ 63" using Cons.prems(5) by simp
  have "\<exists>r m1. map_exec (badger_map_ops cd kc api zk) m c = Ret (r, m1) \<and>
      badger_map_inv cd gen plain T kc api opn dbmap kfit vfit (mm_storage m1) \<and>
      mm_allowOverwrite m1 = mm_allowOverwrite m \<and>
      spec_step zk (cd_zero cd) (mm_allowOverwrite m) (?A m) c r (?A m1)"
  proof (cases "c = CLen")
    case False
    then show ?thesis using badger_map.map_exec_refines_but_Len[OF _ inv ok] by simp
  next
    case True
    obtain s' where s': "badger_Len api (stored m) =
        Ret (int (card (dom (badger_abs kc dbmap kfit (stored m)))), s')"
      "badger_inv kc api opn dbmap kfit vfit s'"
      "badger_abs kc dbmap kfit s' = badger_abs kc dbmap kfit (stored m)"
      using badger_exact_Len[OF adapter_invD(3)[OF inv] Cons.prems(3) small] by blast
    then have r: "badger_abs kc dbmap kfit s' = badger_abs kc dbmap kfit (stored m) |` UNIV" by simp
    from badger_mp.adapter_shrink[OF inv s'(2) r] s'(1) True doms show ?thesis
      by (simp add: Map_Len_def adapter_ops_def adapter_Len_def badger_ops_def)
  qed
  then obtain r m1 where s: "map_exec (badger_map_ops cd kc api zk) m c = Ret (r, m1)"
    "badger_map_inv cd gen plain T kc api opn dbmap kfit vfit (mm_storage m1)"
    "\<not> mm_allowOverwrite m1" "spec_step zk (cd_zero cd) False (?A m) c r (?A m1)"
    using over by auto
  have ex: "badger_exact kc dbmap kfit (stored m1)"
    by (rule badger_map_exact[OF inv over ok s(1) Cons.prems(3)])
  have "card (dom (badger_abs kc dbmap kfit (stored m1))) \<le>
      Suc (card (dom (badger_abs kc dbmap kfit (stored m))))"
    using spec_step_card[OF s(4)] badger_finite[OF adapter_invD(3)[OF inv]]
    unfolding doms adapter_dom[OF s(2)] by blast
  then have "card (dom (badger_abs kc dbmap kfit (stored m1))) + length cs < 2 ^ 63"
    using Cons.prems(5) by simp
  from Cons.IH[OF s(2,3) ex _ this] Cons.prems(4) obtain rs m' where
    "map_run (\<lambda>_::unit. badger_map_ops cd kc api zk) m1 (map (Pair ()) cs) = Ret (rs, m')"
    "badger_map_inv cd gen plain T kc api opn dbmap kfit vfit (mm_storage m')"
    "spec_run zk (cd_zero cd) False (?A m1) cs rs (?A m')" by auto
  with s(1,4) show ?case by (auto intro: spec_run_Cons)
qed

end
