(* ===== verification/Opening.thy ===== *)
theory Opening
  imports Badger_Map
begin

text \<open>
  From options to maps: what the constructors of the persistent storages hand over to the methods,
  given what the databases hold when they are opened, and what a later process that opens the
  same data sees through its adapter.
\<close>

section \<open>SQLite\<close>

text \<open>
  The documented behaviour of the calls the constructor makes: the pool's bounds and the pragmas
  leave the tables alone, \<open>CREATE TABLE IF NOT EXISTS\<close> adds an empty table or leaves the one that
  is there, and an index changes no table.
\<close>

definition opens_ok ::
  "'db sqlite_open_api \<Rightarrow> ('db, 'tx) sqlite_api \<Rightarrow> ('db \<Rightarrow> bool) \<Rightarrow> ('db \<Rightarrow> string \<rightharpoonup> (bytes \<rightharpoonup> bytes)) \<Rightarrow>
    sqliteOpts \<Rightarrow> 'db \<Rightarrow> bool" where
  "opens_ok os api up tabs opts db0 \<longleftrightarrow>
     (let tn = sq_opt_tableName opts in
      so_mkdir os (dbPath opts) = None \<and> so_open os (sqlite_dsn opts) = Inr db0 \<and> up db0 \<and>
      (\<forall>db n i. up db \<longrightarrow> up (so_pool os db n i) \<and> tabs (so_pool os db n i) = tabs db) \<and>
      (\<forall>db. up db \<longrightarrow> so_ping os db = None) \<and>
      (\<forall>db p v. up db \<longrightarrow>
         (\<exists>db'. sq_exec api db (pragma_sql p v) [] = (None, db') \<and> up db' \<and> tabs db' = tabs db)) \<and>
      (\<forall>db. up db \<longrightarrow> (\<exists>db'. sq_exec api db (create_table_sql tn) [] = (None, db') \<and> up db' \<and>
         tabs db' = (tabs db)(tn \<mapsto> (case tabs db tn of None \<Rightarrow> Map.empty | Some m \<Rightarrow> m)))) \<and>
      (\<forall>db. up db \<longrightarrow>
         (\<exists>db'. sq_exec api db (create_index_sql tn) [] = (None, db') \<and> up db' \<and> tabs db' = tabs db)))"

text \<open>The table the options name, or an empty one.\<close>

definition old_table ::
  "('db \<Rightarrow> string \<rightharpoonup> (bytes \<rightharpoonup> bytes)) \<Rightarrow> sqliteOpts \<Rightarrow> 'db \<Rightarrow> bytes \<rightharpoonup> bytes" where
  "old_table tabs opts db =
     (case tabs db (sq_opt_tableName opts) of None \<Rightarrow> Map.empty | Some m \<Rightarrow> m)"

lemma opens_okD:
  assumes "opens_ok os api up tabs opts db0"
  shows "so_mkdir os (dbPath opts) = None" "so_open os (sqlite_dsn opts) = Inr db0" "up db0"
    and "up db \<Longrightarrow> up (so_pool os db n i)" "up db \<Longrightarrow> tabs (so_pool os db n i) = tabs db"
    and "up db \<Longrightarrow> so_ping os db = None"
    and "up db \<Longrightarrow>
      \<exists>db'. sq_exec api db (pragma_sql p v) [] = (None, db') \<and> up db' \<and> tabs db' = tabs db"
    and "up db \<Longrightarrow> \<exists>db'. sq_exec api db (create_table_sql (sq_opt_tableName opts)) [] = (None, db') \<and>
      up db' \<and> tabs db' = (tabs db)(sq_opt_tableName opts \<mapsto>
        (case tabs db (sq_opt_tableName opts) of None \<Rightarrow> Map.empty | Some m \<Rightarrow> m))"
    and "up db \<Longrightarrow> \<exists>db'. sq_exec api db (create_index_sql (sq_opt_tableName opts)) [] = (None, db') \<and>
      up db' \<and> tabs db' = tabs db"
  using assms unfolding opens_ok_def Let_def by (blast, blast, blast, blast, blast, blast, blast, blast, blast)

lemma set_pragmas_spec:
  assumes "\<And>db p v. up db \<Longrightarrow>
      \<exists>db'. sq_exec api db (pragma_sql p v) [] = (None, db') \<and> up db' \<and> tabs db' = tabs db"
    and "up db"
  shows "\<exists>db'. set_pragmas api ps db = Ret db' \<and> up db' \<and> tabs db' = tabs db"
  using assms(2)
proof (induction ps arbitrary: db)
  case Nil
  then show ?case by simp
next
  case (Cons x ps)
  obtain p v where x: "x = (p, v)" by force
  obtain db1 where "sq_exec api db (pragma_sql p v) [] = (None, db1)" "up db1" "tabs db1 = tabs db"
    using assms(1)[OF Cons.prems] by blast
  with Cons.IH[of db1] x show ?case by simp
qed

text \<open>
  The constructor returns a storage that satisfies the invariant of the methods, over the table it
  was told to use, with the entries that were there.
\<close>

lemma sqlite_constructor_opens_table:
  assumes opts: "opts = apply_opts optfuncs getDefaultSQLiteOptions" and opens: "opens_ok os api up tabs opts db0"
    and "sqlite_ok api up tabs txtabs ident kfit vfit" "ident (sq_opt_tableName opts)"
    and "keys_decode kc kfit (old_table tabs opts db0)" "\<forall>v \<in> ran (old_table tabs opts db0). vfit v"
  shows "\<exists>s. NewMightyMapSQLiteStorage os api ord optfuncs = Ret s \<and>
    sqlite_inv kc api up tabs txtabs ident kfit vfit s \<and>
    sqlite_abs kc tabs kfit s = key_map kc kfit (old_table tabs opts db0) \<and>
    cacheDuration s = cacheCountDuration opts"
proof -
  note o = opens_okD[OF opens]
  let ?tn = "sq_opt_tableName opts"
  let ?db1 = "so_pool os db0 (maxOpenConns opts) (maxIdleConns opts)"
  note db1 = o(4,5)[OF o(3)]
  obtain db2 where db2: "set_pragmas api (ord (pragmas opts)) ?db1 = Ret db2" "up db2"
    "tabs db2 = tabs db0"
    using set_pragmas_spec[OF o(7) db1(1)] unfolding db1(2) by blast
  obtain db3 where db3: "sq_exec api db2 (create_table_sql ?tn) [] = (None, db3)" "up db3"
    "tabs db3 = (tabs db2)(?tn \<mapsto> old_table tabs opts db0)"
    using o(8)[OF db2(2)] unfolding old_table_def db2(3) by blast
  obtain db4 where db4: "sq_exec api db3 (create_index_sql ?tn) [] = (None, db4)" "up db4"
    "tabs db4 = tabs db3"
    using o(9)[OF db3(2)] by blast
  let ?s = "\<lparr>sl_db = db4, countCache = -1, lastCount = None, tableName = ?tn,
    cacheDuration = cacheCountDuration opts\<rparr>"
  have tbl: "sqlite_table tabs ?s = old_table tabs opts db0" by (simp add: sqlite_table_def db4(3) db3(3))
  have "NewMightyMapSQLiteStorage os api ord optfuncs = Ret ?s"
    by (simp add: NewMightyMapSQLiteStorage_def opts[symmetric] Let_def exec_or_panic_def
        o(1,2) o(6)[OF db1(1)] db2(1) db3(1) db4(1))
  moreover have "sqlite_inv kc api up tabs txtabs ident kfit vfit ?s"
    using assms(3-6) db4(2,3) db3(3) unfolding sqlite_inv_def tbl by simp
  ultimately show ?thesis using tbl by (simp add: sqlite_abs_def)
qed

section \<open>Redis\<close>

text \<open>The client the constructor makes, and a storage over the part of the key space under its prefix.\<close>

definition redis_client ::
  "('t redis_client_options \<Rightarrow> 'db) \<Rightarrow> ('m \<Rightarrow> string) \<Rightarrow> 't \<Rightarrow> ('t, 'm) redisOpts \<Rightarrow> 'db" where
  "redis_client new_client runT empty_tls opts =
     new_client (redis_client_options_of runT (redis_final_opts empty_tls opts))"

lemma redis_constructor_opens_prefix:
  assumes opts: "opts = apply_opts optfuncs getDefaultRedisOptions"
    and db: "db = redis_client new_client runT empty_tls opts"
    and ok: "redis_ok api up dbmap fit" "up db"
    and p: "prefix opts \<noteq> []" "glob_free (prefix opts)"
    and "keys_decode kc (\<lambda>b. fit (prefix opts @ b)) (cut_prefix (prefix opts) (dbmap db))"
    and "\<forall>v \<in> ran (cut_prefix (prefix opts) (dbmap db)). fit v"
  shows "redis_inv kc api up dbmap fit (prefix opts)
      (NewMightyMapRedisStorage new_client runT empty_tls optfuncs)"
    and "redis_abs kc dbmap fit (prefix opts) (NewMightyMapRedisStorage new_client runT empty_tls optfuncs) =
      key_map kc (\<lambda>b. fit (prefix opts @ b)) (cut_prefix (prefix opts) (dbmap db))"
proof -
  let ?fin = "redis_final_opts empty_tls opts"
  have f: "prefix ?fin = prefix opts" by (simp_all add: redis_final_opts_def)
  have s: "NewMightyMapRedisStorage new_client runT empty_tls optfuncs = \<lparr>rs_client = db, rs_opts = ?fin\<rparr>"
    unfolding NewMightyMapRedisStorage_def opts[symmetric] db redis_client_def Let_def ..
  show "redis_inv kc api up dbmap fit (prefix opts)
      (NewMightyMapRedisStorage new_client runT empty_tls optfuncs)"
    unfolding s redis_inv_def using assms(3-) f by simp
  show "redis_abs kc dbmap fit (prefix opts) (NewMightyMapRedisStorage new_client runT empty_tls optfuncs) =
      key_map kc (\<lambda>b. fit (prefix opts @ b)) (cut_prefix (prefix opts) (dbmap db))"
    unfolding s redis_abs_def by simp
qed

lemma redis_opens_empty:
  assumes opts: "opts = apply_opts optfuncs getDefaultRedisOptions" "prefix opts = p"
    and p: "p \<noteq> []" "glob_free p"
    and db: "db = redis_client new_client runT empty_tls opts"
    and server: "redis_ok api up dbmap fit" "up db" and none: "cut_prefix p (dbmap db) = Map.empty"
  shows "redis_inv kc api up dbmap fit p (NewMightyMapRedisStorage new_client runT empty_tls optfuncs)"
    and "redis_abs kc dbmap fit p (NewMightyMapRedisStorage new_client runT empty_tls optfuncs) = Map.empty"
proof -
  have e: "keys_decode kc (\<lambda>b. fit (prefix opts @ b)) (cut_prefix (prefix opts) (dbmap db))"
    "\<forall>v \<in> ran (cut_prefix (prefix opts) (dbmap db)). fit v"
    by (simp_all add: opts(2) none keys_decode_def)
  from redis_constructor_opens_prefix[OF opts(1) db server p[folded opts(2)] e]
  show "redis_inv kc api up dbmap fit p (NewMightyMapRedisStorage new_client runT empty_tls optfuncs)"
    and "redis_abs kc dbmap fit p (NewMightyMapRedisStorage new_client runT empty_tls optfuncs) = Map.empty"
    unfolding opts(2) none by simp_all
qed

section \<open>BadgerDB\<close>

lemma badger_constructor_opens:
  assumes opts: "opts = apply_opts optfuncs defaults" and opn: "bopen (badger_options_of opts) = Inr db"
    and ok: "badger_ok api opn dbmap kfit vfit" "opn db"
    and "keys_decode kc kfit (dbmap db)" "\<forall>v \<in> ran (dbmap db). vfit v"
  shows "\<exists>s. NewMightyMapBadgerStorage bopen defaults optfuncs = Ret (s, gc_goroutine opts) \<and>
    badger_inv kc api opn dbmap kfit vfit s \<and> badger_abs kc dbmap kfit s = key_map kc kfit (dbmap db) \<and>
    \<not> bg_initLenCall s"
  using assms(2-) by (simp add: NewMightyMapBadgerStorage_def opts[symmetric] Let_def badger_inv_def badger_abs_def)

section \<open>Opening again\<close>

lemma encodes_concrete:
  "encodes cd reg v b \<Longrightarrow> type_Kind (cd_type cd) \<noteq> Interface \<Longrightarrow> encodes cd reg' v b"
  unfolding encodes_def by (metis fst_wrap_value)

text \<open>
  A process with another registry, over a storage with the same bytes, sees the same map, if V is
  no interface or the registry knows the types that were registered.
\<close>

lemma adapter_reopen:
  assumes inv: "adapter_inv cd gen plain T vok sinv amap m" and s: "sinv s" "amap s = amap (ad_storage m)"
    and reg: "registry_ok T reg"
    and known: "type_Kind (cd_type cd) \<noteq> Interface \<or> ad_registry m \<subseteq>\<^sub>m reg"
  shows "adapter_inv cd gen plain T vok sinv amap (newMsgpackAdapter s reg)"
    and "adapter_abs cd amap (newMsgpackAdapter s reg) = adapter_abs cd amap m"
proof -
  note d = adapter_invD[OF inv]
  have enc: "encodes cd reg v b" if "encodes cd (ad_registry m) v b" for v b
    using known encodes_concrete[OF that] encodes_mono[OF that] by blast
  show i: "adapter_inv cd gen plain T vok sinv amap (newMsgpackAdapter s reg)"
    unfolding adapter_inv_def newMsgpackAdapter_def
    using d(1) reg s d(4) enc by (metis adapter.select_convs)
  show "adapter_abs cd amap (newMsgpackAdapter s reg) = adapter_abs cd amap m"
  proof
    fix k
    show "adapter_abs cd amap (newMsgpackAdapter s reg) k = adapter_abs cd amap m k"
    proof (cases "amap (ad_storage m) k")
      case None
      then show ?thesis by (simp add: s(2) newMsgpackAdapter_def)
    next
      case (Some b)
      obtain v where v: "adapter_vok cd plain T vok v" "encodes cd (ad_registry m) v b"
        "adapter_abs cd amap m k = Some v"
        using adapter_decode[OF inv Some] by metis
      have "msgpackDecodeValue cd reg b = Ret (Inr v)"
        using msgpack_roundtrip_decode[OF d(1) reg _ enc[OF v(2)]] v(1) by (simp add: adapter_vok_def)
      with Some v(3) show ?thesis by (simp add: adapter_abs_def s(2) newMsgpackAdapter_def decode_opt_def)
    qed
  qed
qed

section \<open>SQLite behind the adapter\<close>

lemma sqlite_opens_empty:
  assumes "opts = apply_opts optfuncs getDefaultSQLiteOptions" "opens_ok os api up tabs opts db0"
    and "sqlite_ok api up tabs txtabs ident kfit vfit" "ident (sq_opt_tableName opts)"
    and old: "old_table tabs opts db0 = Map.empty"
  shows "\<exists>s. NewMightyMapSQLiteStorage os api ord optfuncs = Ret s \<and>
    sqlite_inv kc api up tabs txtabs ident kfit vfit s \<and> sqlite_abs kc tabs kfit s = Map.empty"
proof -
  have "keys_decode kc kfit (old_table tabs opts db0)" "\<forall>v \<in> ran (old_table tabs opts db0). vfit v"
    by (simp_all add: old keys_decode_def)
  from sqlite_constructor_opens_table[OF assms(1-4) this, of ord]
  show ?thesis unfolding old by auto
qed

lemma sqlite_new_adapter:
  assumes "opts = apply_opts optfuncs getDefaultSQLiteOptions" "opens_ok os api up tabs opts db0"
    and "sqlite_ok api up tabs txtabs ident kfit vfit" "ident (sq_opt_tableName opts)"
    and "old_table tabs opts db0 = Map.empty"
    and "msgpack_ok (cd_mp cd) gen plain" "registry_ok T reg"
  shows "\<exists>s. NewMightyMapSQLiteStorage os api ord optfuncs = Ret s \<and>
    adapter_inv cd gen plain T vfit (sqlite_inv kc api up tabs txtabs ident kfit vfit)
      (sqlite_abs kc tabs kfit) (newMsgpackAdapter s reg) \<and>
    adapter_abs cd (sqlite_abs kc tabs kfit) (newMsgpackAdapter s reg) = Map.empty"
proof -
  let ?inv = "sqlite_inv kc api up tabs txtabs ident kfit vfit" and ?abs = "sqlite_abs kc tabs kfit"
  obtain s where s: "NewMightyMapSQLiteStorage os api ord optfuncs = Ret s" "?inv s" "?abs s = Map.empty"
    using sqlite_opens_empty[OF assms(1-5), of ord kc] by blast
  note f = adapter_fresh[where sinv = ?inv and amap = ?abs, OF assms(6,7) s(2,3)]
  with s(1) show ?thesis by blast
qed

text \<open>
  A later process that finds in its table what a map had left there: with a V that is no interface
  it sees that map.
\<close>

lemma sqlite_reopened_adapter:
  assumes "opts = apply_opts optfuncs getDefaultSQLiteOptions" "opens_ok os api up tabs opts db"
    and "sqlite_ok api up tabs txtabs ident kfit vfit" "ident (sq_opt_tableName opts)"
    and old: "adapter_inv cd gen plain T vfit (sqlite_inv kc api up tabs txtabs ident kfit vfit)
      (sqlite_abs kc tabs kfit) a1"
    and same: "old_table tabs opts db = sqlite_table tabs (ad_storage a1)"
    and reg: "registry_ok T reg"
    and known: "type_Kind (cd_type cd) \<noteq> Interface \<or> ad_registry a1 \<subseteq>\<^sub>m reg"
  shows "\<exists>s. NewMightyMapSQLiteStorage os api ord optfuncs = Ret s \<and>
    adapter_inv cd gen plain T vfit (sqlite_inv kc api up tabs txtabs ident kfit vfit)
      (sqlite_abs kc tabs kfit) (newMsgpackAdapter s reg) \<and>
    adapter_abs cd (sqlite_abs kc tabs kfit) (newMsgpackAdapter s reg) =
      adapter_abs cd (sqlite_abs kc tabs kfit) a1"
proof -
  let ?inv = "sqlite_inv kc api up tabs txtabs ident kfit vfit" and ?abs = "sqlite_abs kc tabs kfit"
  have i: "?inv (ad_storage a1)" using adapter_invD(3)[OF old] .
  have "keys_decode kc kfit (old_table tabs opts db)" "\<forall>v \<in> ran (old_table tabs opts db). vfit v"
    using i unfolding same sqlite_inv_def by auto
  from sqlite_constructor_opens_table[OF assms(1-4) this, of ord]
  obtain s where s: "NewMightyMapSQLiteStorage os api ord optfuncs = Ret s" "?inv s"
    "?abs s = key_map kc kfit (sqlite_table tabs (ad_storage a1))" unfolding same by blast
  have a: "?abs s = ?abs (ad_storage a1)" by (simp add: s(3) sqlite_abs_def[of _ _ _ "ad_storage a1"])
  note r = adapter_reopen[where sinv = ?inv and amap = ?abs, OF old s(2) a reg known]
  with s(1) show ?thesis by blast
qed

end
