(* ===== verification/Instances.thy ===== *)
theory Instances
  imports Opening
begin

text \<open>
  Concrete third-party components, small enough to compute with, which meet what the contracts
  assume of them: a MessagePack codec for strings, numbers and nil, a key codec, and databases
  that are lists of entries. The properties are applied to them at concrete inputs, which shows
  that the assumptions can hold together.
\<close>

section \<open>Codecs\<close>

definition str_keys :: "string key_codec" where
  "str_keys = \<lparr>key_marshal = Inr, key_unmarshal = Inr\<rparr>"

lemma str_keys_ok [simp]: "key_ok str_keys fit k \<longleftrightarrow> fit k"
  by (simp add: key_ok_def str_keys_def)

lemma str_keys_map [simp]: "key_map str_keys (\<lambda>_. True) m = m"
  by (auto simp: key_map_def str_keys_def key_ok_def fun_eq_iff)

lemma str_keys_decode [simp]: "keys_decode str_keys (\<lambda>_. True) m"
  by (simp add: keys_decode_def) (simp add: str_keys_def)

text \<open>
  Strings are encoded after the letter S, numbers in unary after I, pointers to numbers after P (or,
  outside a wrapper, as the number), and nil as N; other values are an error.
\<close>

abbreviation int_type :: gotype where
  "int_type \<equiv> Basic ''int''"

fun toy_gen :: "nat goval \<Rightarrow> nat goval" where
  "toy_gen (GVal t n) = GVal (if t = PtrTo int_type then int_type else t) n"
| "toy_gen v = v"

fun toy_encode :: "nat goval \<Rightarrow> err + bytes" where
  "toy_encode (GStr s) = Inr (CHR ''S'' # s)"
| "toy_encode (GVal t n) =
     (if t = int_type then Inr (CHR ''I'' # replicate n (CHR ''1''))
      else if t = PtrTo int_type then Inr (CHR ''P'' # replicate n (CHR ''1''))
      else Inl ''unsupported type'')"
| "toy_encode GNil = Inr ''N''"

fun toy_decode :: "bytes \<Rightarrow> err + nat goval" where
  "toy_decode (c # s) =
     (if c = CHR ''S'' then Inr (GStr s)
      else if c = CHR ''I'' then Inr (GVal int_type (length s))
      else if c = CHR ''P'' then Inr (GVal (PtrTo int_type) (length s))
      else if c = CHR ''N'' then Inr GNil else Inl ''invalid code'')"
| "toy_decode [] = Inl ''EOF''"

fun toy_as :: "gotype \<Rightarrow> nat goval \<Rightarrow> nat goval" where
  "toy_as t (GVal t' n) = GVal (if type_Kind t = Interface then int_type else t) n"
| "toy_as t v = v"

definition toy_wrapper :: "nat goval \<Rightarrow> (string, nat goval) gomap" where
  "toy_wrapper v = fst (wrap_value Map.empty v)"

definition toy_mp :: "nat msgpack" where
  "toy_mp =
     \<lparr>marshal_map = \<lambda>w. (case map_of w ''data'' of
          None \<Rightarrow> Inl ''no data''
        | Some v \<Rightarrow> if w = toy_wrapper v then toy_encode v else Inl ''unsupported map''),
      unmarshal_map = \<lambda>b. (case toy_decode b of
          Inl e \<Rightarrow> Inl e | Inr v \<Rightarrow> Inr (map (\<lambda>(k, x). (k, toy_gen x)) (toy_wrapper v))),
      marshal = \<lambda>v. toy_encode (toy_gen v),
      unmarshal = \<lambda>t b. (case toy_decode b of Inl e \<Rightarrow> Inl e | Inr v \<Rightarrow>
          (let x = toy_as t v in
           if type_Kind t = Interface \<or> typeOf x = Some t then Inr x else Inl ''invalid type''))\<rparr>"

lemma toy_decode_encode: "toy_encode v = Inr b \<Longrightarrow> b \<noteq> [] \<and> toy_decode b = Inr v"
  by (cases v) (auto split: if_splits)

text \<open>The values of Go's types \<open>int\<close>, \<open>*int\<close> and \<open>string\<close>, and nil.\<close>

definition toy_values :: "nat goval \<Rightarrow> bool" where
  "toy_values v \<longleftrightarrow> (case v of GVal t n \<Rightarrow> t = int_type \<or> t = PtrTo int_type | _ \<Rightarrow> True)"

lemma toy_encode_total:
  "toy_values v \<Longrightarrow> \<exists>b. toy_encode (toy_gen v) = Inr b \<and> toy_decode b = Inr (toy_gen v)"
  by (cases v) (auto simp: toy_values_def)

lemma toy_as_type: "toy_values v \<Longrightarrow> typeOf v = Some t \<Longrightarrow> toy_as t (toy_gen v) = v"
  by (cases v) (auto simp: toy_values_def)

lemma toy_gen_gen [simp]: "toy_gen (toy_gen v) = toy_gen v"
  by (cases v) auto

lemma toy_as_iface [simp]: "toy_values v \<Longrightarrow> toy_as (Iface i) (toy_gen v) = toy_gen v"
  by (cases v) (auto simp: toy_values_def)

lemma toy_mp_ok: "msgpack_ok toy_mp toy_gen toy_values"
proof -
  have m: "b \<noteq> [] \<and> (\<exists>w'. unmarshal_map toy_mp b = Inr w' \<and> map_of w' = map_option toy_gen \<circ> map_of w)"
    if "marshal_map toy_mp w = Inr b" for w b
  proof -
    from that obtain v where "w = toy_wrapper v" "toy_encode v = Inr b"
      by (auto simp: toy_mp_def split: option.splits if_splits)
    then show ?thesis
      using toy_decode_encode[of v b] by (simp add: toy_mp_def map_of_map)
  qed
  have t: "\<exists>b. marshal toy_mp (toy_gen v) = Inr b \<and> unmarshal toy_mp t b = Inr v"
    if v: "toy_values v" "typeOf v = Some t" for v t
    using toy_encode_total[OF v(1)] toy_as_type[OF v] v(2) by (auto simp: toy_mp_def)
  have i: "\<exists>b. marshal toy_mp (toy_gen v) = Inr b \<and> unmarshal toy_mp (Iface i) b = Inr (toy_gen v)"
    if v: "toy_values v" for v i
    using toy_encode_total[OF v] v by (auto simp: toy_mp_def)
  show ?thesis
    unfolding msgpack_ok_def
  proof (intro conjI allI impI)
    fix w b assume "marshal_map toy_mp w = Inr b"
    from m[OF this] show "b \<noteq> []"
      and "\<exists>w'. unmarshal_map toy_mp b = Inr w' \<and> map_of w' = map_option toy_gen \<circ> map_of w"
      by blast+
  next
    fix v t assume "toy_values v \<and> typeOf v = Some t"
    then show "\<exists>b. marshal toy_mp (toy_gen v) = Inr b \<and> unmarshal toy_mp t b = Inr v"
      using t by blast
  next
    fix v i assume "toy_values v"
    then show "\<exists>b. marshal toy_mp (toy_gen v) = Inr b \<and> unmarshal toy_mp (Iface i) b = Inr (toy_gen v)"
      by (rule i)
  qed simp_all
qed

text \<open>Two instances of V: the type \<open>int\<close>, and \<open>interface{}\<close>.\<close>

definition int_codec :: "nat codec" where
  "int_codec =
     \<lparr>cd_mp = toy_mp, cd_type = int_type, cd_zero = GVal int_type 0, cd_implements = \<lambda>_. True\<rparr>"

definition any_codec :: "nat codec" where
  "any_codec =
     \<lparr>cd_mp = toy_mp, cd_type = Iface ''interface {}'', cd_zero = GNil, cd_implements = \<lambda>_. True\<rparr>"

lemma int_codec_mp: "cd_mp int_codec = toy_mp" "cd_mp any_codec = toy_mp"
  by (simp_all add: int_codec_def any_codec_def)

abbreviation toy_types :: "gotype set" where
  "toy_types \<equiv> {int_type, Basic ''string''}"

lemma toy_registry_ok [simp]: "registry_ok toy_types Map.empty"
  by (simp add: registry_ok_def inj_on_def)

lemma toy_marshal_wrapped:
  "marshal_map toy_mp (fst (wrap_value reg v)) = toy_encode v"
  using fst_wrap_value[of reg v Map.empty]
  by (simp add: toy_mp_def toy_wrapper_def wrap_value_lookup)

lemma toy_encode_value: "fst (msgpackEncodeValue toy_mp reg v) =
    (case toy_encode v of Inl e \<Rightarrow> Inl (''failed to msgpack encode value: '' @ e) | Inr b \<Rightarrow> Inr b)"
  using toy_marshal_wrapped[of reg v]
  by (auto simp: msgpackEncodeValue_def split: prod.splits sum.splits)

lemma int_storable [simp]: "storable int_codec toy_values toy_types (GVal int_type n)"
  by (simp add: storable_def int_codec_def toy_values_def toy_encode_value)

lemma any_storable [simp]: "storable any_codec toy_values toy_types (GStr s)"
  by (simp add: storable_def any_codec_def toy_values_def toy_encode_value)

lemma any_storable_int [simp]: "storable any_codec toy_values toy_types (GVal int_type n)"
  by (simp add: storable_def any_codec_def toy_values_def toy_encode_value)

lemma toy_vok [simp]: "adapter_vok cd plain T (\<lambda>_. True) v \<longleftrightarrow> storable cd plain T v"
  by (simp add: adapter_vok_def)

text \<open>An adapter over an empty storage satisfies its invariant.\<close>

lemma adapter_inv_empty:
  assumes "sinv s" "amap s = Map.empty" "cd = int_codec \<or> cd = any_codec"
  shows "adapter_inv cd toy_gen toy_values toy_types vok sinv amap (newMsgpackAdapter s Map.empty)"
  using assms toy_mp_ok
  by (auto simp: adapter_inv_def newMsgpackAdapter_def int_codec_def any_codec_def)

lemma adapter_abs_empty:
  "amap s = Map.empty \<Longrightarrow> adapter_abs cd amap (newMsgpackAdapter s reg) = Map.empty"
  by (simp add: adapter_abs_def newMsgpackAdapter_def)

section \<open>Databases\<close>

type_synonym entries = "(bytes, bytes) gomap"

lemma enumerates_gomap [simp]: "gomap_ok m \<Longrightarrow> enumerates (map_of m) m"
  by (simp add: enumerates_def gomap_ok_def)

definition list_badger :: "entries badger_api" where
  "list_badger =
     \<lparr>bd_view = \<lambda>db. None,
      bd_get = \<lambda>db k. (case map_of db k of None \<Rightarrow> Inl ''Key not found'' | Some v \<Rightarrow> Inr (Inr v)),
      bd_set = \<lambda>db k v. Inr (AList.update k v db), bd_delete = \<lambda>db k. Inr (AList.delete k db),
      bd_items = \<lambda>db. map (apsnd Inr) db, bd_dropall = \<lambda>db. Inr [],
      bd_close = \<lambda>db. (None, db)\<rparr>"

lemma list_badger_ok: "badger_ok list_badger gomap_ok map_of (\<lambda>_. True) (\<lambda>_. True)"
  unfolding badger_ok_def
proof (intro allI impI)
  fix db :: entries assume ok: "gomap_ok db"
  then show "bd_view list_badger db = None \<and>
        (\<forall>k. map_of db k = None \<longrightarrow> (\<exists>e. bd_get list_badger db k = Inl e)) \<and>
        (\<forall>k v. map_of db k = Some v \<longrightarrow> bd_get list_badger db k = Inr (Inr v)) \<and>
        (\<forall>k v. True \<and> True \<longrightarrow>
           (\<exists>db'. bd_set list_badger db k v = Inr db' \<and> gomap_ok db' \<and> map_of db' = (map_of db)(k \<mapsto> v))) \<and>
        (\<forall>k. True \<longrightarrow>
           (\<exists>db'. bd_delete list_badger db k = Inr db' \<and> gomap_ok db' \<and>
              map_of db' = (map_of db)(k := None))) \<and>
        (\<exists>es. bd_items list_badger db = map (apsnd Inr) es \<and> enumerates (map_of db) es) \<and>
        (\<exists>db'. bd_dropall list_badger db = Inr db' \<and> gomap_ok db' \<and> map_of db' = Map.empty)"
    by (auto simp: list_badger_def kv_simps intro: exI[of _ db])
qed

lemma list_badger_inv:
  "gomap_ok (bg_db c) \<Longrightarrow> badger_inv str_keys list_badger gomap_ok map_of (\<lambda>_. True) (\<lambda>_. True) c"
  by (simp add: badger_inv_def list_badger_ok)

definition empty_badger :: "entries badger" where
  "empty_badger = \<lparr>bg_db = [], bg_len = 0, bg_initLenCall = False\<rparr>"

text \<open>A Redis server whose SCAN hands out one key first and the others with the next cursor.\<close>

definition list_scan :: "entries \<Rightarrow> 64 word \<Rightarrow> string \<Rightarrow> string list \<times> 64 word" where
  "list_scan db cursor pat =
     (let ks = filter (\<lambda>k. has_prefix k (butlast pat)) (map fst db)
      in if cursor = 0 then (take 1 ks, 1) else (drop 1 ks, 0))"

definition list_redis :: "entries redis_api" where
  "list_redis =
     \<lparr>rd_set = \<lambda>db k v ttl. Inr (AList.update k v db),
      rd_get = \<lambda>db k. (case map_of db k of None \<Rightarrow> Inl RedisNil | Some v \<Rightarrow> Inr v),
      rd_del = \<lambda>db k. Inr (AList.delete k db),
      rd_scan = \<lambda>db cursor pat n. Inr (list_scan db cursor pat),
      rd_close = \<lambda>db. (None, db)\<rparr>"

lemma list_scan_from:
  "scan_from list_redis db pat n 0 ks \<longleftrightarrow> ks = filter (\<lambda>k. has_prefix k (butlast pat)) (map fst db)"
proof -
  let ?ks = "filter (\<lambda>k. has_prefix k (butlast pat)) (map fst db)"
  have r: "rd_scan list_redis db 0 pat n = Inr (take 1 ?ks, 1)"
    "rd_scan list_redis db 1 pat n = Inr (drop 1 ?ks, 0)"
    by (simp_all add: list_redis_def list_scan_def Let_def)
  have l: "scan_from list_redis db pat n 1 xs \<longleftrightarrow> xs = drop 1 ?ks" for xs
    using r(2) by (subst scan_from.simps) auto
  have "scan_from list_redis db pat n 0 xs \<longleftrightarrow> xs = take 1 ?ks @ drop 1 ?ks" for xs
    using r(1) l by (subst scan_from.simps) auto
  then show ?thesis by simp
qed

lemma list_redis_ok: "redis_ok list_redis gomap_ok map_of (\<lambda>_. True)"
  unfolding redis_ok_def
proof (intro allI impI conjI)
  fix db :: entries and p n assume ok: "gomap_ok db"
  show "\<exists>ks. scan_from list_redis db (p @ ''*'') n 0 ks \<and>
      set ks = {k \<in> dom (map_of db). has_prefix k p}"
    by (auto simp: list_scan_from dom_map_of_conv_image_fst)
qed (auto simp: list_redis_def kv_simps)

lemma list_redis_once: "scan_once list_redis gomap_ok"
  by (simp add: scan_once_def list_scan_from gomap_ok_def)

text \<open>A server whose iterations hand out all keys, and then the first one again.\<close>

definition repeating_redis :: "entries redis_api" where
  "repeating_redis = list_redis\<lparr>rd_scan := \<lambda>db cursor pat n.
     Inr (let ks = filter (\<lambda>k. has_prefix k (butlast pat)) (map fst db)
          in if cursor = 0 then (ks, 1) else (take 1 ks, 0))\<rparr>"

lemma repeating_scan_from:
  "scan_from repeating_redis db pat n 0 ks \<longleftrightarrow>
    (let all = filter (\<lambda>k. has_prefix k (butlast pat)) (map fst db) in ks = all @ take 1 all)"
proof -
  let ?ks = "filter (\<lambda>k. has_prefix k (butlast pat)) (map fst db)"
  have r: "rd_scan repeating_redis db 0 pat n = Inr (?ks, 1)"
    "rd_scan repeating_redis db 1 pat n = Inr (take 1 ?ks, 0)"
    by (simp_all add: repeating_redis_def Let_def)
  have l: "scan_from repeating_redis db pat n 1 xs \<longleftrightarrow> xs = take 1 ?ks" for xs
    using r(2) by (subst scan_from.simps) auto
  have "scan_from repeating_redis db pat n 0 xs \<longleftrightarrow> xs = ?ks @ take 1 ?ks" for xs
    using r(1) l by (subst scan_from.simps) auto
  then show ?thesis by (simp add: Let_def)
qed

lemma repeating_redis_ok: "redis_ok repeating_redis gomap_ok map_of (\<lambda>_. True)"
  unfolding redis_ok_def
proof (intro allI impI conjI)
  fix db :: entries and p n assume ok: "gomap_ok db"
  show "\<exists>ks. scan_from repeating_redis db (p @ ''*'') n 0 ks \<and>
      set ks = {k \<in> dom (map_of db). has_prefix k p}"
    by (auto simp: repeating_scan_from Let_def dom_map_of_conv_image_fst dest!: in_set_takeD)
qed (auto simp: repeating_redis_def list_redis_def kv_simps)

text \<open>An SQL database with one table \<open>t\<close>, which answers the texts the code sends.\<close>

definition list_sqlite :: "(entries, entries) sqlite_api" where
  "list_sqlite =
     \<lparr>sq_query_row = \<lambda>db sql args.
        (if sql = load_sql ''t'' then
           (case map_of db (hd args) of None \<Rightarrow> Inl NoRows | Some v \<Rightarrow> Inr [v])
         else case db of [] \<Rightarrow> Inl NoRows | (k, v) # _ \<Rightarrow> Inr [k, v]),
      sq_query_int = \<lambda>db sql. Inr (int (length db)),
      sq_query = \<lambda>db sql. Inr (map (\<lambda>(k, v). Inr (if sql = keys_sql ''t'' then [k] else [k, v])) db),
      sq_exec = \<lambda>db sql args.
        (None, if sql = store_sql ''t'' then AList.update (args ! 0) (args ! 1) db
               else if sql = delete_sql ''t'' then AList.delete (args ! 0) db
               else if sql = clear_sql ''t'' then [] else db),
      sq_begin = Inr, sq_prepare = \<lambda>tx sql. None,
      sq_stmt_exec = \<lambda>tx sql args. (None, AList.delete (args ! 0) tx),
      sq_commit = \<lambda>tx. (None, tx), sq_rollback = \<lambda>tx. tx,
      sq_close = \<lambda>db. (None, db)\<rparr>"

definition list_tabs :: "entries \<Rightarrow> string \<rightharpoonup> (bytes \<rightharpoonup> bytes)" where
  "list_tabs db = [''t'' \<mapsto> map_of db]"

lemmas sql_texts =
  load_sql_def store_sql_def delete_sql_def range_sql_def keys_sql_def next_sql_def count_sql_def
  clear_sql_def


definition list_txtabs :: "entries \<Rightarrow> string \<rightharpoonup> (bytes \<rightharpoonup> bytes)" where
  "list_txtabs tx = (if gomap_ok tx then list_tabs tx else Map.empty)"

lemma list_tabs_upd: "list_tabs db = (list_tabs db')(''t'' \<mapsto> map_of db)"
  by (simp add: list_tabs_def)

lemma list_sqlite_tx_ok: "tx_ok list_sqlite gomap_ok list_tabs list_txtabs ''t''"
  by (auto simp: tx_ok_def list_sqlite_def list_txtabs_def list_tabs_def kv_simps split: if_splits)

lemma list_sqlite_query_ok: "query_ok list_sqlite gomap_ok list_tabs ''t''"
  unfolding query_ok_def
proof (intro allI impI)
  fix db :: entries and m assume a: "gomap_ok db \<and> list_tabs db ''t'' = Some m"
  then have ok: "gomap_ok db" and m: "m = map_of db" by (simp_all add: list_tabs_def)
  have load: "sq_query_row list_sqlite db (load_sql ''t'') [k] =
      (case m k of None \<Rightarrow> Inl NoRows | Some v \<Rightarrow> Inr [v])" for k
    by (simp add: list_sqlite_def m)
  have range: "\<exists>es. enumerates m es \<and>
      sq_query list_sqlite db (range_sql ''t'') = Inr (map (\<lambda>(k, v). Inr [k, v]) es)"
    using ok by (intro exI[of _ db]) (simp add: list_sqlite_def m range_sql_def keys_sql_def)
  have keys: "\<exists>es. enumerates m es \<and>
      sq_query list_sqlite db (keys_sql ''t'') = Inr (map (\<lambda>(k, v). Inr [k]) es)"
    using ok by (intro exI[of _ db]) (simp add: list_sqlite_def m)
  have nxt: "if m = Map.empty then sq_query_row list_sqlite db (next_sql ''t'') [] = Inl NoRows
      else \<exists>k v. m k = Some v \<and> sq_query_row list_sqlite db (next_sql ''t'') [] = Inr [k, v]"
    by (cases db) (auto simp: list_sqlite_def m next_sql_def load_sql_def split: prod.splits)
  have cnt: "sq_query_int list_sqlite db (count_sql ''t'') = Inr (int (card (dom m)))"
    using card_dom_gomap[OF ok] by (simp add: list_sqlite_def m)
  show "(\<forall>k. sq_query_row list_sqlite db (load_sql ''t'') [k] =
           (case m k of None \<Rightarrow> Inl NoRows | Some v \<Rightarrow> Inr [v])) \<and>
        (\<exists>es. enumerates m es \<and>
           sq_query list_sqlite db (range_sql ''t'') = Inr (map (\<lambda>(k, v). Inr [k, v]) es)) \<and>
        (if m = Map.empty then sq_query_row list_sqlite db (next_sql ''t'') [] = Inl NoRows
         else \<exists>k v. m k = Some v \<and> sq_query_row list_sqlite db (next_sql ''t'') [] = Inr [k, v]) \<and>
        (\<exists>es. enumerates m es \<and>
           sq_query list_sqlite db (keys_sql ''t'') = Inr (map (\<lambda>(k, v). Inr [k]) es)) \<and>
        sq_query_int list_sqlite db (count_sql ''t'') = Inr (int (card (dom m)))"
    by (intro conjI allI) (fact load range nxt keys cnt)+
qed

lemma list_sqlite_exec_ok: "exec_ok list_sqlite gomap_ok list_tabs (\<lambda>_. True) (\<lambda>_. True) ''t''"
  by (auto simp: exec_ok_def list_sqlite_def list_tabs_def kv_simps sql_texts)

definition t_ident :: "string \<Rightarrow> bool" where
  "t_ident tn \<longleftrightarrow> tn = ''t''"

lemma list_sqlite_ok:
  "sqlite_ok list_sqlite gomap_ok list_tabs list_txtabs t_ident (\<lambda>_. True) (\<lambda>_. True)"
  by (simp add: sqlite_ok_def t_ident_def list_sqlite_tx_ok list_sqlite_query_ok list_sqlite_exec_ok)

definition empty_sqlite :: "int \<Rightarrow> entries sqlite" where
  "empty_sqlite d =
     \<lparr>sl_db = [], countCache = -1, lastCount = None, tableName = ''t'', cacheDuration = d\<rparr>"

lemma empty_sqlite_table [simp]: "sqlite_table list_tabs (empty_sqlite d) = Map.empty"
  by (simp add: sqlite_table_def empty_sqlite_def list_tabs_def)

lemma empty_sqlite_inv:
  "sqlite_inv str_keys list_sqlite gomap_ok list_tabs list_txtabs t_ident (\<lambda>_. True) (\<lambda>_. True)
     (empty_sqlite d)"
  unfolding sqlite_inv_def empty_sqlite_table
  by (simp add: list_sqlite_ok t_ident_def empty_sqlite_def list_tabs_def)

lemma empty_sqlite_abs: "sqlite_abs str_keys list_tabs (\<lambda>_. True) (empty_sqlite d) = Map.empty"
  by (simp add: sqlite_abs_def)

section \<open>Fresh storages\<close>

lemma empty_badger_inv:
  "badger_inv str_keys list_badger gomap_ok map_of (\<lambda>_. True) (\<lambda>_. True) empty_badger"
  by (rule list_badger_inv) (simp add: empty_badger_def)

lemma empty_badger_abs: "badger_abs str_keys map_of (\<lambda>_. True) empty_badger = Map.empty"
  by (simp add: badger_abs_def empty_badger_def)

text \<open>A fresh Redis storage, with the options the constructor starts from.\<close>

definition empty_redis :: "(entries, unit, unit) redis" where
  "empty_redis = \<lparr>rs_client = [], rs_opts = getDefaultRedisOptions\<rparr>"

lemma default_prefix_ok:
  "prefix getDefaultRedisOptions = ''mightymap_''" "expire getDefaultRedisOptions = 0"
  "glob_free ''mightymap_''"
  by (simp_all add: getDefaultRedisOptions_def glob_free_def)

lemma empty_redis_inv:
  "redis_inv str_keys list_redis gomap_ok map_of (\<lambda>_. True) ''mightymap_'' empty_redis"
  by (simp add: redis_inv_def list_redis_ok empty_redis_def default_prefix_ok cut_prefix_def)

lemma empty_redis_abs: "redis_abs str_keys map_of (\<lambda>_. True) p empty_redis = Map.empty"
  by (simp add: redis_abs_def empty_redis_def cut_prefix_def)

text \<open>A Redis storage that holds the encodings of 1 under \<open>a\<close> and of 2 under \<open>b\<close>.\<close>

definition two_redis :: "(entries, unit, unit) redis" where
  "two_redis = \<lparr>rs_client = [(''mightymap_a'', ''I1''), (''mightymap_b'', ''I11'')],
     rs_opts = getDefaultRedisOptions\<rparr>"

lemma two_redis_inv:
  "redis_inv str_keys repeating_redis gomap_ok map_of (\<lambda>_. True) ''mightymap_'' two_redis"
  by (simp add: redis_inv_def repeating_redis_ok two_redis_def default_prefix_ok gomap_ok_def)

lemma two_redis_abs:
  "redis_abs str_keys map_of (\<lambda>_. True) ''mightymap_'' two_redis = [''a'' \<mapsto> ''I1'', ''b'' \<mapsto> ''I11'']"
  by (auto simp: redis_abs_def two_redis_def cut_prefix_def fun_eq_iff)

lemma two_redis_repeats: "redis_Len repeating_redis two_redis = Ret 3"
proof -
  have "scan_from repeating_redis (rs_client two_redis) (''mightymap_'' @ ''*'') defaultRedisCursorSize 0
      [''mightymap_a'', ''mightymap_b'', ''mightymap_a'']"
    by (simp add: repeating_scan_from two_redis_def)
  from scan_loop_scan_from[OF this, of "[]"] show ?thesis
    by (simp add: redis_Len_def scan_prefix_def redis_scan_def two_redis_def default_prefix_ok)
qed

lemma two_redis_adapter:
  "adapter_inv int_codec toy_gen toy_values toy_types (\<lambda>_. True)
     (redis_inv str_keys repeating_redis gomap_ok map_of (\<lambda>_. True) ''mightymap_'')
     (redis_abs str_keys map_of (\<lambda>_. True) ''mightymap_'') (newMsgpackAdapter two_redis Map.empty)"
  "adapter_abs int_codec (redis_abs str_keys map_of (\<lambda>_. True) ''mightymap_'')
     (newMsgpackAdapter two_redis Map.empty) = [''a'' \<mapsto> GVal int_type 1, ''b'' \<mapsto> GVal int_type 2]"
proof -
  have e: "encodes int_codec Map.empty (GVal int_type 1) ''I1''"
    "encodes int_codec Map.empty (GVal int_type 2) ''I11''"
    by (simp_all only: encodes_def int_codec_mp toy_marshal_wrapped) (simp_all add: int_codec_def numeral_2_eq_2)
  have v: "adapter_vok int_codec toy_values toy_types (\<lambda>_. True) (GVal int_type n)" for n by simp
  have mp: "msgpack_ok (cd_mp int_codec) toy_gen toy_values" by (simp only: int_codec_mp toy_mp_ok)
  show i: "adapter_inv int_codec toy_gen toy_values toy_types (\<lambda>_. True)
     (redis_inv str_keys repeating_redis gomap_ok map_of (\<lambda>_. True) ''mightymap_'')
     (redis_abs str_keys map_of (\<lambda>_. True) ''mightymap_'') (newMsgpackAdapter two_redis Map.empty)"
    unfolding adapter_inv_def newMsgpackAdapter_def two_redis_abs adapter.select_convs
  proof (intro conjI allI impI)
    fix k b
    assume "[''a'' \<mapsto> ''I1'', ''b'' \<mapsto> ''I11''] k = Some b"
    then have "b = ''I1'' \<or> b = ''I11''" by (auto split: if_splits)
    with e v show "\<exists>v. adapter_vok int_codec toy_values toy_types (\<lambda>_. True) v \<and> encodes int_codec Map.empty v b"
      by blast
  qed (rule mp toy_registry_ok two_redis_inv)+
  have "decode_opt int_codec Map.empty ''I1'' = Some (GVal int_type 1)"
    "decode_opt int_codec Map.empty ''I11'' = Some (GVal int_type 2)"
    using msgpack_roundtrip_decode[OF mp toy_registry_ok int_storable e(1)]
      msgpack_roundtrip_decode[OF mp toy_registry_ok int_storable e(2)] by (simp_all add: decode_opt_def)
  then show "adapter_abs int_codec (redis_abs str_keys map_of (\<lambda>_. True) ''mightymap_'')
     (newMsgpackAdapter two_redis Map.empty) = [''a'' \<mapsto> GVal int_type 1, ''b'' \<mapsto> GVal int_type 2]"
    by (auto simp: adapter_abs_def newMsgpackAdapter_def two_redis_abs)
qed

text \<open>A swiss map that is a list of entries, visited forwards or backwards.\<close>

definition list_swiss :: "(bool, entries, string) swiss_api" where
  "list_swiss =
     \<lparr>sw_new = \<lambda>n. [], sw_get = \<lambda>m k. lookup_result [] (map_of m) k,
      sw_put = \<lambda>m k v. AList.update k v m,
      sw_delete = \<lambda>m k. (k \<in> dom (map_of m), AList.delete k m),
      sw_visits = \<lambda>e m. (let es = AList.clearjunk m in if e then es else rev es),
      sw_count = \<lambda>m. int (length (AList.clearjunk m)), sw_clear = \<lambda>m. []\<rparr>"

lemma clearjunk_enumerates: "enumerates (map_of m) (AList.clearjunk m)"
  by (simp add: enumerates_def map_of_clearjunk)

lemma clearjunk_rev_enumerates: "enumerates (map_of m) (rev (AList.clearjunk m))"
proof -
  have ok: "gomap_ok (AList.clearjunk m)" by (simp add: gomap_ok_def)
  have "enumerates (map_of (AList.clearjunk m)) (rev (AList.clearjunk m))"
    by (rule enumerates_order[OF is_order_rev ok])
  then show ?thesis by (simp add: map_of_clearjunk)
qed

lemma list_swiss_ok: "swiss_ok list_swiss map_of"
  unfolding swiss_ok_def list_swiss_def
  by (simp add: kv_simps Let_def clearjunk_enumerates clearjunk_rev_enumerates
      enumerates_keys(3)[OF clearjunk_enumerates])

section \<open>Opening the databases\<close>

text \<open>A connection to a database with the given entries in the table \<open>t\<close>, and options that name it.\<close>

definition list_open :: "entries \<Rightarrow> entries sqlite_open_api" where
  "list_open db =
     \<lparr>so_mkdir = \<lambda>_. None, so_open = \<lambda>_. Inr db, so_pool = \<lambda>db _ _. db, so_ping = \<lambda>_. None\<rparr>"

definition list_optfuncs :: "(sqliteOpts \<Rightarrow> sqliteOpts) list" where
  "list_optfuncs =
     [WithSQLiteDBPath ''/data/m.db'', WithSQLiteTableName ''t'', WithSQLitePragma ''foreign_keys'' ''ON'']"

abbreviation list_opts :: sqliteOpts where
  "list_opts \<equiv> apply_opts list_optfuncs getDefaultSQLiteOptions"

lemma list_opts_table: "sq_opt_tableName list_opts = ''t''"
  by (simp add: list_optfuncs_def sqlite_option_defs getDefaultSQLiteOptions_def)

lemma list_opts_ident: "t_ident (sq_opt_tableName list_opts)"
  by (simp add: list_opts_table t_ident_def)

lemma list_opens_ok:
  "gomap_ok db \<Longrightarrow> opens_ok (list_open db) list_sqlite gomap_ok list_tabs list_opts db"
  unfolding opens_ok_def Let_def list_opts_table
  by (auto simp: list_open_def list_sqlite_def list_tabs_def sql_texts pragma_sql_def
      create_table_sql_def create_index_sql_def nl_tabs_def)

lemma list_old_table: "old_table list_tabs list_opts db = map_of db"
  unfolding old_table_def list_opts_table by (simp add: list_tabs_def)

lemma list_sqlite_left:
  assumes "sqlite_inv str_keys list_sqlite gomap_ok list_tabs list_txtabs t_ident (\<lambda>_. True) (\<lambda>_. True) s"
  shows "gomap_ok (sl_db s)" "old_table list_tabs list_opts (sl_db s) = sqlite_table list_tabs s"
  using assms by (simp_all add: sqlite_inv_def t_ident_def list_old_table sqlite_table_def list_tabs_def)

text \<open>A Redis database with an entry of another program.\<close>

definition foreign_entries :: entries where
  "foreign_entries = [(''other:a'', ''1'')]"

lemma foreign_entries_ok:
  "gomap_ok foreign_entries" "cut_prefix ''app:'' (map_of foreign_entries) = Map.empty"
  by (simp_all add: foreign_entries_def gomap_ok_def cut_prefix_def fun_eq_iff)

end
