(* ===== verification/Redis_Expiry.thy ===== *)
theory Redis_Expiry
  imports Opening
begin

text \<open>
  Time and other clients. A key stored with \<open>WithRedisExpire\<close> is gone after a while, and other
  programs use the server under prefixes of their own. Both happen between the calls on a map: the
  server's database changes, and of the keys under the map's prefix some are gone. A map over such
  a server refines a specification whose map may lose entries before each call, and one that loses
  none where keys do not expire.
\<close>

section \<open>Runs with an environment\<close>

text \<open>Before each call the environment, given the call's \<open>e\<close>, changes the storage.\<close>

fun env_run ::
  "('e \<Rightarrow> 's \<Rightarrow> 's) \<Rightarrow> ('e \<Rightarrow> ('s, 'k, 'v, ('k \<times> 'v) list) storage_ops) \<Rightarrow> 's mightymap \<Rightarrow>
    ('e \<times> ('k, 'v) call) list \<Rightarrow> (('k, 'v) reply list \<times> 's mightymap) outcome" where
  "env_run env ops m [] = Ret ([], m)"
| "env_run env ops m ((e, c) # cs) =
     obind (map_exec (ops e) (m\<lparr>mm_storage := env e (mm_storage m)\<rparr>) c) (\<lambda>(r, m').
     obind (env_run env ops m' cs) (\<lambda>(rs, m''). Ret (r # rs, m'')))"

text \<open>The specification: entries may be gone before a call, unless \<open>keeps\<close>.\<close>

inductive fading_run ::
  "'k \<Rightarrow> 'v \<Rightarrow> bool \<Rightarrow> bool \<Rightarrow> ('k \<rightharpoonup> 'v) \<Rightarrow> ('k, 'v) call list \<Rightarrow> ('k, 'v) reply list \<Rightarrow> ('k \<rightharpoonup> 'v) \<Rightarrow> bool"
  for zk zv allow keeps where
  fading_Nil: "fading_run zk zv allow keeps a [] [] a"
| fading_Cons: "a1 \<subseteq>\<^sub>m a \<Longrightarrow> (keeps \<Longrightarrow> a1 = a) \<Longrightarrow> spec_step zk zv allow a1 c r a2 \<Longrightarrow>
    fading_run zk zv allow keeps a2 cs rs a3 \<Longrightarrow> fading_run zk zv allow keeps a (c # cs) (r # rs) a3"

lemma fading_run_keeps: "fading_run zk zv allow True a cs rs a' = spec_run zk zv allow a cs rs a'"
proof
  assume "fading_run zk zv allow True a cs rs a'"
  then show "spec_run zk zv allow a cs rs a'"
    by (induction rule: fading_run.induct) (auto intro: spec_run.intros)
next
  assume "spec_run zk zv allow a cs rs a'"
  then show "fading_run zk zv allow True a cs rs a'"
    by (induction rule: spec_run.induct)
      (auto intro: fading_Nil fading_Cons[OF map_le_refl])
qed

context map_backend begin

lemma env_run_refines:
  assumes "\<forall>(e, c) \<in> set cs. eok e \<and> call_ok kok vok c" and "sinv (mm_storage m)"
    and env: "\<forall>e s. sinv s \<longrightarrow> sinv (env e s) \<and> amap (env e s) \<subseteq>\<^sub>m amap s \<and>
      (keeps \<longrightarrow> amap (env e s) = amap s)"
  shows "\<exists>rs m'. env_run env ops m cs = Ret (rs, m') \<and> sinv (mm_storage m') \<and>
    fading_run zk zv (mm_allowOverwrite m) keeps (amap (mm_storage m)) (map snd cs) rs
      (amap (mm_storage m'))"
  using assms(1,2)
proof (induction cs arbitrary: m)
  case Nil
  then show ?case by (simp add: fading_Nil)
next
  case (Cons x cs)
  obtain e c where x: "x = (e, c)" by force
  let ?m = "m\<lparr>mm_storage := env e (mm_storage m)\<rparr>"
  have s: "sinv (mm_storage ?m)" "amap (mm_storage ?m) \<subseteq>\<^sub>m amap (mm_storage m)"
    "keeps \<Longrightarrow> amap (mm_storage ?m) = amap (mm_storage m)"
    using env Cons.prems(2) by simp_all
  have ec: "eok e" "call_ok kok vok c" using Cons.prems(1) x by auto
  obtain r m' where step: "map_exec (ops e) ?m c = Ret (r, m')" "sinv (mm_storage m')"
    "mm_allowOverwrite m' = mm_allowOverwrite ?m"
    "spec_step zk zv (mm_allowOverwrite ?m) (amap (mm_storage ?m)) c r (amap (mm_storage m'))"
    using map_exec_refines[OF ec(1) s(1) ec(2)] by blast
  obtain rs m'' where "env_run env ops m' cs = Ret (rs, m'')" "sinv (mm_storage m'')"
    "fading_run zk zv (mm_allowOverwrite m') keeps (amap (mm_storage m')) (map snd cs) rs
      (amap (mm_storage m''))"
    using Cons.IH[OF _ step(2)] Cons.prems(1) by auto
  with x step fading_Cons[OF s(2,3)] show ?case by auto
qed

end

section \<open>The Redis server\<close>

text \<open>What time and others do to the server, seen by the storage and by the map.\<close>

definition redis_env ::
  "('e \<Rightarrow> 'db \<Rightarrow> 'db) \<Rightarrow> 'e \<Rightarrow> ('db, 't, 'm) redis adapter \<Rightarrow> ('db, 't, 'm) redis adapter" where
  "redis_env env e a = a\<lparr>ad_storage := (ad_storage a)\<lparr>rs_client := env e (rs_client (ad_storage a))\<rparr>\<rparr>"

text \<open>Nobody else writes under the prefix; keys expire there or, if \<open>keeps\<close>, do not.\<close>

definition env_ok ::
  "('e \<Rightarrow> 'db \<Rightarrow> 'db) \<Rightarrow> ('db \<Rightarrow> bool) \<Rightarrow> ('db \<Rightarrow> string \<rightharpoonup> bytes) \<Rightarrow> string \<Rightarrow> bool \<Rightarrow> bool" where
  "env_ok env up dbmap p keeps \<longleftrightarrow>
     (\<forall>e db. up db \<longrightarrow> up (env e db) \<and> cut_prefix p (dbmap (env e db)) \<subseteq>\<^sub>m cut_prefix p (dbmap db) \<and>
        (keeps \<longrightarrow> cut_prefix p (dbmap (env e db)) = cut_prefix p (dbmap db)))"

lemma key_map_sub: "m' \<subseteq>\<^sub>m m \<Longrightarrow> key_map kc fit m' \<subseteq>\<^sub>m key_map kc fit m"
  by (auto simp: map_le_def key_map_def domIff split: sum.splits if_splits)

text \<open>A smaller map under the adapter is a smaller map over it.\<close>

lemma adapter_sub:
  assumes "adapter_inv cd gen plain T vok sinv amap a" "sinv s" "amap s \<subseteq>\<^sub>m amap (ad_storage a)"
  shows "adapter_inv cd gen plain T vok sinv amap (a\<lparr>ad_storage := s\<rparr>)"
    and "adapter_abs cd amap (a\<lparr>ad_storage := s\<rparr>) \<subseteq>\<^sub>m adapter_abs cd amap a"
proof -
  have sub: "amap s k = Some b \<Longrightarrow> amap (ad_storage a) k = Some b" for k b
    using assms(3) by (metis domI map_le_def)
  note d = adapter_invD[OF assms(1)]
  show "adapter_inv cd gen plain T vok sinv amap (a\<lparr>ad_storage := s\<rparr>)"
    unfolding adapter_inv_def using d(1,2,4) assms(2) sub by (metis adapter.select_convs adapter.surjective adapter.update_convs(1))
  show "adapter_abs cd amap (a\<lparr>ad_storage := s\<rparr>) \<subseteq>\<^sub>m adapter_abs cd amap a"
    unfolding map_le_def
  proof
    fix k assume "k \<in> dom (adapter_abs cd amap (a\<lparr>ad_storage := s\<rparr>))"
    then obtain b where b: "amap s k = Some b" by (auto simp: adapter_abs_def bind_eq_Some_conv)
    show "adapter_abs cd amap (a\<lparr>ad_storage := s\<rparr>) k = adapter_abs cd amap a k"
      by (simp add: adapter_abs_def b sub[OF b])
  qed
qed

lemma redis_env_sub:
  assumes inv: "redis_inv kc api up dbmap fit p c" and db: "up db"
    and sub: "cut_prefix p (dbmap db) \<subseteq>\<^sub>m cut_prefix p (dbmap (rs_client c))"
  shows "redis_inv kc api up dbmap fit p (c\<lparr>rs_client := db\<rparr>)"
    and "redis_abs kc dbmap fit p (c\<lparr>rs_client := db\<rparr>) \<subseteq>\<^sub>m redis_abs kc dbmap fit p c"
proof -
  note d = redis_invD[OF inv]
  have s: "cut_prefix p (dbmap db) b = Some v \<Longrightarrow> cut_prefix p (dbmap (rs_client c)) b = Some v" for b v
    using sub by (metis domI map_le_def)
  have "dom (cut_prefix p (dbmap db)) \<subseteq> dom (cut_prefix p (dbmap (rs_client c)))" using s by blast
  then have "keys_decode kc (\<lambda>b. fit (p @ b)) (cut_prefix p (dbmap db))"
    using d(6) unfolding keys_decode_def by blast
  moreover have "\<forall>v \<in> ran (cut_prefix p (dbmap db)). fit v"
    using d(7) s by (auto simp: ran_def)
  ultimately show "redis_inv kc api up dbmap fit p (c\<lparr>rs_client := db\<rparr>)"
    using d(1,3,4,5) db by (simp add: redis_inv_def)
  show "redis_abs kc dbmap fit p (c\<lparr>rs_client := db\<rparr>) \<subseteq>\<^sub>m redis_abs kc dbmap fit p c"
    using key_map_sub[OF sub] by (simp add: redis_abs_def)
qed

text \<open>The environment keeps the invariant of the map over a Redis server.\<close>

lemma redis_env_keeps:
  assumes env: "env_ok env up dbmap p keeps"
    and a: "adapter_inv cd gen plain T fit (redis_once kc api up dbmap fit p) (redis_abs kc dbmap fit p) a"
  shows "adapter_inv cd gen plain T fit (redis_once kc api up dbmap fit p) (redis_abs kc dbmap fit p)
      (redis_env env e a)"
    and "adapter_abs cd (redis_abs kc dbmap fit p) (redis_env env e a) \<subseteq>\<^sub>m
      adapter_abs cd (redis_abs kc dbmap fit p) a"
    and "keeps \<Longrightarrow> adapter_abs cd (redis_abs kc dbmap fit p) (redis_env env e a) =
      adapter_abs cd (redis_abs kc dbmap fit p) a"
proof -
  let ?c = "ad_storage a" and ?db = "env e (rs_client (ad_storage a))"
  have i: "redis_once kc api up dbmap fit p ?c" using adapter_invD(3)[OF a] .
  then have u: "up (rs_client ?c)" using redis_invD(2) by blast
  have db: "up ?db" "cut_prefix p (dbmap ?db) \<subseteq>\<^sub>m cut_prefix p (dbmap (rs_client ?c))"
    "keeps \<Longrightarrow> cut_prefix p (dbmap ?db) = cut_prefix p (dbmap (rs_client ?c))"
    using env u unfolding env_ok_def by blast+
  note s = redis_env_sub[OF conjunct2[OF i] db(1,2)]
  have once: "redis_once kc api up dbmap fit p (?c\<lparr>rs_client := ?db\<rparr>)" using i s(1) by blast
  show "adapter_inv cd gen plain T fit (redis_once kc api up dbmap fit p) (redis_abs kc dbmap fit p)
      (redis_env env e a)"
    and "adapter_abs cd (redis_abs kc dbmap fit p) (redis_env env e a) \<subseteq>\<^sub>m
      adapter_abs cd (redis_abs kc dbmap fit p) a"
    unfolding redis_env_def by (rule adapter_sub[OF a once s(2)])+
  show "adapter_abs cd (redis_abs kc dbmap fit p) (redis_env env e a) =
      adapter_abs cd (redis_abs kc dbmap fit p) a" if keeps
    unfolding redis_env_def adapter_abs_def redis_abs_def by (simp add: db(3)[OF that])
qed

end
