(* ===== verification/Redis_Failures.thy ===== *)
theory Redis_Failures
  imports Persistent_Stacks
begin

text \<open>
  Errors of the Redis client. Every method of the Redis storage panics when a command fails, so no
  error is ever answered with a reply: with a client that fails now and then, each method does what
  it does with a client that does not fail, or panics. This order on outcomes is lifted from
  commands to methods, to the adapter, to the map and to runs of calls.
\<close>

section \<open>The same outcome or a panic\<close>

definition same_or_panic :: "'a outcome \<Rightarrow> 'a outcome \<Rightarrow> bool" where
  "same_or_panic x y \<longleftrightarrow> x = y \<or> (\<exists>e. x = Panic e)"

lemma same_or_panic_refl [simp, intro]: "same_or_panic x x"
  by (simp add: same_or_panic_def)

lemma same_or_panic_Panic [simp, intro]: "same_or_panic (Panic e) y"
  by (simp add: same_or_panic_def)

lemma same_or_panic_bind [intro]:
  assumes "same_or_panic x y" "\<And>r. same_or_panic (f r) (g r)"
  shows "same_or_panic (obind x f) (obind y g)"
proof (cases "x = y")
  case True
  then show ?thesis using assms(2) by (cases y) simp_all
next
  case False
  then show ?thesis using assms(1) by (auto simp: same_or_panic_def)
qed

text \<open>Method tables, and the tables of adapter and map above them.\<close>

definition ops_le :: "('s, 'k, 'v, 'c) storage_ops \<Rightarrow> ('s, 'k, 'v, 'c) storage_ops \<Rightarrow> bool" where
  "ops_le A B \<longleftrightarrow>
     (\<forall>s k. same_or_panic (op_Load A s k) (op_Load B s k)) \<and>
     (\<forall>s k v. same_or_panic (op_Store A s k v) (op_Store B s k v)) \<and>
     (\<forall>s ks. same_or_panic (op_Delete A s ks) (op_Delete B s ks)) \<and>
     (\<forall>s f c. same_or_panic (op_Range A s f c) (op_Range B s f c)) \<and>
     (\<forall>s. same_or_panic (op_Keys A s) (op_Keys B s)) \<and>
     (\<forall>s. same_or_panic (op_Next A s) (op_Next B s)) \<and>
     (\<forall>s. same_or_panic (op_Len A s) (op_Len B s)) \<and>
     (\<forall>s. same_or_panic (op_Clear A s) (op_Clear B s))"

lemma ops_leD [intro]:
  assumes "ops_le A B"
  shows "same_or_panic (op_Load A s k) (op_Load B s k)" "same_or_panic (op_Store A s k v) (op_Store B s k v)"
    "same_or_panic (op_Delete A s ks) (op_Delete B s ks)" "same_or_panic (op_Range A s f c) (op_Range B s f c)"
    "same_or_panic (op_Keys A s) (op_Keys B s)" "same_or_panic (op_Next A s) (op_Next B s)"
    "same_or_panic (op_Len A s) (op_Len B s)" "same_or_panic (op_Clear A s) (op_Clear B s)"
  using assms by (simp_all add: ops_le_def)

lemma adapter_ops_le:
  assumes "ops_le A B"
  shows "ops_le (adapter_ops cd A) (adapter_ops cd B)"
  using ops_leD[OF assms]
  by (auto simp: ops_le_def adapter_ops_def adapter_Load_def adapter_Store_def adapter_Delete_def
      adapter_Range_def adapter_Keys_def adapter_Next_def adapter_Len_def adapter_Clear_def Let_def
      split: prod.split sum.split)

lemma map_exec_le:
  assumes "ops_le A B"
  shows "same_or_panic (map_exec A m c) (map_exec B m c)"
  using ops_leD[OF assms]
  by (cases c) (auto simp: Map_defs Map_Clear_def split: prod.split intro!: same_or_panic_bind)

lemma map_run_le:
  assumes "\<And>e. ops_le (A e) (B e)"
  shows "same_or_panic (map_run A m cs) (map_run B m cs)"
proof (induction cs arbitrary: m)
  case (Cons x cs)
  obtain e c where "x = (e, c)" by force
  with Cons map_exec_le[OF assms] show ?case by (auto split: prod.split intro!: same_or_panic_bind)
qed simp

section \<open>A client that fails\<close>

text \<open>
  \<open>bad\<close> answers each command as \<open>good\<close> does, or with an error other than \<open>redis.Nil\<close>: a lost
  connection, a missed deadline, a server that refuses.
\<close>

definition redis_api_le :: "'db redis_api \<Rightarrow> 'db redis_api \<Rightarrow> bool" where
  "redis_api_le bad good \<longleftrightarrow>
     (\<forall>db k v n. rd_set bad db k v n = rd_set good db k v n \<or> (\<exists>e. rd_set bad db k v n = Inl e)) \<and>
     (\<forall>db k. rd_get bad db k = rd_get good db k \<or> (\<exists>e. rd_get bad db k = Inl (RedisErr e))) \<and>
     (\<forall>db k. rd_del bad db k = rd_del good db k \<or> (\<exists>e. rd_del bad db k = Inl e)) \<and>
     (\<forall>db cur p n. rd_scan bad db cur p n = rd_scan good db cur p n \<or>
        (\<exists>e. rd_scan bad db cur p n = Inl e))"

lemma redis_api_leD:
  assumes "redis_api_le bad good"
  shows "rd_set bad db k v n = Inr db' \<Longrightarrow> rd_set good db k v n = Inr db'"
    and "rd_get bad db k = Inr b \<Longrightarrow> rd_get good db k = Inr b"
    and "rd_get bad db k = Inl RedisNil \<Longrightarrow> rd_get good db k = Inl RedisNil"
    and "rd_del bad db k = Inr db' \<Longrightarrow> rd_del good db k = Inr db'"
    and "rd_scan bad db cur p m = Inr r \<Longrightarrow> rd_scan good db cur p m = Inr r"
  using assms unfolding redis_api_le_def by (metis sum.distinct(1) sum.inject(1) redis_error.distinct(1))+

lemma scan_from_le:
  assumes "redis_api_le bad good"
  shows "scan_from bad db p n cur ks \<Longrightarrow> scan_from good db p n cur ks"
  by (induction rule: scan_from.induct) (auto intro: scan_from.intros redis_api_leD(5)[OF assms])

text \<open>The failing client's loop ends when the other one's does.\<close>

lemma scan_loop_ends_le:
  assumes le: "redis_api_le bad good" and "scan_loop good db p n cur acc = Some y"
  shows "scan_loop bad db p n cur acc \<noteq> None"
proof -
  have "api = good \<longrightarrow> scan_loop bad db p n cur acc \<noteq> None"
    if "scan_loop api db p n cur acc = Some y" for api db p n cur acc y
    using that
  proof (rule scan_loop.raw_induct[where P = "\<lambda>api db p n cur acc y.
        api = good \<longrightarrow> scan_loop bad db p n cur acc \<noteq> None", rotated])
    fix scan and api :: "'a redis_api" and db p n cur acc and y :: "err + string list"
    assume IH: "\<And>api db p n cur acc y. scan api db p n cur acc = Some y \<Longrightarrow>
        api = good \<longrightarrow> scan_loop bad db p n cur acc \<noteq> None"
      and body: "(case rd_scan api db cur p n of Inl e \<Rightarrow> Some (Inl e)
        | Inr (kk, cur') \<Rightarrow>
            if cur' = 0 then Some (Inr (acc @ kk)) else scan api db p n cur' (acc @ kk)) = Some y"
    show "api = good \<longrightarrow> scan_loop bad db p n cur acc \<noteq> None"
    proof
      assume api: "api = good"
      show "scan_loop bad db p n cur acc \<noteq> None"
      proof (cases "rd_scan bad db cur p n")
        case (Inl e)
        then show ?thesis by (subst scan_loop.simps) simp
      next
        case (Inr r)
        obtain kk cur' where r: "r = (kk, cur')" by force
        have "rd_scan good db cur p n = Inr (kk, cur')" using redis_api_leD(5)[OF le Inr] r by simp
        with body api IH[of good db p n cur' "acc @ kk"]
        have "cur' \<noteq> 0 \<Longrightarrow> scan_loop bad db p n cur' (acc @ kk) \<noteq> None" by auto
        with Inr r show ?thesis by (subst scan_loop.simps) simp
      qed
    qed
  qed
  with assms(2) show ?thesis by blast
qed

text \<open>A scan that returns its keys saw a complete iteration, which the other client sees as well.\<close>

lemma scan_prefix_le:
  assumes "redis_api_le bad good"
  shows "same_or_panic (scan_prefix bad c mk) (scan_prefix good c mk)"
proof -
  let ?p = "prefix (rs_opts c) @ ''*''" and ?n = "case mk of [] \<Rightarrow> defaultRedisCursorSize | n # _ \<Rightarrow> n"
  let ?loop = "\<lambda>api. scan_loop api (rs_client c) ?p ?n 0 []"
  consider "?loop bad = None" | e where "?loop bad = Some (Inl e)" | ks where "?loop bad = Some (Inr ks)"
    by (cases "?loop bad") (auto, metis obj_sumE)
  then show ?thesis
  proof cases
    case 1
    then have "?loop good = None" using scan_loop_ends_le[OF assms, of "rs_client c" ?p ?n 0 "[]"]
      by (cases "?loop good") auto
    with 1 show ?thesis by (simp add: scan_prefix_def redis_scan_def)
  next
    case 2
    then show ?thesis by (simp add: scan_prefix_def redis_scan_def)
  next
    case 3
    from scan_loop_sound[OF this] have "scan_from bad (rs_client c) ?p ?n 0 ks" by simp
    from scan_loop_scan_from[OF scan_from_le[OF assms this], of "[]"] 3
    show ?thesis by (simp add: scan_prefix_def redis_scan_def)
  qed
qed

lemma redis_Delete_le:
  assumes "redis_api_le bad good"
  shows "same_or_panic (redis_Delete kc bad c ks) (redis_Delete kc good c ks)"
proof (induction ks arbitrary: c)
  case (Cons k ks)
  then show ?case
    by (auto split: sum.split simp: redis_api_leD(4)[OF assms]) 
qed simp

lemma redis_range_loop_le:
  assumes "redis_api_le bad good"
  shows "same_or_panic (redis_range_loop kc bad db p f keys st) (redis_range_loop kc good db p f keys st)"
proof (induction keys arbitrary: st)
  case (Cons key keys)
  then show ?case
    by (auto split: sum.split prod.split simp: Let_def redis_api_leD(2)[OF assms] intro!: same_or_panic_bind)
qed simp

lemma redis_ops_le:
  assumes "redis_api_le bad good"
  shows "ops_le (redis_ops kc bad zk) (redis_ops kc good zk)"
proof -
  note d = redis_api_leD[OF assms] scan_prefix_le[OF assms] redis_Delete_le[OF assms]
    redis_range_loop_le[OF assms]
  have "same_or_panic (redis_Load kc bad s k) (redis_Load kc good s k)" for s k
    using d(2,3) by (auto simp: redis_Load_def split: sum.split redis_error.split)
  moreover have "same_or_panic (redis_Store kc bad s k v) (redis_Store kc good s k v)" for s k v
    using d(1) by (auto simp: redis_Store_def split: sum.split)
  moreover have "same_or_panic (redis_Next kc bad zk s) (redis_Next kc good zk s)" for s
    unfolding redis_Next_def using d(2,4)
    by (auto simp: Let_def split: list.split sum.split intro!: same_or_panic_bind d(6,7))
  ultimately show ?thesis
    by (auto simp: ops_le_def redis_ops_def redis_Range_def redis_Keys_def redis_Len_def redis_Clear_def
        intro!: same_or_panic_bind d(6-8))
qed

end
