(* ===== verification/RW_Locks.thy ===== *)
theory RW_Locks
  imports Prelude
begin

text \<open>
  Goroutines that take and release \<open>sync.RWMutex\<close> locks, as interleaved steps. A lock admits many
  readers or one writer; a goroutine that called \<open>Lock\<close> announces itself first, and from then on
  new readers wait. The theory proves mutual exclusion for all programs, and for programs that
  take their locks in increasing order that they never deadlock and always finish. The programs
  of the backends are in \<open>Lock_Programs\<close>.
\<close>

section \<open>Goroutines and locks\<close>

datatype instr = RLk nat | RUn nat | WLk nat | WUn nat

text \<open>What is left to do, the locks held (True for writing), and whether the lock call at the head
  of the program has announced a writer.\<close>

record goroutine =
  g_todo :: "instr list"
  g_held :: "(nat \<times> bool) list"
  g_wait :: bool

definition spawn :: "instr list \<Rightarrow> goroutine" where
  "spawn prog = \<lparr>g_todo = prog, g_held = [], g_wait = False\<rparr>"

definition holds_write :: "goroutine \<Rightarrow> nat \<Rightarrow> bool" where
  "holds_write g l \<longleftrightarrow> (l, True) \<in> set (g_held g)"

definition holds_any :: "goroutine \<Rightarrow> nat \<Rightarrow> bool" where
  "holds_any g l \<longleftrightarrow> (l, True) \<in> set (g_held g) \<or> (l, False) \<in> set (g_held g)"

definition announced :: "goroutine \<Rightarrow> nat \<Rightarrow> bool" where
  "announced g l \<longleftrightarrow> g_wait g \<and> (case g_todo g of WLk l' # _ \<Rightarrow> l' = l | _ \<Rightarrow> False)"

text \<open>
  One step of goroutine \<open>i\<close>. \<open>RLock\<close> waits for a writer that holds the lock or has announced
  itself. \<open>Lock\<close> waits for other writers, announces itself, and waits until nobody holds the lock.
  Releasing a lock that is not held ends a Go program, and is no step here.
\<close>

definition step_goroutine :: "goroutine list \<Rightarrow> nat \<Rightarrow> goroutine list option" where
  "step_goroutine gs i =
     (if i \<ge> length gs then None
      else let g = gs ! i in
        case g_todo g of
          [] \<Rightarrow> None
        | RLk l # rest \<Rightarrow>
            if list_ex (\<lambda>u. holds_write u l \<or> announced u l) gs then None
            else Some (gs[i := g\<lparr>g_todo := rest, g_held := (l, False) # g_held g\<rparr>])
        | WLk l # rest \<Rightarrow>
            if \<not> g_wait g then
              (if list_ex (\<lambda>u. holds_write u l \<or> announced u l) gs then None
               else Some (gs[i := g\<lparr>g_wait := True\<rparr>]))
            else if list_ex (\<lambda>u. holds_any u l) gs then None
            else Some (gs[i := g\<lparr>g_todo := rest, g_held := (l, True) # g_held g, g_wait := False\<rparr>])
        | RUn l # rest \<Rightarrow>
            if (l, False) \<in> set (g_held g)
            then Some (gs[i := g\<lparr>g_todo := rest, g_held := remove1 (l, False) (g_held g)\<rparr>])
            else None
        | WUn l # rest \<Rightarrow>
            if (l, True) \<in> set (g_held g)
            then Some (gs[i := g\<lparr>g_todo := rest, g_held := remove1 (l, True) (g_held g)\<rparr>])
            else None)"

text \<open>A schedule names the goroutine of each step.\<close>

fun run_schedule :: "goroutine list \<Rightarrow> nat list \<Rightarrow> goroutine list option" where
  "run_schedule gs [] = Some gs"
| "run_schedule gs (i # is) = Option.bind (step_goroutine gs i) (\<lambda>gs'. run_schedule gs' is)"

definition finished :: "goroutine list \<Rightarrow> bool" where
  "finished gs \<longleftrightarrow> list_all (\<lambda>g. g_todo g = []) gs"

definition deadlocked :: "goroutine list \<Rightarrow> bool" where
  "deadlocked gs \<longleftrightarrow>
     \<not> finished gs \<and> list_all (\<lambda>i. step_goroutine gs i = None) [0..<length gs]"

lemma step_goroutine_length: "step_goroutine gs i = Some gs' \<Longrightarrow> i < length gs \<and> length gs' = length gs"
  by (auto simp: step_goroutine_def Let_def split: if_splits list.splits instr.splits)

text \<open>What a step changes: one goroutine, by one instruction.\<close>

inductive instr_step :: "goroutine list \<Rightarrow> goroutine \<Rightarrow> goroutine \<Rightarrow> bool" for gs where
  do_RLk: "g_todo g = RLk l # rest \<Longrightarrow> \<forall>u \<in> set gs. \<not> holds_write u l \<and> \<not> announced u l \<Longrightarrow>
    instr_step gs g (g\<lparr>g_todo := rest, g_held := (l, False) # g_held g\<rparr>)"
| do_announce: "g_todo g = WLk l # rest \<Longrightarrow> \<not> g_wait g \<Longrightarrow>
    \<forall>u \<in> set gs. \<not> holds_write u l \<and> \<not> announced u l \<Longrightarrow> instr_step gs g (g\<lparr>g_wait := True\<rparr>)"
| do_WLk: "g_todo g = WLk l # rest \<Longrightarrow> g_wait g \<Longrightarrow> \<forall>u \<in> set gs. \<not> holds_any u l \<Longrightarrow>
    instr_step gs g (g\<lparr>g_todo := rest, g_held := (l, True) # g_held g, g_wait := False\<rparr>)"
| do_RUn: "g_todo g = RUn l # rest \<Longrightarrow> (l, False) \<in> set (g_held g) \<Longrightarrow>
    instr_step gs g (g\<lparr>g_todo := rest, g_held := remove1 (l, False) (g_held g)\<rparr>)"
| do_WUn: "g_todo g = WUn l # rest \<Longrightarrow> (l, True) \<in> set (g_held g) \<Longrightarrow>
    instr_step gs g (g\<lparr>g_todo := rest, g_held := remove1 (l, True) (g_held g)\<rparr>)"

inductive_cases instr_stepE: "instr_step gs g g'"

lemma step_goroutine_instr:
  "step_goroutine gs i = Some gs' \<Longrightarrow>
    i < length gs \<and> (\<exists>g'. gs' = gs[i := g'] \<and> instr_step gs (gs ! i) g')"
  by (auto simp: step_goroutine_def Let_def list_ex_iff
      intro: instr_step.intros split: if_splits list.splits instr.splits)

text \<open>Nothing is enabled only when the head of the program waits for a lock.\<close>

lemma stuck_cases:
  assumes "i < length gs" "step_goroutine gs i = None"
  obtains "g_todo (gs ! i) = []"
  | l rest where "g_todo (gs ! i) = RLk l # rest" "\<exists>u \<in> set gs. holds_write u l \<or> announced u l"
  | l rest where "g_todo (gs ! i) = WLk l # rest" "\<not> g_wait (gs ! i)"
      "\<exists>u \<in> set gs. holds_write u l \<or> announced u l"
  | l rest where "g_todo (gs ! i) = WLk l # rest" "g_wait (gs ! i)" "\<exists>u \<in> set gs. holds_any u l"
  | l rest where "g_todo (gs ! i) = RUn l # rest" "(l, False) \<notin> set (g_held (gs ! i))"
  | l rest where "g_todo (gs ! i) = WUn l # rest" "(l, True) \<notin> set (g_held (gs ! i))"
  using assms
  by (auto simp: step_goroutine_def Let_def list_ex_iff split: if_splits list.splits instr.splits)

section \<open>Reachability\<close>

inductive reaches :: "goroutine list \<Rightarrow> goroutine list \<Rightarrow> bool" for gs0 where
  reaches_refl: "reaches gs0 gs0"
| reaches_step: "reaches gs0 gs \<Longrightarrow> step_goroutine gs i = Some gs' \<Longrightarrow> reaches gs0 gs'"

lemma reaches_schedule:
  assumes "run_schedule gs is = Some gs'" "reaches gs0 gs"
  shows "reaches gs0 gs'"
  using assms
proof (induction "is" arbitrary: gs)
  case Nil
  then show ?case by simp
next
  case (Cons i "is")
  then obtain gs1 where "step_goroutine gs i = Some gs1" "run_schedule gs1 is = Some gs'"
    by (auto simp: bind_eq_Some_conv)
  with Cons.IH Cons.prems(2) show ?case by (blast intro: reaches_step)
qed

lemma reaches_length: "reaches gs0 gs \<Longrightarrow> length gs = length gs0"
  by (induction rule: reaches.induct) (auto dest: step_goroutine_length)

section \<open>Mutual exclusion\<close>

text \<open>Who holds a lock for writing holds it alone.\<close>

definition exclusive :: "goroutine list \<Rightarrow> bool" where
  "exclusive gs \<longleftrightarrow>
     (\<forall>i j l. i < length gs \<longrightarrow> j < length gs \<longrightarrow> i \<noteq> j \<longrightarrow> holds_write (gs ! i) l \<longrightarrow>
        \<not> holds_any (gs ! j) l)"

lemma holds_any_if_write: "holds_write g l \<Longrightarrow> holds_any g l"
  by (simp add: holds_write_def holds_any_def)

text \<open>A step gives a goroutine no lock that it or another one may not have.\<close>

lemma instr_step_holds:
  assumes "instr_step gs g g'"
  shows "holds_write g' l \<Longrightarrow> holds_write g l \<or> (\<forall>u \<in> set gs. \<not> holds_any u l)"
    and "holds_any g' l \<Longrightarrow> holds_any g l \<or> (\<forall>u \<in> set gs. \<not> holds_write u l)"
  using assms
  by (cases; auto simp: holds_write_def holds_any_def dest: set_mp[OF set_remove1_subset])+

lemma exclusive_step:
  assumes "exclusive gs" "step_goroutine gs i = Some gs'"
  shows "exclusive gs'"
proof -
  obtain g' where i: "i < length gs" and g': "gs' = gs[i := g']" "instr_step gs (gs ! i) g'"
    using step_goroutine_instr[OF assms(2)] by blast
  show ?thesis
    unfolding exclusive_def
  proof (intro allI impI)
    fix a b l
    assume ab: "a < length gs'" "b < length gs'" "a \<noteq> b" and w: "holds_write (gs' ! a) l"
    then have ab': "a < length gs" "b < length gs" using g'(1) by simp_all
    have ex: "holds_write (gs ! a) l \<Longrightarrow> \<not> holds_any (gs ! b) l"
      "holds_write (gs ! b) l \<Longrightarrow> \<not> holds_any (gs ! a) l"
      using assms(1) ab' ab(3) by (auto simp: exclusive_def)
    consider "a = i" | "b = i" | "a \<noteq> i" "b \<noteq> i" by blast
    then show "\<not> holds_any (gs' ! b) l"
    proof cases
      case 1
      with w i g'(1) have "holds_write g' l" by simp
      from instr_step_holds(1)[OF g'(2) this] 1 ex(1) ab'(2) ab(3) i g'(1) show ?thesis by auto
    next
      case 2
      with w ab(3) g'(1) have "holds_write (gs ! a) l" by simp
      with ex(1) 2 i ab'(1) instr_step_holds(2)[OF g'(2), of l] g'(1) show ?thesis by auto
    next
      case 3
      with w ex(1) g'(1) show ?thesis by simp
    qed
  qed
qed

lemma exclusive_spawn: "exclusive (map spawn progs)"
  by (auto simp: exclusive_def spawn_def holds_write_def)

lemma exclusive_reaches: "reaches (map spawn progs) gs \<Longrightarrow> exclusive gs"
  by (induction rule: reaches.induct) (auto intro: exclusive_spawn exclusive_step)

section \<open>Balanced locks\<close>

text \<open>A program that releases only what it holds and ends with nothing held.\<close>

fun balanced :: "(nat \<times> bool) list \<Rightarrow> instr list \<Rightarrow> bool" where
  "balanced held [] = (held = [])"
| "balanced held (RLk l # is) = balanced ((l, False) # held) is"
| "balanced held (WLk l # is) = balanced ((l, True) # held) is"
| "balanced held (RUn l # is) = ((l, False) \<in> set held \<and> balanced (remove1 (l, False) held) is)"
| "balanced held (WUn l # is) = ((l, True) \<in> set held \<and> balanced (remove1 (l, True) held) is)"

text \<open>What a program does above locks that are held already.\<close>

lemma balanced_frame:
  "balanced held xs \<Longrightarrow> balanced below ys \<Longrightarrow> balanced (held @ below) (xs @ ys)"
  by (induction held xs rule: balanced.induct) (auto simp: remove1_append)

lemma balanced_append:
  "balanced held xs \<Longrightarrow> balanced [] ys \<Longrightarrow> balanced held (xs @ ys)"
  using balanced_frame[of held xs "[]" ys] by simp

lemma balanced_concat: "\<forall>p \<in> set ps. balanced [] p \<Longrightarrow> balanced [] (concat ps)"
  by (induction ps) (auto intro: balanced_append)

definition all_balanced :: "goroutine list \<Rightarrow> bool" where
  "all_balanced gs \<longleftrightarrow> (\<forall>g \<in> set gs. balanced (g_held g) (g_todo g))"

lemma all_balanced_spawn: "all_balanced (map spawn progs) \<longleftrightarrow> (\<forall>p \<in> set progs. balanced [] p)"
  by (auto simp: all_balanced_def spawn_def)

text \<open>An invariant of each goroutine that its own steps keep is one of the whole.\<close>

lemma all_goroutines_step:
  assumes "\<forall>g \<in> set gs. P g" "step_goroutine gs i = Some gs'"
    and "\<And>g g'. P g \<Longrightarrow> instr_step gs g g' \<Longrightarrow> P g'"
  shows "\<forall>g \<in> set gs'. P g"
proof -
  obtain g' where i: "i < length gs" and g': "gs' = gs[i := g']" "instr_step gs (gs ! i) g'"
    using step_goroutine_instr[OF assms(2)] by blast
  have "P g'" using assms(1) i by (intro assms(3)[OF _ g'(2)]) simp
  moreover have "set gs' \<subseteq> insert g' (set gs)"
    unfolding g'(1) by (rule set_update_subset_insert)
  ultimately show ?thesis using assms(1) by blast
qed

lemma all_balanced_step:
  "all_balanced gs \<Longrightarrow> step_goroutine gs i = Some gs' \<Longrightarrow> all_balanced gs'"
  unfolding all_balanced_def
  by (erule (1) all_goroutines_step) (erule instr_stepE; auto)

lemma all_balanced_reaches: "reaches gs0 gs \<Longrightarrow> all_balanced gs0 \<Longrightarrow> all_balanced gs"
  by (induction rule: reaches.induct) (auto intro: all_balanced_step)

section \<open>Locks in increasing order\<close>

text \<open>
  A program that takes each lock above all it holds, releases only what it holds and ends with
  nothing held.
\<close>

fun ordered :: "(nat \<times> bool) list \<Rightarrow> instr list \<Rightarrow> bool" where
  "ordered held [] = (held = [])"
| "ordered held (RLk l # is) = ((\<forall>(l', b) \<in> set held. l' < l) \<and> ordered ((l, False) # held) is)"
| "ordered held (WLk l # is) = ((\<forall>(l', b) \<in> set held. l' < l) \<and> ordered ((l, True) # held) is)"
| "ordered held (RUn l # is) = ((l, False) \<in> set held \<and> ordered (remove1 (l, False) held) is)"
| "ordered held (WUn l # is) = ((l, True) \<in> set held \<and> ordered (remove1 (l, True) held) is)"

lemma ordered_append:
  "ordered held xs \<Longrightarrow> ordered [] ys \<Longrightarrow> ordered held (xs @ ys)"
  by (induction held xs rule: ordered.induct) auto

lemma ordered_concat: "\<forall>p \<in> set ps. ordered [] p \<Longrightarrow> ordered [] (concat ps)"
  by (induction ps) (auto intro: ordered_append)

definition all_ordered :: "goroutine list \<Rightarrow> bool" where
  "all_ordered gs \<longleftrightarrow> (\<forall>g \<in> set gs. ordered (g_held g) (g_todo g))"

lemma all_ordered_spawn: "all_ordered (map spawn progs) \<longleftrightarrow> (\<forall>p \<in> set progs. ordered [] p)"
  by (auto simp: all_ordered_def spawn_def)

lemma all_ordered_step:
  "all_ordered gs \<Longrightarrow> step_goroutine gs i = Some gs' \<Longrightarrow> all_ordered gs'"
  unfolding all_ordered_def
  by (erule (1) all_goroutines_step) (erule instr_stepE; auto)

lemma all_ordered_reaches: "reaches gs0 gs \<Longrightarrow> all_ordered gs0 \<Longrightarrow> all_ordered gs"
  by (induction rule: reaches.induct) (auto intro: all_ordered_step)

text \<open>
  The lock that a goroutine waits for is held by another one (perhaps behind an announced writer);
  that one waits for a higher lock. So a goroutine waiting for the highest lock cannot exist.
\<close>

fun waits_for :: "goroutine \<Rightarrow> nat option" where
  "waits_for g = (case g_todo g of RLk l # _ \<Rightarrow> Some l | WLk l # _ \<Rightarrow> Some l | _ \<Rightarrow> None)"

lemma blocked_by_holder:
  assumes stuck: "\<forall>i < length gs. step_goroutine gs i = None" and o: "all_ordered gs"
    and g: "g \<in> set gs" "g_todo g \<noteq> []"
  shows "\<exists>l. waits_for g = Some l \<and> (\<exists>u \<in> set gs. holds_any u l)"
proof -
  obtain i where i: "i < length gs" "g = gs ! i" using g(1) by (metis in_set_conv_nth)
  have og: "ordered (g_held g) (g_todo g)" using o g(1) by (simp add: all_ordered_def)
  have behind: "\<exists>u \<in> set gs. holds_any u l"
    if ann: "\<exists>u \<in> set gs. holds_write u l \<or> announced u l" for l
  proof -
    from ann obtain u where u: "u \<in> set gs" "holds_write u l \<or> announced u l" by blast
    show ?thesis
    proof (cases "holds_write u l")
      case True
      with u(1) show ?thesis by (auto intro: holds_any_if_write)
    next
      case False
      with u(2) obtain rest where a: "g_wait u" "g_todo u = WLk l # rest"
        by (auto simp: announced_def split: list.splits instr.splits)
      obtain j where j: "j < length gs" "u = gs ! j" using u(1) by (metis in_set_conv_nth)
      have "step_goroutine gs j = None" using stuck j(1) by blast
      then show ?thesis using a j
        by (simp add: step_goroutine_def Let_def list_ex_iff split: if_splits)
    qed
  qed
  have "step_goroutine gs i = None" using stuck i(1) by blast
  from stuck_cases[OF i(1) this] show ?thesis
  proof cases
    case 1
    with g(2) i(2) show ?thesis by simp
  next
    case (2 l rest)
    with behind i(2) show ?thesis by simp
  next
    case (3 l rest)
    with behind i(2) show ?thesis by simp
  next
    case (4 l rest)
    with i(2) show ?thesis by simp
  next
    case (5 l rest)
    with og i(2) show ?thesis by simp
  next
    case (6 l rest)
    with og i(2) show ?thesis by simp
  qed
qed

lemma ordered_waits_above:
  "ordered (g_held u) (g_todo u) \<Longrightarrow> waits_for u = Some l' \<Longrightarrow> holds_any u l \<Longrightarrow> l < l'"
  by (auto simp: holds_any_def split: list.splits instr.splits)

lemma ordered_not_deadlocked:
  assumes o: "all_ordered gs"
  shows "\<not> deadlocked gs"
proof
  assume "deadlocked gs"
  then have nf: "\<not> finished gs" and stuck: "\<forall>i < length gs. step_goroutine gs i = None"
    by (auto simp: deadlocked_def list_all_iff)
  let ?W = "{l. \<exists>g \<in> set gs. waits_for g = Some l}"
  have "?W \<subseteq> the ` waits_for ` set gs" by force
  then have fin: "finite ?W" by (meson List.finite_set finite_imageI finite_subset)
  from nf obtain g where "g \<in> set gs" "g_todo g \<noteq> []" by (auto simp: finished_def list_all_iff)
  then have "?W \<noteq> {}" using blocked_by_holder[OF stuck o] by blast
  then have "Max ?W \<in> ?W" using fin by (rule Max_in[rotated])
  then obtain g where g: "g \<in> set gs" "waits_for g = Some (Max ?W)" by blast
  then have "g_todo g \<noteq> []" by (auto split: list.splits)
  with blocked_by_holder[OF stuck o g(1)] g(2) obtain u where
    u: "u \<in> set gs" "holds_any u (Max ?W)" by auto
  have ou: "ordered (g_held u) (g_todo u)" using o u(1) by (simp add: all_ordered_def)
  with u(2) have "g_todo u \<noteq> []" by (auto simp: holds_any_def)
  with blocked_by_holder[OF stuck o u(1)] obtain l' where l': "waits_for u = Some l'" by blast
  have "Max ?W < l'" by (rule ordered_waits_above[OF ou l' u(2)])
  moreover have "l' \<le> Max ?W" using fin l' u(1) by (intro Max_ge) auto
  ultimately show False by simp
qed

section \<open>Every schedule ends\<close>

text \<open>Two steps at most for each instruction: one to announce a writer, one to perform it.\<close>

definition work :: "goroutine \<Rightarrow> nat" where
  "work g = 2 * length (g_todo g) - (if g_wait g \<and> g_todo g \<noteq> [] then 1 else 0)"

definition total_work :: "goroutine list \<Rightarrow> nat" where
  "total_work gs = sum_list (map work gs)"

lemma instr_step_work: "instr_step gs g g' \<Longrightarrow> work g' < work g"
  by (erule instr_stepE) (auto simp: work_def)

lemma sum_list_update_less:
  "i < length xs \<Longrightarrow> y < xs ! i \<Longrightarrow> sum_list (xs[i := y]) < (sum_list xs :: nat)"
proof (induction xs arbitrary: i)
  case Nil
  then show ?case by simp
next
  case (Cons x xs)
  then show ?case by (cases i) auto
qed

lemma step_work:
  assumes "step_goroutine gs i = Some gs'"
  shows "total_work gs' < total_work gs"
proof -
  obtain g' where "i < length gs" "gs' = gs[i := g']" "instr_step gs (gs ! i) g'"
    using step_goroutine_instr[OF assms] by blast
  then show ?thesis
    using sum_list_update_less[of i "map work gs" "work g'"] instr_step_work
    by (simp add: total_work_def map_update)
qed

lemma schedule_bounded: "run_schedule gs is = Some gs' \<Longrightarrow> length is + total_work gs' \<le> total_work gs"
proof (induction "is" arbitrary: gs)
  case Nil
  then show ?case by simp
next
  case (Cons i "is")
  then obtain gs1 where s: "step_goroutine gs i = Some gs1" "run_schedule gs1 is = Some gs'"
    by (auto simp: bind_eq_Some_conv)
  with Cons.IH[OF s(2)] step_work[OF s(1)] show ?case by simp
qed

end
