(* ===== verification/Lock_Programs.thy ===== *)
theory Lock_Programs
  imports RW_Locks
begin

text \<open>
  The lock calls of the backends' methods, in the order the methods make them, as programs of
  \<open>RW_Locks\<close>. Lock 0 is a storage's \<open>mutex\<close>, lock 1 the SQLite storage's \<open>cachingMutex\<close>, lock 2 the
  package's \<open>typeRegistryLock\<close>. The in-memory storages and all of SQLite but a Len that misses its
  cache take their locks in increasing order; that Len takes them in the other order.
\<close>

section \<open>Calls\<close>

text \<open>
  The calls, with what decides which locks they take: whether an entry was found and the adapter
  looked its type up, whether a stored value is nil (no lookup), of a known type, or of a new one
  (\<open>Some True\<close>), how far SQLite's Delete got (0: there were no keys; 1: no transaction or statement;
  2: to the end), and how often the count cache was found stale (0, 1 or 2 times; in-memory storages
  have no cache). \<open>LRefused\<close> is a call whose value, or on SQLite whose key, does not encode, so that it
  never reaches the lock of the storage. A Range lists the entries it visits: whether the adapter
  looked the type up, and the calls that the callback then makes on the same map, which run while
  Range holds its lock.
\<close>

datatype lock_call =
    LLoad bool | LStore "bool option" | LRefused "bool option" | LDelete nat
  | LRange "(bool \<times> lock_call list) list" | LKeys
  | LNext bool bool | LLen nat | LClear | LClose

text \<open>\<open>mightyMapDefaultStorageV\<close>, \<open>mightyMapDefaultStorage\<close> and \<open>mightyMapSwissStorage\<close>.\<close>

fun memory_locks :: "lock_call \<Rightarrow> instr list" where
  "memory_locks (LLoad looked) = [RLk 0, RUn 0]"
| "memory_locks (LStore type) = [WLk 0, WUn 0]"
| "memory_locks (LRefused type) = []"
| "memory_locks (LDelete n) = [WLk 0, WUn 0]"
| "memory_locks (LRange es) =
     [RLk 0] @ concat (map (\<lambda>(looked, cs). concat (map memory_locks cs)) es) @ [RUn 0]"
| "memory_locks LKeys = [RLk 0, RUn 0]"
| "memory_locks (LNext found looked) =
     [RLk 0, RUn 0] @ (if found then [WLk 0, WUn 0] else [])"
| "memory_locks (LLen n) = [RLk 0, RUn 0]"
| "memory_locks LClear = [WLk 0, WUn 0]"
| "memory_locks LClose = []"

text \<open>\<open>invalidateCountCache\<close> runs under the write lock of \<open>mutex\<close>.\<close>

definition invalidate_locks :: "instr list" where
  "invalidate_locks = [WLk 1, WUn 1]"

fun sqlite_locks :: "lock_call \<Rightarrow> instr list" where
  "sqlite_locks (LLoad looked) = [RLk 0, RUn 0]"
| "sqlite_locks (LStore type) = [WLk 0] @ invalidate_locks @ [WUn 0]"
| "sqlite_locks (LRefused type) = []"
| "sqlite_locks (LDelete n) =
     (if n = 0 then [] else [WLk 0] @ (if n = 1 then [] else invalidate_locks) @ [WUn 0])"
| "sqlite_locks (LRange es) =
     [RLk 0] @ concat (map (\<lambda>(looked, cs). concat (map sqlite_locks cs)) es) @ [RUn 0]"
| "sqlite_locks LKeys = [RLk 0, RUn 0]"
| "sqlite_locks (LNext found looked) = [WLk 0] @ (if found then invalidate_locks else []) @ [WUn 0]"
| "sqlite_locks (LLen stale) =
     [RLk 1, RUn 1] @
     (if stale = 0 then []
      else [WLk 1] @ (if stale = 1 then [] else [RLk 0, RUn 0]) @ [WUn 1])"
| "sqlite_locks LClear = [WLk 0] @ invalidate_locks @ [WUn 0]"
| "sqlite_locks LClose = [WLk 0, WUn 0]"

text \<open>
  The adapter in front of a storage: encoding looks the type up before the storage is called (and
  registers a new one), decoding looks it up after Load and Next, and inside the storage's Range
  before the callback is called, whose calls go through the adapter again.
\<close>

definition registry_read :: "instr list" where
  "registry_read = [RLk 2, RUn 2]"

definition encode_locks :: "bool option \<Rightarrow> instr list" where
  "encode_locks type =
     (case type of
        None \<Rightarrow> []
      | Some is_new \<Rightarrow> registry_read @ (if is_new then [WLk 2, WUn 2] else []))"

fun adapter_locks :: "(lock_call \<Rightarrow> instr list) \<Rightarrow> lock_call \<Rightarrow> instr list" where
  "adapter_locks st (LLoad looked) = st (LLoad looked) @ (if looked then registry_read else [])"
| "adapter_locks st (LStore type) = encode_locks type @ st (LStore type)"
| "adapter_locks st (LRefused type) = encode_locks type"
| "adapter_locks st (LNext found looked) =
     st (LNext found looked) @ (if found \<and> looked then registry_read else [])"
| "adapter_locks st (LRange es) =
     butlast (st (LRange [])) @
     concat (map (\<lambda>(looked, cs).
       (if looked then registry_read else []) @ concat (map (adapter_locks st) cs)) es) @
     [last (st (LRange []))]"
| "adapter_locks st c = st c"

text \<open>A Range whose callback makes no calls on the map it visits; all other calls are quiet.\<close>

fun quiet :: "lock_call \<Rightarrow> bool" where
  "quiet (LRange es) \<longleftrightarrow> (\<forall>(looked, cs) \<in> set es. cs = [])"
| "quiet _ \<longleftrightarrow> True"

text \<open>A goroutine that makes a sequence of calls.\<close>

definition calls :: "('c \<Rightarrow> instr list) \<Rightarrow> 'c list \<Rightarrow> goroutine" where
  "calls locks cs = spawn (concat (map locks cs))"

section \<open>Order\<close>

lemma quiet_bodies:
  "quiet (LRange es) \<Longrightarrow> concat (map (\<lambda>(looked, cs). f looked @ concat (map g cs)) es) =
    concat (map (\<lambda>(looked, cs). f looked) es)"
  by (rule arg_cong[where f = concat]) auto

lemma quiet_silent:
  "quiet (LRange es) \<Longrightarrow> concat (map (\<lambda>(looked, cs). concat (map g cs)) es) = []"
  by auto

lemma memory_ordered: "quiet c \<Longrightarrow> ordered [] (memory_locks c)"
proof (cases c)
  case (LRange es)
  moreover assume "quiet c"
  ultimately show ?thesis by (simp add: quiet_silent del: quiet.simps)
qed auto

fun misses_cache :: "lock_call \<Rightarrow> bool" where
  "misses_cache (LLen stale) = (stale \<ge> 2)"
| "misses_cache _ = False"

lemma sqlite_ordered_iff: "quiet c \<Longrightarrow> ordered [] (sqlite_locks c) \<longleftrightarrow> \<not> misses_cache c"
proof (cases c)
  case (LRange es)
  moreover assume "quiet c"
  ultimately show ?thesis by (simp add: quiet_silent del: quiet.simps)
qed (auto simp: invalidate_locks_def)

lemma registry_reads_ordered:
  "ordered [(0, False)] (concat (map (\<lambda>(looked, cs). if looked then registry_read else []) es) @ [RUn 0])"
  by (induction es) (auto simp: registry_read_def)

lemma adapter_ordered:
  assumes "\<And>c. quiet c \<Longrightarrow> ordered [] (st c) \<or> bad c" "\<not> bad c" "quiet c" "st (LRange []) = [RLk 0, RUn 0]"
  shows "ordered [] (adapter_locks st c)"
proof -
  have r: "ordered [] registry_read" "ordered [] (encode_locks type)" for type
    by (auto simp: registry_read_def encode_locks_def split: option.split)
  have c: "ordered [] (st c)" using assms(1-3) by blast
  show ?thesis
  proof (cases c)
    case (LRange es)
    with assms(3,4) registry_reads_ordered[of es] show ?thesis by (simp add: quiet_bodies)
  qed (use c r in \<open>auto intro: ordered_append\<close>)
qed

text \<open>
  Every method of every storage releases what it takes, the Len that misses its cache too, and
  whatever the callbacks of a Range do.
\<close>

lemma balanced_bodies:
  "\<forall>(looked, cs) \<in> set es. balanced [] (f looked) \<and> (\<forall>c \<in> set cs. balanced [] (g c)) \<Longrightarrow>
    balanced [] (concat (map (\<lambda>(looked, cs). f looked @ concat (map g cs)) es))"
  by (induction es) (auto intro!: balanced_append balanced_concat)

lemma balanced_range:
  assumes "balanced [] body"
  shows "balanced [] ([RLk 0] @ body @ [RUn 0])"
  using balanced_frame[OF assms, of "[(0, False)]" "[RUn 0]"] by simp

lemma memory_balanced: "balanced [] (memory_locks c)"
proof (induction c rule: memory_locks.induct)
  case (5 es)
  then have "\<forall>(looked, cs) \<in> set es. balanced [] [] \<and> (\<forall>c \<in> set cs. balanced [] (memory_locks c))"
    by fastforce
  from balanced_range[OF balanced_bodies[OF this]] show ?case by simp
qed auto

lemma sqlite_balanced: "balanced [] (sqlite_locks c)"
proof (induction c rule: sqlite_locks.induct)
  case (5 es)
  then have "\<forall>(looked, cs) \<in> set es. balanced [] [] \<and> (\<forall>c \<in> set cs. balanced [] (sqlite_locks c))"
    by fastforce
  from balanced_range[OF balanced_bodies[OF this]] show ?case by simp
qed (auto simp: invalidate_locks_def)

lemma adapter_balanced:
  assumes "\<And>c. balanced [] (st c)" "st (LRange []) = [RLk 0, RUn 0]"
  shows "balanced [] (adapter_locks st c)"
  using assms
proof (induction st c rule: adapter_locks.induct)
  case (5 st es)
  let ?look = "\<lambda>looked. if looked then registry_read else []"
  have "\<forall>(looked, cs) \<in> set es. balanced [] (?look looked) \<and>
      (\<forall>c \<in> set cs. balanced [] (adapter_locks st c))"
    using 5 by (fastforce simp: registry_read_def)
  from balanced_range[OF balanced_bodies[OF this]] 5(3) show ?case by simp
qed (auto simp: registry_read_def encode_locks_def intro: balanced_append split: option.split)

lemma calls_as_programs: "map (calls locks) css = map spawn (map (\<lambda>cs. concat (map locks cs)) css)"
  by (simp add: calls_def)

lemma calls_balanced:
  assumes "\<And>c. balanced [] (locks c)"
  shows "all_balanced (map (calls locks) css)"
  unfolding calls_as_programs all_balanced_spawn using assms by (auto intro!: balanced_concat)

lemma calls_ordered:
  assumes "\<forall>cs \<in> set css. \<forall>c \<in> set cs. ordered [] (locks c)"
  shows "all_ordered (map (calls locks) css)"
  unfolding calls_as_programs all_ordered_spawn using assms by (auto intro!: ordered_concat)

text \<open>
  Goroutines whose calls are ordered never deadlock, and a schedule that cannot go on has finished
  them all.
\<close>

lemma ordered_calls_safe:
  assumes "\<forall>cs \<in> set css. \<forall>c \<in> set cs. ordered [] (locks c)" "reaches (map (calls locks) css) gs"
  shows "\<not> deadlocked gs"
  by (rule ordered_not_deadlocked[OF all_ordered_reaches[OF assms(2) calls_ordered[OF assms(1)]]])

end
