(* ===== verification/Interleaving.thy ===== *)
theory Interleaving
  imports Direct_Storage Mighty_Map
begin

text \<open>
  Methods that enter the storage's mutex more than once, as processes: each critical section is one
  atomic step, and other goroutines run between two sections. Next of the in-memory storages is a
  Range followed by a Delete, and \<open>mightymap.go\<close>'s Store (without overwriting) and Pop are a Load
  followed by a write. Run alone, a process is the method of the sequential model; interleaved
  with another one, it is not.
\<close>

section \<open>Processes\<close>

datatype ('s, 'r) proc = Done 'r | Sect "'s \<Rightarrow> 's \<times> ('s, 'r) proc"

text \<open>Running a process alone.\<close>

primrec alone :: "('s, 'r) proc \<Rightarrow> 's \<Rightarrow> 'r \<times> 's" where
  "alone (Done r) = (\<lambda>s. (r, s))"
| "alone (Sect f) = (\<lambda>s. (let (s', h) = map_prod id alone (f s) in h s'))"

lemma alone_Sect [simp]: "alone (Sect f) s = alone (snd (f s)) (fst (f s))"
  by (simp add: Let_def case_prod_beta)

declare alone.simps(2) [simp del]

text \<open>
  Two goroutines over a shared state: the schedule names the one that runs its next critical
  section (True the first); a finished one stays as it is.
\<close>

fun sect_step :: "'s \<Rightarrow> ('s, 'r) proc \<Rightarrow> 's \<times> ('s, 'r) proc" where
  "sect_step s (Done r) = (s, Done r)"
| "sect_step s (Sect f) = f s"

fun interleave :: "bool list \<Rightarrow> 's \<Rightarrow> ('s, 'a) proc \<Rightarrow> ('s, 'b) proc \<Rightarrow>
    's \<times> ('s, 'a) proc \<times> ('s, 'b) proc" where
  "interleave [] s p q = (s, p, q)"
| "interleave (True # bs) s p q = (let (s', p') = sect_step s p in interleave bs s' p' q)"
| "interleave (False # bs) s p q = (let (s', q') = sect_step s q in interleave bs s' p q')"

section \<open>Next in memory\<close>

text \<open>The range under the read lock, then the deletion under the write lock.\<close>

definition next_proc ::
  "'k \<Rightarrow> 'v \<Rightarrow> ('k, 'v) order \<Rightarrow> (('k, 'v) direct, ('k \<times> 'v \<times> bool) outcome) proc" where
  "next_proc zk zv ord =
     Sect (\<lambda>c. (c,
       case direct_Range ord c first_cb (zk, zv) of
         Ret (key, value) \<Rightarrow>
           if key \<noteq> zk then Sect (\<lambda>c'. (direct_Delete c' [key], Done (Ret (key, value, True))))
           else Done (Ret (key, value, False))
       | Panic e \<Rightarrow> Done (Panic e)
       | Hang \<Rightarrow> Done Hang))"

lemma next_proc_alone:
  "direct_Next zk zv ord c =
    obind (fst (alone (next_proc zk zv ord) c)) (\<lambda>r. Ret (r, snd (alone (next_proc zk zv ord) c)))"
  by (cases "direct_Range ord c first_cb (zk, zv)") (auto simp: direct_Next_def next_proc_def)

text \<open>One section around both would be atomic.\<close>

definition next_locked_proc ::
  "'k \<Rightarrow> 'v \<Rightarrow> ('k, 'v) order \<Rightarrow> (('k, 'v) direct, ('k \<times> 'v \<times> bool) outcome) proc" where
  "next_locked_proc zk zv ord =
     Sect (\<lambda>c. case direct_Next zk zv ord c of
       Ret (r, c') \<Rightarrow> (c', Done (Ret r)) | Panic e \<Rightarrow> (c, Done (Panic e)) | Hang \<Rightarrow> (c, Done Hang))"

text \<open>Both goroutines look before either deletes: both return the same entry.\<close>

lemma next_race:
  assumes "ord (direct_data c) = (k, v) # es" "k \<noteq> zk"
  shows "interleave [True, False, True, False] c (next_proc zk zv ord) (next_proc zk zv ord) =
    (direct_Delete (direct_Delete c [k]) [k], Done (Ret (k, v, True)), Done (Ret (k, v, True)))"
  using assms by (simp add: next_proc_def direct_Range_def range_loop_first)

section \<open>Store without overwriting, and Pop\<close>

definition store_proc ::
  "('s, 'k, 'v, 'c) storage_ops \<Rightarrow> bool \<Rightarrow> 'k \<Rightarrow> 'v \<Rightarrow> ('s, unit outcome) proc" where
  "store_proc ops allow key value =
     (let write = Sect (\<lambda>s. case op_Store ops s key value of
                      Ret s' \<Rightarrow> (s', Done (Ret ())) | Panic e \<Rightarrow> (s, Done (Panic e))
                    | Hang \<Rightarrow> (s, Done Hang))
      in if allow then write
         else Sect (\<lambda>s. (s, case op_Load ops s key of
                 Ret (_, ok) \<Rightarrow> if \<not> ok then write else Done (Ret ())
               | Panic e \<Rightarrow> Done (Panic e) | Hang \<Rightarrow> Done Hang)))"

definition pop_proc ::
  "('s, 'k, 'v, 'c) storage_ops \<Rightarrow> 'k \<Rightarrow> ('s, ('v \<times> bool) outcome) proc" where
  "pop_proc ops key =
     Sect (\<lambda>s. (s, case op_Load ops s key of
         Ret (v, ok) \<Rightarrow>
           if \<not> ok then Done (Ret (v, ok))
           else Sect (\<lambda>s'. case op_Delete ops s' [key] of
                  Ret s'' \<Rightarrow> (s'', Done (Ret (v, True)))
                | Panic e \<Rightarrow> (s', Done (Panic e)) | Hang \<Rightarrow> (s', Done Hang))
       | Panic e \<Rightarrow> Done (Panic e) | Hang \<Rightarrow> Done Hang))"

lemma store_proc_alone:
  "Map_Store ops m k v =
    obind (fst (alone (store_proc ops (mm_allowOverwrite m) k v) (mm_storage m))) (\<lambda>_.
      Ret (m\<lparr>mm_storage := snd (alone (store_proc ops (mm_allowOverwrite m) k v) (mm_storage m))\<rparr>))"
  by (cases "op_Store ops (mm_storage m) k v"; cases "op_Load ops (mm_storage m) k")
    (auto simp: Map_Store_def store_proc_def set_storage_def Let_def)

lemma pop_proc_alone:
  "Map_Pop ops m k =
    obind (fst (alone (pop_proc ops k) (mm_storage m))) (\<lambda>r.
      Ret (r, m\<lparr>mm_storage := snd (alone (pop_proc ops k) (mm_storage m))\<rparr>))"
  by (cases "op_Load ops (mm_storage m) k"; cases "op_Delete ops (mm_storage m) [k]")
    (auto simp: Map_Pop_def pop_proc_def)

context kv_core
begin

text \<open>
  Two stores of one absent key into a map that must not overwrite: both write, and the value of
  the one that wrote first is lost.
\<close>

lemma store_race:
  assumes "eok e" "sinv s" "kok k" "vok v" "vok w" "k \<notin> dom (amap s)"
  shows "\<exists>s'. interleave [True, False, True, False] s
      (store_proc (ops e) False k v) (store_proc (ops e) False k w) =
      (s', Done (Ret ()), Done (Ret ())) \<and> amap s' = (amap s)(k \<mapsto> w)"
proof -
  obtain s1 where s1: "op_Store (ops e) s k v = Ret s1" "sinv s1" "amap s1 = (amap s)(k \<mapsto> v)"
    using Store_spec assms by blast
  obtain s2 where s2: "op_Store (ops e) s1 k w = Ret s2" "amap s2 = (amap s1)(k \<mapsto> w)"
    using Store_spec[OF assms(1) s1(2) assms(3,5)] by blast
  have "op_Load (ops e) s k = Ret (zv, False)"
    using Load_spec[OF assms(1-3)] assms(6) by (simp add: lookup_result_def domIff)
  with s1 s2 show ?thesis by (simp add: store_proc_def Let_def)
qed

text \<open>Two pops of one key: both return its value.\<close>

lemma pop_race:
  assumes "eok e" "sinv s" "kok k" "amap s k = Some v"
  shows "\<exists>s'. interleave [True, False, True, False] s (pop_proc (ops e) k) (pop_proc (ops e) k) =
      (s', Done (Ret (v, True)), Done (Ret (v, True))) \<and> amap s' = (amap s)(k := None)"
proof -
  obtain s1 where s1: "op_Delete (ops e) s [k] = Ret s1" "sinv s1" "amap s1 = (amap s)(k := None)"
    using Delete_one_spec[OF assms(1-3)] by blast
  obtain s2 where s2: "op_Delete (ops e) s1 [k] = Ret s2" "amap s2 = (amap s1)(k := None)"
    using Delete_one_spec[OF assms(1) s1(2) assms(3)] by blast
  have "op_Load (ops e) s k = Ret (v, True)"
    using Load_spec[OF assms(1-3)] assms(4) by (simp add: lookup_result_def)
  with s1 s2 show ?thesis by (simp add: pop_proc_def)
qed

end

end
