(* ===== verification/Migration_Core.thy ===== *)
theory Migration_Core
  imports Mighty_Map Go_Strings
begin

text \<open>
  What the two migration programs under \<open>cmd/\<close> have in common: the settings of the migration, the
  statistics, the pattern test, the write into the new map, and the contract of the callback they
  hand to the legacy map's Range, as the locale \<open>migration_step\<close>. Progress messages are output
  only and left out; the errors that end a run are kept.
\<close>

section \<open>Settings and statistics\<close>

record migration_config =
  BatchSize :: int
  LogInterval :: int
  BackupOriginal :: bool
  Timeout :: int
  KeyPattern :: string

text \<open>The configuration file: the two stores and the migration.\<close>

record ('c, 'm) migrate_config =
  cf_Source :: 'c
  cf_Target :: 'c
  cf_Migration :: 'm

text \<open>Times are nanoseconds.\<close>

record migration_stats =
  TotalKeys :: int
  MigratedKeys :: int
  SkippedKeys :: int
  ErrorKeys :: int
  StartTime :: int
  EndTime :: int
  Errors :: "string list"

definition new_stats :: "int \<Rightarrow> migration_stats" where
  "new_stats now =
     \<lparr>TotalKeys = 0, MigratedKeys = 0, SkippedKeys = 0, ErrorKeys = 0, StartTime = now,
      EndTime = 0, Errors = []\<rparr>"

text \<open>
  The variables the callback closes over: the statistics, the batch counter, the new map (none in a
  dry run) and, so that the pauses can be counted, their number.
\<close>

record 's migration =
  mg_stats :: migration_stats
  mg_batchCount :: int
  mg_newStore :: "'s mightymap option"
  mg_pauses :: nat

section \<open>Shared functions\<close>

definition matchPattern :: "string \<Rightarrow> string \<Rightarrow> bool \<times> err option" where
  "matchPattern key pattern =
     (if pattern = ''*'' \<or> pattern = '''' then (True, None) else (key = pattern, None))"

definition migrateKeyValue ::
  "('s, string, 'v, 'c) storage_ops \<Rightarrow> 's mightymap \<Rightarrow> string \<Rightarrow> 'v \<Rightarrow>
    (err option \<times> 's mightymap) outcome" where
  "migrateKeyValue ops newStore key value =
     obind (Map_Store ops newStore key value) (\<lambda>m'. Ret (None, m'))"

text \<open>\<open>stats.TotalKeys % LogInterval\<close>, which is evaluated in verbose runs only.\<close>

definition log_progress :: "migration_config \<Rightarrow> bool \<Rightarrow> unit outcome" where
  "log_progress cfg verbose =
     (if verbose \<and> LogInterval cfg = 0 then Panic ''runtime error: integer divide by zero''
      else Ret ())"

text \<open>The branches of the callback that change the statistics.\<close>

definition count_seen :: "'s migration \<Rightarrow> 's migration" where
  "count_seen st = st\<lparr>mg_stats := (mg_stats st)\<lparr>TotalKeys := TotalKeys (mg_stats st) + 1\<rparr>\<rparr>"

definition count_skipped :: "'s migration \<Rightarrow> 's migration" where
  "count_skipped st = st\<lparr>mg_stats := (mg_stats st)\<lparr>SkippedKeys := SkippedKeys (mg_stats st) + 1\<rparr>\<rparr>"

definition count_migrated :: "'s migration \<Rightarrow> 's migration" where
  "count_migrated st =
     st\<lparr>mg_stats := (mg_stats st)\<lparr>MigratedKeys := MigratedKeys (mg_stats st) + 1\<rparr>\<rparr>"

definition count_error :: "string \<Rightarrow> 's migration \<Rightarrow> 's migration" where
  "count_error msg st =
     st\<lparr>mg_stats := (mg_stats st)\<lparr>ErrorKeys := ErrorKeys (mg_stats st) + 1,
          Errors := Errors (mg_stats st) @ [msg]\<rparr>\<rparr>"

lemmas count_defs = count_seen_def count_skipped_def count_migrated_def count_error_def

text \<open>The write, or in a dry run only the count.\<close>

definition migrate_one ::
  "('s, string, 'v, 'c) storage_ops \<Rightarrow> string \<Rightarrow> string \<Rightarrow> 'v \<Rightarrow> 's migration \<Rightarrow> 's migration outcome"
where
  "migrate_one ops key newKey value st =
     (case mg_newStore st of
        None \<Rightarrow> Ret (count_migrated st)
      | Some m \<Rightarrow>
          obind (migrateKeyValue ops m newKey value) (\<lambda>(err, m').
            Ret (case err of
                   Some e \<Rightarrow> count_error (''Failed to migrate key '' @ key @ '': '' @ e)
                               (st\<lparr>mg_newStore := Some m'\<rparr>)
                 | None \<Rightarrow> count_migrated (st\<lparr>mg_newStore := Some m'\<rparr>))))"

text \<open>The end of the callback: the pause after a batch, and the test of the context.\<close>

definition end_of_key ::
  "migration_config \<Rightarrow> (int \<Rightarrow> bool) \<Rightarrow> 's migration \<Rightarrow> bool \<times> 's migration" where
  "end_of_key cfg ctx_done st =
     (let n = mg_batchCount st + 1;
          st' = (if n \<ge> BatchSize cfg
                 then st\<lparr>mg_batchCount := 0, mg_pauses := Suc (mg_pauses st)\<rparr>
                 else st\<lparr>mg_batchCount := n\<rparr>)
      in (\<not> ctx_done (TotalKeys (mg_stats st')), st'))"

text \<open>The deferred Close of the new map, whose error nobody looks at.\<close>

definition close_new ::
  "('s, 'k, 'v, 'c) storage_ops \<Rightarrow> 's mightymap option \<Rightarrow> 's mightymap option outcome" where
  "close_new ops newStore =
     (case newStore of
        None \<Rightarrow> Ret None
      | Some m \<Rightarrow> obind (Map_Close ops m) (\<lambda>(_, m'). Ret (Some m')))"

text \<open>
  The error section of the final report: at most ten errors, and after the tenth a line with the
  number of the others.
\<close>

fun error_lines :: "nat \<Rightarrow> nat \<Rightarrow> string list \<Rightarrow> string list" where
  "error_lines n i [] = []"
| "error_lines n i (e # es) =
     (''  '' @ nat_digits (i + 1) @ ''. '' @ e) #
     (if i \<ge> 9 then [''  ... and '' @ go_itoa (int n - 10) @ '' more errors'']
      else error_lines n (i + 1) es)"

definition printStats_errors :: "migration_stats \<Rightarrow> string list" where
  "printStats_errors stats = error_lines (length (Errors stats)) 0 (Errors stats)"

lemma error_lines_Nil [simp]: "error_lines n i es = [] \<longleftrightarrow> es = []"
  by (cases es) simp_all

lemma error_lines_len:
  "i < 10 \<Longrightarrow> length (error_lines n i es) = (if i + length es < 10 then length es else 11 - i)"
  by (induction n i es rule: error_lines.induct) (auto simp: less_Suc_eq)

lemma error_lines_rest:
  "i < 10 \<Longrightarrow> 10 \<le> i + length es \<Longrightarrow>
    ''  ... and '' @ go_itoa (int n - 10) @ '' more errors'' \<in> set (error_lines n i es)"
  by (induction n i es rule: error_lines.induct) auto

lemma error_lines_shows:
  "j < length es \<Longrightarrow> i + j < 10 \<Longrightarrow>
    ''  '' @ nat_digits (i + j + 1) @ ''. '' @ es ! j \<in> set (error_lines n i es)"
proof (induction es arbitrary: i j)
  case Nil
  then show ?case by simp
next
  case (Cons e es)
  show ?case
  proof (cases j)
    case 0
    then show ?thesis by simp
  next
    case (Suc j')
    with Cons.prems Cons.IH[of j' "i + 1"] show ?thesis by (simp del: nat_digits.simps)
  qed
qed

section \<open>The accounting\<close>

definition stats_balanced :: "migration_stats \<Rightarrow> bool" where
  "stats_balanced s \<longleftrightarrow>
     TotalKeys s = MigratedKeys s + SkippedKeys s + ErrorKeys s \<and>
     0 \<le> MigratedKeys s \<and> 0 \<le> SkippedKeys s \<and> ErrorKeys s = int (length (Errors s))"

lemma new_stats_balanced [simp]: "stats_balanced (new_stats now)"
  by (simp add: stats_balanced_def new_stats_def)

lemma new_stats_zero [simp]: "TotalKeys (new_stats now) = 0" "ErrorKeys (new_stats now) = 0"
  by (simp_all add: new_stats_def)

lemma stats_balanced_end [simp]: "stats_balanced (s\<lparr>EndTime := t\<rparr>) = stats_balanced s"
  by (simp add: stats_balanced_def)

text \<open>The balance in the middle of the callback: one key is seen and not yet counted.\<close>

definition one_pending :: "migration_stats \<Rightarrow> bool" where
  "one_pending s \<longleftrightarrow> stats_balanced (s\<lparr>TotalKeys := TotalKeys s - 1\<rparr>)"

lemma one_pending_seen: "stats_balanced (mg_stats st) \<Longrightarrow> one_pending (mg_stats (count_seen st))"
  by (simp add: one_pending_def stats_balanced_def count_defs)

lemma balanced_counts:
  assumes "one_pending (mg_stats st)"
  shows "stats_balanced (mg_stats (count_skipped st))"
    and "stats_balanced (mg_stats (count_migrated st))"
    and "stats_balanced (mg_stats (count_error msg st))"
  using assms by (simp_all add: one_pending_def stats_balanced_def count_defs)

lemma count_new_store [simp]:
  "mg_newStore (count_seen st) = mg_newStore st" "mg_newStore (count_skipped st) = mg_newStore st"
  "mg_newStore (count_migrated st) = mg_newStore st"
  "mg_newStore (count_error msg st) = mg_newStore st"
  by (simp_all add: count_defs)

lemma count_total [simp]:
  "TotalKeys (mg_stats (count_seen st)) = TotalKeys (mg_stats st) + 1"
  "TotalKeys (mg_stats (count_skipped st)) = TotalKeys (mg_stats st)"
  "TotalKeys (mg_stats (count_migrated st)) = TotalKeys (mg_stats st)"
  "TotalKeys (mg_stats (count_error msg st)) = TotalKeys (mg_stats st)"
  by (simp_all add: count_defs)

lemma end_of_key_keeps [simp]:
  "mg_stats (snd (end_of_key cfg ctx_done st)) = mg_stats st"
  "mg_newStore (snd (end_of_key cfg ctx_done st)) = mg_newStore st"
  "fst (end_of_key cfg ctx_done st) = (\<not> ctx_done (TotalKeys (mg_stats st)))"
  by (simp_all add: end_of_key_def Let_def)

lemma end_of_key_ex:
  "\<exists>st1. end_of_key cfg ctx_done st = (\<not> ctx_done (TotalKeys (mg_stats st)), st1) \<and>
    mg_stats st1 = mg_stats st \<and> mg_newStore st1 = mg_newStore st"
  by (simp add: end_of_key_def Let_def)

lemma migrate_one_None [simp]:
  "mg_newStore st = None \<Longrightarrow> migrate_one ops key newKey value st = Ret (count_migrated st)"
  by (simp add: migrate_one_def)

lemma migrate_one_Some:
  "mg_newStore st = Some m \<Longrightarrow> migrate_one ops key newKey value st =
    obind (Map_Store ops m newKey value) (\<lambda>m'.
      Ret (count_migrated (st\<lparr>mg_newStore := Some m'\<rparr>)))"
  by (simp add: migrate_one_def migrateKeyValue_def obind_assoc)

text \<open>The last part of both callbacks: the write, then the pause and the test of the context.\<close>

lemma finish_dry:
  assumes "mg_newStore st = None"
  shows "\<exists>st'. obind (migrate_one ops key newKey value (count_seen st)) (\<lambda>st2.
      Ret (end_of_key cfg ctx_done st2)) = Ret (\<not> ctx_done (TotalKeys (mg_stats st) + 1), st') \<and>
    mg_newStore st' = None \<and> mg_stats st' = mg_stats (count_migrated (count_seen st))"
  using assms end_of_key_ex[of cfg ctx_done "count_migrated (count_seen st)"] by auto

lemma finish_write:
  assumes "mg_newStore st = Some m" "Map_Store ops m newKey value = Ret m'"
  shows "\<exists>st'. obind (migrate_one ops key newKey value (count_seen st)) (\<lambda>st2.
      Ret (end_of_key cfg ctx_done st2)) = Ret (\<not> ctx_done (TotalKeys (mg_stats st) + 1), st') \<and>
    mg_newStore st' = Some m' \<and> mg_stats st' = mg_stats (count_migrated (count_seen st))"
proof -
  have "mg_newStore (count_seen st) = Some m" using assms(1) by simp
  note w = migrate_one_Some[OF this, of ops key newKey "value"]
  let ?s = "count_migrated ((count_seen st)\<lparr>mg_newStore := Some m'\<rparr>)"
  have "mg_stats ?s = mg_stats (count_migrated (count_seen st))"
    "TotalKeys (mg_stats ?s) = TotalKeys (mg_stats st) + 1" "mg_newStore ?s = Some m'"
    by (simp_all add: count_defs)
  with end_of_key_ex[of cfg ctx_done ?s] show ?thesis unfolding w assms(2) obind.simps by auto
qed

lemma finish_dies:
  assumes "mg_newStore st = Some m" "\<nexists>m'. Map_Store ops m newKey value = Ret m'"
  shows "\<nexists>r. obind (migrate_one ops key newKey value (count_seen st)) (\<lambda>st2.
      Ret (end_of_key cfg ctx_done st2)) = Ret r"
proof -
  have "mg_newStore (count_seen st) = Some m" using assms(1) by simp
  note w = migrate_one_Some[OF this, of ops key newKey "value"]
  from assms(2) show ?thesis unfolding w by (auto simp: obind_eq_Ret_iff)
qed

lemma matchPattern_no_error [simp]: "snd (matchPattern key pat) = None"
  by (simp add: matchPattern_def)

section \<open>The contract of the callback\<close>

text \<open>
  A callback of a migration: the keys it selects are \<open>sel\<close>, the new key of a key is \<open>ren\<close>,
  \<open>live\<close> says that its settings do not make it panic, \<open>ctx_done n\<close> that the context is done when the
  \<open>n\<close>-th key is finished, and \<open>store\<close> is the new map's Store. Skipped keys do not look at the
  context.
\<close>

locale migration_step =
  fixes cb :: "(string, 'v, 's migration) callback"
    and store :: "'s mightymap \<Rightarrow> string \<Rightarrow> 'v \<Rightarrow> 's mightymap outcome"
    and sel :: "string \<Rightarrow> bool" and ren :: "string \<Rightarrow> string"
    and live :: bool and ctx_done :: "int \<Rightarrow> bool"
  assumes cb_panics: "\<not> live \<Longrightarrow> \<exists>e. cb k v st = Panic e"
    and cb_skips: "live \<Longrightarrow> \<not> sel k \<Longrightarrow> \<exists>st'. cb k v st = Ret (True, st') \<and>
      mg_newStore st' = mg_newStore st \<and> mg_stats st' = mg_stats (count_skipped (count_seen st))"
    and cb_dry: "live \<Longrightarrow> sel k \<Longrightarrow> mg_newStore st = None \<Longrightarrow>
      \<exists>st'. cb k v st = Ret (\<not> ctx_done (TotalKeys (mg_stats st) + 1), st') \<and>
        mg_newStore st' = None \<and> mg_stats st' = mg_stats (count_migrated (count_seen st))"
    and cb_writes: "live \<Longrightarrow> sel k \<Longrightarrow> mg_newStore st = Some m \<Longrightarrow> store m (ren k) v = Ret m' \<Longrightarrow>
      \<exists>st'. cb k v st = Ret (\<not> ctx_done (TotalKeys (mg_stats st) + 1), st') \<and>
        mg_newStore st' = Some m' \<and> mg_stats st' = mg_stats (count_migrated (count_seen st))"
    and cb_dies: "live \<Longrightarrow> sel k \<Longrightarrow> mg_newStore st = Some m \<Longrightarrow> \<nexists>m'. store m (ren k) v = Ret m' \<Longrightarrow>
      \<nexists>r. cb k v st = Ret r"
begin

text \<open>A selected key: what a callback that returns answers and counts, whether it writes or not.\<close>

lemma cb_selected:
  assumes "cb k v st = Ret (go, st')" "sel k"
  shows "go = (\<not> ctx_done (TotalKeys (mg_stats st) + 1)) \<and>
    mg_stats st' = mg_stats (count_migrated (count_seen st))"
proof -
  have live: live using cb_panics[of k v st] assms(1) by auto
  show ?thesis
  proof (cases "mg_newStore st")
    case None
    with cb_dry[OF live assms(2) None, of v] assms(1) show ?thesis by auto
  next
    case (Some m)
    with cb_dies[OF live assms(2) Some] assms(1) obtain m' where "store m (ren k) v = Ret m'" by blast
    with cb_writes[OF live assms(2) Some] assms(1) show ?thesis by fastforce
  qed
qed

text \<open>A run whose context is done at the first selected key ends there.\<close>

lemma run_cut:
  assumes "range_loop cb ((k, v) # es) st = Ret st'" "sel k" "ctx_done (TotalKeys (mg_stats st) + 1)"
  shows "mg_stats st' = mg_stats (count_migrated (count_seen st))"
proof -
  obtain go st1 where c: "cb k v st = Ret (go, st1)" "if go then range_loop cb es st1 = Ret st' else st1 = st'"
    using assms(1) by (auto simp: obind_eq_Ret_iff split: if_splits)
  from cb_selected[OF c(1) assms(2)] c(2) assms(3) show ?thesis by simp
qed

text \<open>Whatever the new map does, a callback that returns leaves balanced statistics.\<close>

lemma cb_balanced:
  assumes "cb k v st = Ret (go, st')" "stats_balanced (mg_stats st)"
  shows "stats_balanced (mg_stats st')" "TotalKeys (mg_stats st') = TotalKeys (mg_stats st) + 1"
    "ErrorKeys (mg_stats st') = ErrorKeys (mg_stats st)"
proof -
  have live: live using cb_panics[of k v st] assms(1) by auto
  note p = balanced_counts[OF one_pending_seen[OF assms(2)]]
  have "mg_stats st' = mg_stats (count_skipped (count_seen st)) \<or>
      mg_stats st' = mg_stats (count_migrated (count_seen st))"
  proof (cases "sel k")
    case False
    with cb_skips[OF live this, of v st] assms(1) show ?thesis by auto
  next
    case True
    with cb_selected[OF assms(1)] show ?thesis by blast
  qed
  with p show "stats_balanced (mg_stats st')"
    and "TotalKeys (mg_stats st') = TotalKeys (mg_stats st) + 1"
    and "ErrorKeys (mg_stats st') = ErrorKeys (mg_stats st)"
    by (auto simp: count_defs)
qed

lemma run_balanced:
  assumes "range_loop cb es st = Ret st'" "stats_balanced (mg_stats st)"
  shows "stats_balanced (mg_stats st') \<and> ErrorKeys (mg_stats st') = ErrorKeys (mg_stats st) \<and>
    TotalKeys (mg_stats st') \<le> TotalKeys (mg_stats st) + int (length es)"
  using assms
proof (induction es arbitrary: st)
  case Nil
  then show ?case by simp
next
  case (Cons e es)
  obtain k v where e: "e = (k, v)" by force
  with Cons.prems(1) obtain go st1 where s: "cb k v st = Ret (go, st1)"
    "(if go then range_loop cb es st1 else Ret st1) = Ret st'"
    by (auto simp: obind_eq_Ret_iff)
  note b = cb_balanced[OF s(1) Cons.prems(2)]
  show ?case
  proof (cases go)
    case True
    with s(2) Cons.IH[OF _ b(1)] b show ?thesis by auto
  next
    case False
    with s(2) b show ?thesis by auto
  qed
qed

text \<open>A dry run sees the same keys, stops at the same key and counts the same.\<close>

lemma cb_dry_same:
  assumes "cb k v st = Ret (go, st')" "mg_stats sd = mg_stats st" "mg_newStore sd = None"
  shows "\<exists>sd'. cb k v sd = Ret (go, sd') \<and> mg_stats sd' = mg_stats st' \<and> mg_newStore sd' = None"
proof -
  have live: live using cb_panics[of k v st] assms(1) by auto
  have s: "mg_stats (count_skipped (count_seen sd)) = mg_stats (count_skipped (count_seen st))"
    "mg_stats (count_migrated (count_seen sd)) = mg_stats (count_migrated (count_seen st))"
    using assms(2) by (simp_all add: count_defs)
  show ?thesis
  proof (cases "sel k")
    case False
    with cb_skips[OF live this, of v st] cb_skips[OF live this, of v sd] assms(1,3) s(1)
    show ?thesis by auto
  next
    case sel: True
    obtain sd' where sd': "cb k v sd = Ret (\<not> ctx_done (TotalKeys (mg_stats st) + 1), sd')"
      "mg_newStore sd' = None" "mg_stats sd' = mg_stats (count_migrated (count_seen st))"
      using cb_dry[OF live sel assms(3), of v] assms(2) s(2) by auto
    have "go = (\<not> ctx_done (TotalKeys (mg_stats st) + 1)) \<and>
        mg_stats st' = mg_stats (count_migrated (count_seen st))"
    proof (cases "mg_newStore st")
      case None
      with cb_dry[OF live sel None, of v] assms(1) show ?thesis by auto
    next
      case (Some m)
      with cb_dies[OF live sel Some] assms(1) obtain m' where "store m (ren k) v = Ret m'" by blast
      with cb_writes[OF live sel Some] assms(1) show ?thesis by fastforce
    qed
    with sd' show ?thesis by auto
  qed
qed

lemma run_dry_same:
  assumes "range_loop cb es st = Ret st'" "mg_stats sd = mg_stats st" "mg_newStore sd = None"
  shows "\<exists>sd'. range_loop cb es sd = Ret sd' \<and> mg_stats sd' = mg_stats st' \<and> mg_newStore sd' = None"
  using assms
proof (induction es arbitrary: st sd)
  case Nil
  then show ?case by simp
next
  case (Cons e es)
  obtain k v where e: "e = (k, v)" by force
  with Cons.prems(1) obtain go st1 where s: "cb k v st = Ret (go, st1)"
    "(if go then range_loop cb es st1 else Ret st1) = Ret st'"
    by (auto simp: obind_eq_Ret_iff)
  obtain sd1 where d: "cb k v sd = Ret (go, sd1)" "mg_stats sd1 = mg_stats st1" "mg_newStore sd1 = None"
    using cb_dry_same[OF s(1) Cons.prems(2,3)] by blast
  show ?case
  proof (cases go)
    case True
    with s(2) Cons.IH[OF _ d(2,3)] d(1) e show ?thesis by simp
  next
    case False
    with s(2) d e show ?thesis by simp
  qed
qed

end

text \<open>What a migration writes: the selected entries under their new keys, later ones over earlier.\<close>

definition migrated_map ::
  "(string \<Rightarrow> bool) \<Rightarrow> (string \<Rightarrow> string) \<Rightarrow> (string \<times> 'v) list \<Rightarrow> string \<rightharpoonup> 'v" where
  "migrated_map sel ren es =
     map_of (rev (map (\<lambda>(k, v). (ren k, v)) (filter (\<lambda>(k, v). sel k) es)))"

lemma migrated_map_Nil [simp]: "migrated_map sel ren [] = Map.empty"
  by (simp add: migrated_map_def)

lemma migrated_map_Cons:
  "m ++ migrated_map sel ren ((k, v) # es) =
    (if sel k then m(ren k \<mapsto> v) else m) ++ migrated_map sel ren es"
  by (auto simp: migrated_map_def map_add_def fun_eq_iff split: option.splits)

text \<open>Selected keys that keep apart under renaming keep their values.\<close>

lemma migrated_map_lookup:
  assumes "distinct (map fst es)" "inj_on ren {k. k \<in> fst ` set es \<and> sel k}"
    and "(k, v) \<in> set es" "sel k"
  shows "migrated_map sel ren es (ren k) = Some v"
proof -
  let ?sel = "filter (\<lambda>(k, v). sel k) es"
  let ?xs = "map (\<lambda>(k, v). (ren k, v)) ?sel"
  have f: "map fst ?xs = map ren (map fst ?sel)" by (simp add: case_prod_beta)
  have k: "set (map fst ?sel) = {k. k \<in> fst ` set es \<and> sel k}" by force
  have "distinct (map fst ?sel)" using assms(1) by (induction es) auto
  then have d: "distinct (map fst ?xs)"
    unfolding f distinct_map[of ren "map fst ?sel"] k using assms(2) by (rule conjI)
  have "(ren k, v) \<in> set (rev ?xs)" using assms(3,4) by force
  moreover have "distinct (map fst (rev ?xs))" using d by (simp add: rev_map[symmetric])
  ultimately show ?thesis unfolding migrated_map_def by (intro map_of_is_SomeI)
qed

text \<open>
  Into a backend that keeps its contract: the run returns, and the new map holds what it held plus
  the selected entries of the keys that were processed; fewer than all only if the context was
  done.
\<close>

locale migration_run = migration_step cb "Map_Store (ops e)" sel ren live ctx_done +
  kv_core ops eok sinv amap kok vok zv
  for cb :: "(string, 'v, 's migration) callback" and sel ren live ctx_done and e :: 'e
    and ops :: "'e \<Rightarrow> ('s, string, 'v, 'c) storage_ops" and eok sinv amap kok vok zv
begin

lemma run_contents:
  assumes live and e: "eok e"
    and m: "mg_newStore st = Some m" "sinv (mm_storage m)" "mm_allowOverwrite m"
    and "\<forall>(k, v) \<in> set es. sel k \<longrightarrow> kok (ren k) \<and> vok v"
  shows "\<exists>n st' m'. range_loop cb es st = Ret st' \<and> n \<le> length es \<and>
    mg_newStore st' = Some m' \<and> sinv (mm_storage m') \<and> mm_allowOverwrite m' \<and>
    amap (mm_storage m') = amap (mm_storage m) ++ migrated_map sel ren (take n es) \<and>
    TotalKeys (mg_stats st') = TotalKeys (mg_stats st) + int n \<and>
    (n < length es \<longrightarrow> ctx_done (TotalKeys (mg_stats st) + int n))"
  using m assms(6)
proof (induction es arbitrary: st m)
  case Nil
  then show ?case by simp
next
  case (Cons x es)
  obtain k v where x: "x = (k, v)" by force
  show ?case
  proof (cases "sel k")
    case False
    from cb_skips[OF assms(1) this, of v st] obtain st1 where c: "cb k v st = Ret (True, st1)"
      "mg_newStore st1 = Some m" "TotalKeys (mg_stats st1) = TotalKeys (mg_stats st) + 1"
      using Cons.prems(1) by auto
    from Cons.IH[OF c(2) Cons.prems(2,3)] Cons.prems(4) obtain n st' m' where n:
      "range_loop cb es st1 = Ret st'" "n \<le> length es" "mg_newStore st' = Some m'"
      "sinv (mm_storage m')" "mm_allowOverwrite m'"
      "amap (mm_storage m') = amap (mm_storage m) ++ migrated_map sel ren (take n es)"
      "TotalKeys (mg_stats st') = TotalKeys (mg_stats st1) + int n"
      "n < length es \<longrightarrow> ctx_done (TotalKeys (mg_stats st1) + int n)" by auto
    with c x False show ?thesis
      by (intro exI[of _ "Suc n"] exI[of _ st'] exI[of _ m'])
        (simp add: migrated_map_Cons algebra_simps)
  next
    case True
    with Cons.prems(4) x have kv: "kok (ren k)" "vok v" by auto
    from Map_Store_spec[OF e Cons.prems(2) kv] Cons.prems(3) obtain m1 where
      s: "Map_Store (ops e) m (ren k) v = Ret m1" "sinv (mm_storage m1)" "mm_allowOverwrite m1"
      "amap (mm_storage m1) = (amap (mm_storage m))(ren k \<mapsto> v)" by auto
    from cb_writes[OF assms(1) True Cons.prems(1) s(1)] obtain st1 where
      c: "cb k v st = Ret (\<not> ctx_done (TotalKeys (mg_stats st) + 1), st1)"
      "mg_newStore st1 = Some m1" "TotalKeys (mg_stats st1) = TotalKeys (mg_stats st) + 1" by auto
    show ?thesis
    proof (cases "ctx_done (TotalKeys (mg_stats st) + 1)")
      case fin: True
      from c fin s x \<open>sel k\<close> show ?thesis
        by (intro exI[of _ "Suc 0"] exI[of _ st1] exI[of _ m1])
          (simp add: migrated_map_Cons fun_eq_iff)
    next
      case False
      from Cons.IH[OF c(2) s(2,3)] Cons.prems(4) obtain n st' m' where n:
        "range_loop cb es st1 = Ret st'" "n \<le> length es" "mg_newStore st' = Some m'"
        "sinv (mm_storage m')" "mm_allowOverwrite m'"
        "amap (mm_storage m') = amap (mm_storage m1) ++ migrated_map sel ren (take n es)"
        "TotalKeys (mg_stats st') = TotalKeys (mg_stats st1) + int n"
        "n < length es \<longrightarrow> ctx_done (TotalKeys (mg_stats st1) + int n)" by auto
      with c x True False s(4) show ?thesis
        by (intro exI[of _ "Suc n"] exI[of _ st'] exI[of _ m'])
          (simp add: migrated_map_Cons algebra_simps)
    qed
  qed
qed

end

end
