(* ===== verification/Migrate_Badger.thy ===== *)
theory Migrate_Badger
  imports Migration_Core Persistent_Stacks
begin

text \<open>
  \<open>cmd/migrate-badger/main.go\<close>: copies a legacy BadgerDB map into a new one. The legacy version of
  the library (github.com/thisisdevelopment/mightymap-legacy) is not under \<open>src/\<close>: the entries that
  its Range visits are a parameter. The default configuration is here; reading and writing the
  configuration file, and \<open>main\<close>, are in \<open>Badger_Program\<close>.
\<close>

section \<open>Configuration\<close>

record badger_config =
  bc_Dir :: string
  bc_MemoryStorage :: bool
  bc_Compression :: bool
  bc_NumCompactors :: int
  bc_NumVersionsToKeep :: int
  bc_IndexCacheSize :: int
  bc_BlockCacheSize :: int
  bc_BlockSize :: int
  bc_MemTableSize :: int
  bc_ValueThreshold :: int
  bc_SyncWrites :: bool
  bc_EncryptionKey :: string
  bc_EncryptionKeyRotation :: int

definition zero_badger_config :: badger_config where
  "zero_badger_config =
     \<lparr>bc_Dir = '''', bc_MemoryStorage = False, bc_Compression = False, bc_NumCompactors = 0,
      bc_NumVersionsToKeep = 0, bc_IndexCacheSize = 0, bc_BlockCacheSize = 0, bc_BlockSize = 0,
      bc_MemTableSize = 0, bc_ValueThreshold = 0, bc_SyncWrites = False, bc_EncryptionKey = '''',
      bc_EncryptionKeyRotation = 0\<rparr>"

definition createDefaultConfig :: "(badger_config, migration_config) migrate_config" where
  "createDefaultConfig =
     \<lparr>cf_Source = zero_badger_config\<lparr>bc_Dir := ''./data/badger-legacy'', bc_Compression := False\<rparr>,
      cf_Target = zero_badger_config\<lparr>bc_Dir := ''./data/badger-migrated'', bc_Compression := True\<rparr>,
      cf_Migration = \<lparr>BatchSize = 1000, LogInterval = 100, BackupOriginal = True,
        Timeout = 30 * 60 * 1000000000, KeyPattern = ''*''\<rparr>\<rparr>"

section \<open>The new store\<close>

text \<open>The options the program builds from its configuration; a bad key length panics.\<close>

definition newBadgerOpts :: "badger_config \<Rightarrow> ('f badgerOpts \<Rightarrow> 'f badgerOpts) list outcome" where
  "newBadgerOpts config =
     (let opts = (if bc_Dir config \<noteq> '''' then [WithTempDir (bc_Dir config)] else []) @
            [WithMemoryStorage (bc_MemoryStorage config), WithCompression (bc_Compression config)] @
            (if bc_NumCompactors config > 0 then [WithNumCompactors (bc_NumCompactors config)] else [])
      in if bc_EncryptionKey config \<noteq> ''''
         then obind (WithEncryptionKey (bc_EncryptionKey config)) (\<lambda>f. Ret (opts @ [f]))
         else Ret opts)"

definition createNewBadgerStorage ::
  "(badger_options \<Rightarrow> err + 'db) \<Rightarrow> 'f badgerOpts \<Rightarrow> badger_config \<Rightarrow> registry \<Rightarrow>
    'db badger adapter mightymap outcome" where
  "createNewBadgerStorage opn defaults config reg =
     obind (newBadgerOpts config) (\<lambda>opts.
     obind (NewMightyMapBadgerStorage opn defaults opts) (\<lambda>(store, gc).
       Ret \<lparr>mm_storage = newMsgpackAdapter store reg, mm_allowOverwrite = True\<rparr>))"

section \<open>The migration\<close>

definition badger_migrate_cb ::
  "('s, string, 'v, 'c) storage_ops \<Rightarrow> migration_config \<Rightarrow> bool \<Rightarrow> (int \<Rightarrow> bool) \<Rightarrow>
    (string, 'v, 's migration) callback" where
  "badger_migrate_cb ops cfg verbose ctx_done key value st =
     (let st1 = count_seen st in
      obind (log_progress cfg verbose) (\<lambda>_.
        let (matched, err) =
          (if KeyPattern cfg \<noteq> '''' then matchPattern key (KeyPattern cfg) else (True, None)) in
        case err of
          Some e \<Rightarrow> Ret (True, count_error (''Pattern match error for key '' @ key @ '': '' @ e) st1)
        | None \<Rightarrow>
            if \<not> matched then Ret (True, count_skipped st1)
            else obind (migrate_one ops key key value st1) (\<lambda>st2.
              Ret (end_of_key cfg ctx_done st2))))"

text \<open>
  \<open>legacy\<close> opens the legacy map and gives its Range, \<open>new_map\<close> opens the new map; \<open>now\<close> gives the
  clock at the start and the end. The result is the statistics and the new map after its deferred
  Close. What Close does to the legacy map is not seen again.
\<close>

definition badger_runMigration ::
  "('s, string, 'v, 'c) storage_ops \<Rightarrow>
    (badger_config \<Rightarrow> ((string, 'v, 's migration) callback \<Rightarrow> 's migration \<Rightarrow> 's migration outcome) outcome) \<Rightarrow>
    (badger_config \<Rightarrow> 's mightymap outcome) \<Rightarrow> (badger_config, migration_config) migrate_config \<Rightarrow>
    bool \<Rightarrow> bool \<Rightarrow> (int \<Rightarrow> bool) \<Rightarrow> (bool \<Rightarrow> int) \<Rightarrow>
    (migration_stats \<times> 's mightymap option) outcome" where
  "badger_runMigration ops legacy new_map config dryRun verbose ctx_done now =
     obind (legacy (cf_Source config)) (\<lambda>legacy_range.
     obind (if dryRun then Ret None
            else obind (new_map (cf_Target config)) (\<lambda>m. Ret (Some m))) (\<lambda>newStore.
     obind (legacy_range (badger_migrate_cb ops (cf_Migration config) verbose ctx_done)
              \<lparr>mg_stats = new_stats (now False), mg_batchCount = 0, mg_newStore = newStore,
               mg_pauses = 0\<rparr>) (\<lambda>st.
     obind (close_new ops (mg_newStore st)) (\<lambda>m.
       Ret ((mg_stats st)\<lparr>EndTime := now True\<rparr>, m)))))"

section \<open>Contract\<close>

text \<open>The keys the pattern lets through: all of them, or exactly the one that equals it.\<close>

definition badger_selects :: "migration_config \<Rightarrow> string \<Rightarrow> bool" where
  "badger_selects cfg key \<longleftrightarrow> KeyPattern cfg = '''' \<or> KeyPattern cfg = ''*'' \<or> key = KeyPattern cfg"

lemma badger_cb_unfold:
  "\<not> (verbose \<and> LogInterval cfg = 0) \<Longrightarrow> badger_migrate_cb ops cfg verbose ctx_done key value st =
    (if badger_selects cfg key
     then obind (migrate_one ops key key value (count_seen st)) (\<lambda>st2.
       Ret (end_of_key cfg ctx_done st2))
     else Ret (True, count_skipped (count_seen st)))"
  by (auto simp: badger_migrate_cb_def badger_selects_def log_progress_def matchPattern_def Let_def)

interpretation badger_step: migration_step "badger_migrate_cb ops cfg verbose ctx_done"
  "Map_Store ops" "badger_selects cfg" "\<lambda>k. k" "\<not> (verbose \<and> LogInterval cfg = 0)" ctx_done
  for ops :: "('s, string, 'v, 'c) storage_ops" and cfg verbose ctx_done
proof (unfold_locales, goal_cases)
  case (1 k v st)
  then show ?case by (simp add: badger_migrate_cb_def log_progress_def)
next
  case (2 k v st)
  then show ?case by (simp add: badger_cb_unfold)
next
  case (3 k st v)
  show ?case unfolding badger_cb_unfold[OF 3(1)] using 3(2) by (simp only: if_True finish_dry[OF 3(3)])
next
  case (4 k st m v m')
  show ?case unfolding badger_cb_unfold[OF 4(1)] using 4(2)
    by (simp only: if_True finish_write[OF 4(3,4)])
next
  case (5 k st m v)
  show ?case unfolding badger_cb_unfold[OF 5(1)] using 5(2) finish_dies[OF 5(3,4)] by simp
qed

text \<open>Into the BadgerDB stack.\<close>

interpretation badger_migration: migration_run
  "badger_migrate_cb (adapter_ops cd (badger_ops kc api zk :: ('db badger, string, bytes, 'c) storage_ops))
    cfg verbose ctx_done"
  "badger_selects cfg" "\<lambda>k. k" "\<not> (verbose \<and> LogInterval cfg = 0)" ctx_done "()"
  "\<lambda>_::unit. adapter_ops cd (badger_ops kc api zk :: ('db badger, string, bytes, 'c) storage_ops)"
  "\<lambda>_. True"
  "adapter_inv cd gen plain T vfit (badger_inv kc api opn dbmap kfit vfit) (badger_abs kc dbmap kfit)"
  "adapter_abs cd (badger_abs kc dbmap kfit)" "key_ok kc kfit" "adapter_vok cd plain T vfit"
  "cd_zero cd"
  for cfg verbose ctx_done and kc :: "string key_codec" and api :: "'db badger_api"
    and zk opn dbmap kfit vfit and cd :: "'p codec" and gen plain T
  by unfold_locales

section \<open>Whole runs\<close>

lemma badger_map_closes:
  "\<exists>e m'. Map_Close (adapter_ops cd (badger_ops kc api zk)) m = Ret (e, m')"
  by (cases "badger_Close api (ad_storage (mm_storage m))")
    (simp add: Map_Close_def adapter_ops_def adapter_Close_def badger_ops_def)

text \<open>A run that returns accounts for every key it saw, wherever it writes.\<close>

lemma badger_run_stats:
  assumes "badger_runMigration ops legacy new_map config dryRun verbose ctx_done now = Ret (stats, m)"
    and "legacy (cf_Source config) = Ret (\<lambda>f c. range_loop f es c)"
  shows "stats_balanced stats \<and> Errors stats = [] \<and> TotalKeys stats \<le> int (length es)"
proof -
  obtain newStore st where st:
    "range_loop (badger_migrate_cb ops (cf_Migration config) verbose ctx_done) es
       \<lparr>mg_stats = new_stats (now False), mg_batchCount = 0, mg_newStore = newStore,
        mg_pauses = 0\<rparr> = Ret st"
    "stats = (mg_stats st)\<lparr>EndTime := now True\<rparr>"
    using assms by (auto simp: badger_runMigration_def obind_eq_Ret_iff)
  from badger_step.run_balanced[OF st(1)] have b: "stats_balanced (mg_stats st)"
    "ErrorKeys (mg_stats st) = 0" "TotalKeys (mg_stats st) \<le> int (length es)"
    by simp_all
  from b(1) have "ErrorKeys (mg_stats st) = int (length (Errors (mg_stats st)))"
    by (simp only: stats_balanced_def)
  with b(2) have "Errors (mg_stats st) = []" by simp
  with b st(2) show ?thesis by simp
qed

text \<open>
  A migration into a BadgerDB map returns, and the new map, when it is closed, holds what it held before and,
  over that, the entries with selected keys among the first n the legacy map showed; n is less than
  their number only if the context was done after the n-th.
\<close>

lemma badger_run_copies:
  fixes ops :: "('db badger adapter, string, 'p goval, 'c) storage_ops"
  assumes "cfg = cf_Migration config"
    and "ops = adapter_ops cd (badger_ops kc api zk)" "\<not> (verbose \<and> LogInterval cfg = 0)"
    and "adapter_inv cd gen plain T vfit (badger_inv kc api opn dbmap kfit vfit)
      (badger_abs kc dbmap kfit) (mm_storage m0)" "mm_allowOverwrite m0"
    and "\<forall>(k, v) \<in> set es. badger_selects cfg k \<longrightarrow> key_ok kc kfit k \<and> adapter_vok cd plain T vfit v"
    and "legacy (cf_Source config) = Ret (\<lambda>f c. range_loop f es c)"
    and "new_map (cf_Target config) = Ret m0"
  shows "\<exists>n stats m1 e m2.
    badger_runMigration ops legacy new_map config False verbose ctx_done now = Ret (stats, Some m2) \<and>
    Map_Close ops m1 = Ret (e, m2) \<and> n \<le> length es \<and> TotalKeys stats = int n \<and>
    adapter_abs cd (badger_abs kc dbmap kfit) (mm_storage m1) =
      adapter_abs cd (badger_abs kc dbmap kfit) (mm_storage m0) ++
        migrated_map (badger_selects cfg) (\<lambda>k. k) (take n es) \<and>
    (n < length es \<longrightarrow> ctx_done (int n))"
proof -
  let ?st = "\<lparr>mg_stats = new_stats (now False), mg_batchCount = 0, mg_newStore = Some m0, mg_pauses = 0\<rparr>"
  have "mg_newStore ?st = Some m0" by simp
  have "\<exists>n st' m'. range_loop (badger_migrate_cb ops cfg verbose ctx_done) es ?st = Ret st' \<and>
      n \<le> length es \<and> mg_newStore st' = Some m' \<and>
      adapter_inv cd gen plain T vfit (badger_inv kc api opn dbmap kfit vfit)
        (badger_abs kc dbmap kfit) (mm_storage m') \<and> mm_allowOverwrite m' \<and>
      adapter_abs cd (badger_abs kc dbmap kfit) (mm_storage m') =
        adapter_abs cd (badger_abs kc dbmap kfit) (mm_storage m0) ++
        migrated_map (badger_selects cfg) (\<lambda>k. k) (take n es) \<and>
      TotalKeys (mg_stats st') = TotalKeys (mg_stats ?st) + int n \<and>
      (n < length es \<longrightarrow> ctx_done (TotalKeys (mg_stats ?st) + int n))"
    unfolding assms(2)
    by (rule badger_migration.run_contents[OF assms(3) TrueI \<open>mg_newStore ?st = Some m0\<close> assms(4,5,6)])
  then obtain n st m1 where "range_loop (badger_migrate_cb ops cfg verbose ctx_done) es ?st = Ret st"
    "n \<le> length es" "mg_newStore st = Some m1" "TotalKeys (mg_stats st) = int n"
    "adapter_abs cd (badger_abs kc dbmap kfit) (mm_storage m1) =
      adapter_abs cd (badger_abs kc dbmap kfit) (mm_storage m0) ++
        migrated_map (badger_selects cfg) (\<lambda>k. k) (take n es)"
    "n < length es \<longrightarrow> ctx_done (int n)" by auto
  moreover have "\<exists>e m2. Map_Close ops m1 = Ret (e, m2)"
    unfolding assms(2) by (rule badger_map_closes)
  then obtain e m2 where "Map_Close ops m1 = Ret (e, m2)" by blast
  ultimately show ?thesis
    using assms(7,8)
    by (intro exI[of _ n] exI[of _ "(mg_stats st)\<lparr>EndTime := now True\<rparr>"] exI[of _ m1] exI[of _ e]
        exI[of _ m2]) (simp add: badger_runMigration_def close_new_def assms(1))
qed

text \<open>With a log interval of 0 a verbose run dies at the first entry, before anything is written.\<close>

lemma badger_zero_interval:
  assumes "LogInterval (cf_Migration config) = 0" "es \<noteq> []"
    and "legacy (cf_Source config) = Ret (\<lambda>f c. range_loop f es c)" "new_map (cf_Target config) = Ret m0"
  shows "badger_runMigration ops legacy new_map config dryRun True ctx_done now =
    Panic ''runtime error: integer divide by zero''"
proof -
  obtain k v es' where "es = (k, v) # es'" using assms(2) by (metis list.exhaust prod.exhaust)
  with assms show ?thesis
    by (simp add: badger_runMigration_def badger_migrate_cb_def log_progress_def Let_def)
qed

end
