(* ===== verification/Migrate_Redis.thy ===== *)
theory Migrate_Redis
  imports Migration_Core Persistent_Stacks
begin

text \<open>
  \<open>cmd/migrate-redis/main.go\<close>: copies a legacy Redis map into a new one, renaming keys on the way.
  As in \<open>Migrate_Badger\<close>, the legacy library is a parameter; the configuration file and \<open>main\<close> are in
  \<open>Redis_Program\<close>.
\<close>

section \<open>Configuration\<close>

record redis_config =
  rc_Addr :: string
  rc_Username :: string
  rc_Password :: string
  rc_DB :: int
  rc_PoolSize :: int
  rc_MaxRetries :: int
  rc_TLS :: bool
  rc_Prefix :: string
  rc_Timeout :: int
  rc_Expire :: int

record redis_migration_config = migration_config +
  SourcePrefix :: string
  TargetPrefix :: string

definition createDefaultRedisConfig :: "(redis_config, redis_migration_config) migrate_config" where
  "createDefaultRedisConfig =
     \<lparr>cf_Source = \<lparr>rc_Addr = ''localhost:6379'', rc_Username = '''', rc_Password = '''', rc_DB = 0,
       rc_PoolSize = 3, rc_MaxRetries = 3, rc_TLS = False, rc_Prefix = ''mightymap_legacy_'',
       rc_Timeout = 5 * 1000000000, rc_Expire = 0\<rparr>,
      cf_Target = \<lparr>rc_Addr = ''localhost:6379'', rc_Username = '''', rc_Password = '''', rc_DB = 1,
       rc_PoolSize = 3, rc_MaxRetries = 3, rc_TLS = False, rc_Prefix = ''mightymap_v05_'',
       rc_Timeout = 5 * 1000000000, rc_Expire = 0\<rparr>,
      cf_Migration = \<lparr>BatchSize = 1000, LogInterval = 100, BackupOriginal = True,
       Timeout = 30 * 60 * 1000000000, KeyPattern = ''*'',
       SourcePrefix = ''mightymap_legacy_'', TargetPrefix = ''mightymap_v05_''\<rparr>\<rparr>"

section \<open>The new store\<close>

definition newRedisOpts :: "redis_config \<Rightarrow> (('t, 'm) redisOpts \<Rightarrow> ('t, 'm) redisOpts) list" where
  "newRedisOpts config =
     [WithRedisAddr (rc_Addr config)] @
     (if rc_Username config \<noteq> '''' then [WithRedisUsername (rc_Username config)] else []) @
     (if rc_Password config \<noteq> '''' then [WithRedisPassword (rc_Password config)] else []) @
     [WithRedisDB (rc_DB config)] @
     (if rc_PoolSize config > 0 then [WithRedisPoolSize (rc_PoolSize config)] else []) @
     (if rc_MaxRetries config > 0 then [WithRedisMaxRetries (rc_MaxRetries config)] else []) @
     [WithRedisTLS (rc_TLS config)] @
     (if rc_Prefix config \<noteq> '''' then [WithRedisPrefix (rc_Prefix config)] else []) @
     (if rc_Timeout config > 0 then [WithRedisTimeout (rc_Timeout config)] else []) @
     (if rc_Expire config > 0 then [WithRedisExpire (rc_Expire config)] else [])"

definition createNewRedisStorage ::
  "('t redis_client_options \<Rightarrow> 'db) \<Rightarrow> ('m \<Rightarrow> string) \<Rightarrow> 't \<Rightarrow> redis_config \<Rightarrow> registry \<Rightarrow>
    ('db, 't, 'm) redis adapter mightymap" where
  "createNewRedisStorage new_client runT empty_tls config reg =
     \<lparr>mm_storage = newMsgpackAdapter
        (NewMightyMapRedisStorage new_client runT empty_tls (newRedisOpts config)) reg,
      mm_allowOverwrite = True\<rparr>"

text \<open>The prefix of the new store is never empty, whatever the configuration says.\<close>

lemma new_redis_prefix:
  "prefix (rs_opts (NewMightyMapRedisStorage new_client runT empty_tls (newRedisOpts config))) =
    (if rc_Prefix config = '''' then ''mightymap_'' else rc_Prefix config)"
  by (simp add: NewMightyMapRedisStorage_def newRedisOpts_def redis_option_defs
      redis_final_opts_def getDefaultRedisOptions_def Let_def)

lemma new_redis_expire:
  "expire (rs_opts (NewMightyMapRedisStorage new_client runT empty_tls (newRedisOpts config))) =
    max 0 (rc_Expire config)"
  by (simp add: NewMightyMapRedisStorage_def newRedisOpts_def redis_option_defs
      redis_final_opts_def getDefaultRedisOptions_def Let_def)

section \<open>Renaming keys\<close>

definition transformKey :: "string \<Rightarrow> string \<Rightarrow> string \<Rightarrow> string" where
  "transformKey key sourcePrefix targetPrefix =
     (if sourcePrefix \<noteq> '''' \<and> targetPrefix \<noteq> '''' then
        (if length key > length sourcePrefix \<and> take (length sourcePrefix) key = sourcePrefix
         then targetPrefix @ drop (length sourcePrefix) key else key)
      else key)"

text \<open>A key under the source prefix moves under the target prefix, any other key keeps its name.\<close>

lemma transformKey_moves:
  assumes "sp \<noteq> ''''" "tp \<noteq> ''''"
  shows "transformKey (sp @ r) sp tp = (if r = [] then sp else tp @ r)"
  using assms by (simp add: transformKey_def)

lemma transformKey_keeps: "\<not> has_prefix key sp \<Longrightarrow> transformKey key sp tp = key"
  by (auto simp: transformKey_def has_prefix_take)

text \<open>Renaming back undoes the renaming, unless a key was under the target prefix already.\<close>

lemma transformKey_back:
  assumes "\<not> has_prefix key tp"
  shows "transformKey (transformKey key sp tp) tp sp = key"
proof (cases "sp \<noteq> '''' \<and> tp \<noteq> '''' \<and> length key > length sp \<and> has_prefix key sp")
  case True
  then obtain r where "key = sp @ r" "r \<noteq> []" by (auto simp: has_prefix_iff)
  with True show ?thesis by (simp add: transformKey_moves)
next
  case False
  then have "transformKey key sp tp = key" by (auto simp: transformKey_def has_prefix_take)
  with assms show ?thesis by (simp add: transformKey_keeps)
qed

lemma transformKey_inj:
  "inj_on (\<lambda>k. transformKey k sp tp) {k. \<not> has_prefix k tp}"
  by (rule inj_on_inverseI[where g = "\<lambda>k. transformKey k tp sp"]) (simp add: transformKey_back)

section \<open>The migration\<close>

text \<open>
  The program has statistics, a pattern test and a write of its own, which say the same as those of
  \<open>Migration_Core\<close>.
\<close>

type_synonym redis_migration_stats = migration_stats

definition redis_matchPattern :: "string \<Rightarrow> string \<Rightarrow> bool \<times> err option" where
  "redis_matchPattern key pattern =
     (if pattern = ''*'' \<or> pattern = '''' then (True, None) else (key = pattern, None))"

definition redis_migrateKeyValue ::
  "('s, string, 'v, 'c) storage_ops \<Rightarrow> 's mightymap \<Rightarrow> string \<Rightarrow> 'v \<Rightarrow>
    (err option \<times> 's mightymap) outcome" where
  "redis_migrateKeyValue ops newStore key value =
     obind (Map_Store ops newStore key value) (\<lambda>m'. Ret (None, m'))"

definition redis_migrate_one ::
  "('s, string, 'v, 'c) storage_ops \<Rightarrow> string \<Rightarrow> string \<Rightarrow> 'v \<Rightarrow> 's migration \<Rightarrow> 's migration outcome"
where
  "redis_migrate_one ops key newKey value st =
     (case mg_newStore st of
        None \<Rightarrow> Ret (count_migrated st)
      | Some m \<Rightarrow>
          obind (redis_migrateKeyValue ops m newKey value) (\<lambda>(err, m').
            Ret (case err of
                   Some e \<Rightarrow> count_error (''Failed to migrate key '' @ key @ '': '' @ e)
                               (st\<lparr>mg_newStore := Some m'\<rparr>)
                 | None \<Rightarrow> count_migrated (st\<lparr>mg_newStore := Some m'\<rparr>))))"

lemma redis_same_functions [simp]:
  "redis_matchPattern = matchPattern" "redis_migrateKeyValue = migrateKeyValue"
  by (simp_all add: fun_eq_iff redis_matchPattern_def matchPattern_def redis_migrateKeyValue_def
      migrateKeyValue_def)

lemma redis_migrate_one_same [simp]: "redis_migrate_one = migrate_one"
  unfolding fun_eq_iff redis_migrate_one_def migrate_one_def redis_same_functions by simp

definition redis_migrate_cb ::
  "('s, string, 'v, 'c) storage_ops \<Rightarrow> redis_migration_config \<Rightarrow> bool \<Rightarrow> (int \<Rightarrow> bool) \<Rightarrow>
    (string, 'v, 's migration) callback" where
  "redis_migrate_cb ops cfg verbose ctx_done key value st =
     (let st1 = count_seen st in
      obind (log_progress (migration_config.truncate cfg) verbose) (\<lambda>_.
        let (matched, err) =
          (if KeyPattern cfg \<noteq> '''' \<and> KeyPattern cfg \<noteq> ''*''
           then redis_matchPattern key (KeyPattern cfg) else (True, None)) in
        case err of
          Some e \<Rightarrow> Ret (True, count_error (''Pattern match error for key '' @ key @ '': '' @ e) st1)
        | None \<Rightarrow>
            if \<not> matched then Ret (True, count_skipped st1)
            else
              let newKey = transformKey key (SourcePrefix cfg) (TargetPrefix cfg) in
              obind (redis_migrate_one ops key newKey value st1) (\<lambda>st2.
                Ret (end_of_key (migration_config.truncate cfg) ctx_done st2))))"

definition redis_runMigration ::
  "('s, string, 'v, 'c) storage_ops \<Rightarrow>
    (redis_config \<Rightarrow> ((string, 'v, 's migration) callback \<Rightarrow> 's migration \<Rightarrow> 's migration outcome) outcome) \<Rightarrow>
    (redis_config \<Rightarrow> 's mightymap) \<Rightarrow> (redis_config, redis_migration_config) migrate_config \<Rightarrow>
    bool \<Rightarrow> bool \<Rightarrow> (int \<Rightarrow> bool) \<Rightarrow> (bool \<Rightarrow> int) \<Rightarrow>
    (migration_stats \<times> 's mightymap option) outcome" where
  "redis_runMigration ops legacy new_map config dryRun verbose ctx_done now =
     obind (legacy (cf_Source config)) (\<lambda>legacy_range.
     obind (legacy_range (redis_migrate_cb ops (cf_Migration config) verbose ctx_done)
              \<lparr>mg_stats = new_stats (now False), mg_batchCount = 0,
               mg_newStore = (if dryRun then None else Some (new_map (cf_Target config))),
               mg_pauses = 0\<rparr>) (\<lambda>st.
     obind (close_new ops (mg_newStore st)) (\<lambda>m.
       Ret ((mg_stats st)\<lparr>EndTime := now True\<rparr>, m))))"

section \<open>Contract\<close>

definition redis_selects :: "redis_migration_config \<Rightarrow> string \<Rightarrow> bool" where
  "redis_selects cfg key \<longleftrightarrow> KeyPattern cfg = '''' \<or> KeyPattern cfg = ''*'' \<or> key = KeyPattern cfg"

definition redis_renames :: "redis_migration_config \<Rightarrow> string \<Rightarrow> string" where
  "redis_renames cfg key = transformKey key (SourcePrefix cfg) (TargetPrefix cfg)"

lemma redis_cb_unfold:
  "\<not> (verbose \<and> LogInterval cfg = 0) \<Longrightarrow> redis_migrate_cb ops cfg verbose ctx_done key v st =
    (if redis_selects cfg key
     then obind (migrate_one ops key (redis_renames cfg key) v (count_seen st)) (\<lambda>st2.
       Ret (end_of_key (migration_config.truncate cfg) ctx_done st2))
     else Ret (True, count_skipped (count_seen st)))"
  by (auto simp: redis_migrate_cb_def redis_selects_def redis_renames_def log_progress_def
      matchPattern_def Let_def migration_config.truncate_def)

interpretation redis_step: migration_step "redis_migrate_cb ops cfg verbose ctx_done"
  "Map_Store ops" "redis_selects cfg" "redis_renames cfg" "\<not> (verbose \<and> LogInterval cfg = 0)"
  ctx_done
  for ops :: "('s, string, 'v, 'c) storage_ops" and cfg verbose ctx_done
proof (unfold_locales, goal_cases)
  case (1 k v st)
  then show ?case by (simp add: redis_migrate_cb_def log_progress_def migration_config.truncate_def)
next
  case (2 k v st)
  then show ?case by (simp add: redis_cb_unfold)
next
  case (3 k st v)
  show ?case unfolding redis_cb_unfold[OF 3(1)] using 3(2) by (simp only: if_True finish_dry[OF 3(3)])
next
  case (4 k st m v m')
  show ?case unfolding redis_cb_unfold[OF 4(1)] using 4(2)
    by (simp only: if_True finish_write[OF 4(3,4)])
next
  case (5 k st m v)
  show ?case unfolding redis_cb_unfold[OF 5(1)] using 5(2) finish_dies[OF 5(3,4)] by simp
qed

text \<open>Into the Redis stack.\<close>

interpretation redis_migration: migration_run
  "redis_migrate_cb (adapter_ops cd (redis_ops kc api zk :: (('db, 't, 'm) redis, string, bytes, 'c) storage_ops))
    cfg verbose ctx_done"
  "redis_selects cfg" "redis_renames cfg" "\<not> (verbose \<and> LogInterval cfg = 0)" ctx_done "()"
  "\<lambda>_::unit. adapter_ops cd (redis_ops kc api zk :: (('db, 't, 'm) redis, string, bytes, 'c) storage_ops)"
  "\<lambda>_. True"
  "adapter_inv cd gen plain T fit (redis_inv kc api up dbmap fit p) (redis_abs kc dbmap fit p)"
  "adapter_abs cd (redis_abs kc dbmap fit p)" "redis_kok kc fit p" "adapter_vok cd plain T fit"
  "cd_zero cd"
  for cfg verbose ctx_done and kc :: "string key_codec" and api :: "'db redis_api"
    and zk up dbmap fit p and cd :: "'p codec" and gen plain T
  by unfold_locales

lemma redis_map_closes:
  "\<exists>e m'. Map_Close (adapter_ops cd (redis_ops kc api zk)) m = Ret (e, m')"
  by (cases "redis_Close api (ad_storage (mm_storage m))")
    (simp add: Map_Close_def adapter_ops_def adapter_Close_def redis_ops_def)

text \<open>A run that returns accounts for every key it saw, wherever it writes.\<close>

lemma redis_run_stats:
  assumes "redis_runMigration ops legacy new_map config dryRun verbose ctx_done now = Ret (stats, m)"
    and "legacy (cf_Source config) = Ret (\<lambda>f c. range_loop f es c)"
  shows "stats_balanced stats \<and> Errors stats = [] \<and> TotalKeys stats \<le> int (length es)"
proof -
  obtain newStore st where st:
    "range_loop (redis_migrate_cb ops (cf_Migration config) verbose ctx_done) es
       \<lparr>mg_stats = new_stats (now False), mg_batchCount = 0, mg_newStore = newStore,
        mg_pauses = 0\<rparr> = Ret st"
    "stats = (mg_stats st)\<lparr>EndTime := now True\<rparr>"
    using assms by (auto simp: redis_runMigration_def obind_eq_Ret_iff)
  from redis_step.run_balanced[OF st(1)] have b: "stats_balanced (mg_stats st)"
    "ErrorKeys (mg_stats st) = 0" "TotalKeys (mg_stats st) \<le> int (length es)"
    by simp_all
  from b(1) have "ErrorKeys (mg_stats st) = int (length (Errors (mg_stats st)))"
    by (simp only: stats_balanced_def)
  with b(2) have "Errors (mg_stats st) = []" by simp
  with b st(2) show ?thesis by simp
qed

text \<open>
  A migration into a Redis map that is not cut off by its context copies every selected entry:
  afterwards the new map holds each of them, unchanged, under its key's new name, provided that no
  selected key starts with the target prefix already.
\<close>

lemma redis_run_copies:
  fixes ops :: "(('db, 't, 'm) redis adapter, string, 'p goval, 'c) storage_ops"
  assumes "cfg = cf_Migration config"
    and "ops = adapter_ops cd (redis_ops kc api zk)" "\<not> (verbose \<and> LogInterval cfg = 0)"
    and "adapter_inv cd gen plain T fit (redis_inv kc api up dbmap fit p)
      (redis_abs kc dbmap fit p) (mm_storage (new_map (cf_Target config)))"
    and "mm_allowOverwrite (new_map (cf_Target config))"
    and "\<forall>(k, v) \<in> set es. redis_selects cfg k \<longrightarrow>
      redis_kok kc fit p (redis_renames cfg k) \<and> adapter_vok cd plain T fit v"
    and "legacy (cf_Source config) = Ret (\<lambda>f c. range_loop f es c)"
    and "\<forall>n. \<not> ctx_done n" "distinct (map fst es)"
    and "\<forall>(k, v) \<in> set es. redis_selects cfg k \<longrightarrow> \<not> has_prefix k (TargetPrefix cfg)"
  shows "\<exists>stats m1 e m2.
    redis_runMigration ops legacy new_map config False verbose ctx_done now = Ret (stats, Some m2) \<and>
    Map_Close ops m1 = Ret (e, m2) \<and> TotalKeys stats = int (length es) \<and>
    (\<forall>(k, v) \<in> set es. redis_selects cfg k \<longrightarrow>
       adapter_abs cd (redis_abs kc dbmap fit p) (mm_storage m1) (redis_renames cfg k) = Some v)"
proof -
  let ?m0 = "new_map (cf_Target config)"
  let ?st = "\<lparr>mg_stats = new_stats (now False), mg_batchCount = 0, mg_newStore = Some ?m0, mg_pauses = 0\<rparr>"
  have "mg_newStore ?st = Some ?m0" by simp
  have "\<exists>n st' m'. range_loop (redis_migrate_cb ops cfg verbose ctx_done) es ?st = Ret st' \<and>
      n \<le> length es \<and> mg_newStore st' = Some m' \<and>
      adapter_inv cd gen plain T fit (redis_inv kc api up dbmap fit p)
        (redis_abs kc dbmap fit p) (mm_storage m') \<and> mm_allowOverwrite m' \<and>
      adapter_abs cd (redis_abs kc dbmap fit p) (mm_storage m') =
        adapter_abs cd (redis_abs kc dbmap fit p) (mm_storage ?m0) ++
        migrated_map (redis_selects cfg) (redis_renames cfg) (take n es) \<and>
      TotalKeys (mg_stats st') = TotalKeys (mg_stats ?st) + int n \<and>
      (n < length es \<longrightarrow> ctx_done (TotalKeys (mg_stats ?st) + int n))"
    unfolding assms(2)
    by (rule redis_migration.run_contents[OF assms(3) TrueI \<open>mg_newStore ?st = Some ?m0\<close> assms(4,5,6)])
  then obtain n st m1 where r: "range_loop (redis_migrate_cb ops cfg verbose ctx_done) es ?st = Ret st"
    "n \<le> length es" "mg_newStore st = Some m1" "TotalKeys (mg_stats st) = int n"
    "adapter_abs cd (redis_abs kc dbmap fit p) (mm_storage m1) =
      adapter_abs cd (redis_abs kc dbmap fit p) (mm_storage ?m0) ++
        migrated_map (redis_selects cfg) (redis_renames cfg) (take n es)"
    "n < length es \<longrightarrow> ctx_done (int n)" by auto
  then have n: "n = length es" using assms(8) by auto
  have "{k. k \<in> fst ` set es \<and> redis_selects cfg k} \<subseteq> {k. \<not> has_prefix k (TargetPrefix cfg)}"
    using assms(10) by auto
  then have "inj_on (redis_renames cfg) {k. k \<in> fst ` set es \<and> redis_selects cfg k}"
    unfolding redis_renames_def by (rule inj_on_subset[OF transformKey_inj])
  from migrated_map_lookup[OF assms(9) this] r(5) n
  have "\<forall>(k, v) \<in> set es. redis_selects cfg k \<longrightarrow>
      adapter_abs cd (redis_abs kc dbmap fit p) (mm_storage m1) (redis_renames cfg k) = Some v"
    by auto
  moreover have "\<exists>e m2. Map_Close ops m1 = Ret (e, m2)"
    unfolding assms(2) by (rule redis_map_closes)
  then obtain e m2 where "Map_Close ops m1 = Ret (e, m2)" by blast
  ultimately show ?thesis
    using r(1,3,4) n assms(7)
    by (intro exI[of _ "(mg_stats st)\<lparr>EndTime := now True\<rparr>"] exI[of _ m1] exI[of _ e] exI[of _ m2])
      (simp add: redis_runMigration_def close_new_def assms(1))
qed

text \<open>With a log interval of 0 a verbose run dies at the first entry, before anything is written.\<close>

lemma redis_zero_interval:
  assumes "LogInterval (cf_Migration config) = 0" "es \<noteq> []"
    and "legacy (cf_Source config) = Ret (\<lambda>f c. range_loop f es c)"
  shows "redis_runMigration ops legacy new_map config dryRun True ctx_done now =
    Panic ''runtime error: integer divide by zero''"
proof -
  obtain k v es' where "es = (k, v) # es'" using assms(2) by (metis list.exhaust prod.exhaust)
  with assms show ?thesis
    by (simp add: redis_runMigration_def redis_migrate_cb_def log_progress_def
        migration_config.truncate_def Let_def)
qed

end
