(* ===== verification/Codec_Properties.thy ===== *)
theory Codec_Properties
  imports Instances
begin

text \<open>
  Properties of the value codec and of the adapter around a byte storage: what is kept, and what
  is lost without an error.
\<close>

text \<open>
  C9. A value that can be stored encodes, and its bytes decode to the same value under the registry
  the encoding left and under every later one, whether V is a concrete type or an interface.
\<close>

theorem msgpack_value_roundtrip:
  assumes "msgpack_ok (cd_mp cd) gen plain" "registry_ok T reg" "storable cd plain T v"
    and "msgpackEncodeValue (cd_mp cd) reg v = (r, reg')"
    and "registry_ok T reg''" "reg' \<subseteq>\<^sub>m reg''"
  shows "\<exists>b. r = Inr b \<and> msgpackDecodeValue cd reg'' b = Ret (Inr v)"
proof -
  obtain b where b: "r = Inr b" "encodes cd reg' v b"
    using msgpackEncodeValue_spec(1)[OF assms(2,3,4)] by blast
  from msgpack_roundtrip_decode[OF assms(1,5,3) encodes_mono[OF b(2) assms(6)]] b(1)
  show ?thesis by blast
qed

theorem msgpack_value_roundtrip_witness:
  "\<exists>b. fst (msgpackEncodeValue toy_mp Map.empty (GStr ''hello'')) = Inr b \<and>
    msgpackDecodeValue any_codec [''string'' \<mapsto> Basic ''string''] b = Ret (Inr (GStr ''hello''))"
proof -
  have mp: "msgpack_ok (cd_mp any_codec) toy_gen toy_values" by (simp only: int_codec_mp toy_mp_ok)
  obtain r reg' where e: "msgpackEncodeValue (cd_mp any_codec) Map.empty (GStr ''hello'') = (r, reg')"
    by force
  then have "reg' = [''string'' \<mapsto> Basic ''string'']"
    by (auto simp: msgpackEncodeValue_def wrap_value_def RegisterMsgpackType_def split: prod.splits)
  then have le: "reg' \<subseteq>\<^sub>m [''string'' \<mapsto> Basic ''string'']" by simp
  have ok: "registry_ok toy_types [''string'' \<mapsto> Basic ''string'']"
    by (simp add: registry_ok_def)
  from msgpack_value_roundtrip[OF mp toy_registry_ok any_storable e ok le] e
  show ?thesis by (simp add: int_codec_mp)
qed

lemma type_String_PtrTo [simp]: "type_String t \<noteq> ''*'' @ type_String t"
proof
  assume "type_String t = ''*'' @ type_String t"
  then have "length (type_String t) = length (''*'' @ type_String t)" by (rule arg_cong)
  then show False by simp
qed

text \<open>
  C29. A pointer stored in an interface comes back as something else: the wrapper carries the
  pointer type's name while the registry holds the element type's, so decoding falls back to the
  library's generic image of the value (a map for a struct, an integer of the smallest size).
\<close>

theorem pointer_in_interface_decodes_generic:
  assumes "msgpack_ok (cd_mp cd) gen plain" "cd_type cd = Iface i" "plain (GVal (PtrTo t) p)"
    and "reg (type_String (PtrTo t)) = None"
    and "msgpackEncodeValue (cd_mp cd) reg (GVal (PtrTo t) p) = (Inr b, reg')"
  shows "msgpackDecodeValue cd reg' b = Ret (Inr (gen (GVal (PtrTo t) p)))"
proof -
  let ?v = "GVal (PtrTo t) p"
  have reg': "reg' = reg(type_String t \<mapsto> t)"
    and enc: "marshal_map (cd_mp cd) (fst (wrap_value reg' ?v)) = Inr b"
    using assms(4,5) fst_wrap_value[of reg' ?v reg]
    by (auto simp: msgpackEncodeValue_def wrap_value_def RegisterMsgpackType_def Let_def
        split: sum.splits)
  obtain w where w: "b \<noteq> []" "unmarshal_map (cd_mp cd) b = Inr w"
    "map_of w ''data'' = Some (gen ?v)"
    "as_string (map_of w ''type'') = map_option type_String (typeOf ?v)"
    by (rule decode_encoded[OF assms(1) enc]) auto
  have none: "reg' (type_String (PtrTo t)) = None"
    using assms(4) type_String_PtrTo[of t] by (simp add: reg')
  obtain b' where "marshal (cd_mp cd) (gen ?v) = Inr b'"
    "unmarshal (cd_mp cd) (Iface i) b' = Inr (gen ?v)"
    using msgpack_okD(5)[OF assms(1,3)] by blast
  with w none assms(2) show ?thesis by (simp add: msgpackDecodeValue_def transcode_def)
qed

theorem pointer_in_interface_decodes_generic_witness:
  "msgpackDecodeValue any_codec [''int'' \<mapsto> int_type] ''P11'' = Ret (Inr (GVal int_type 2))"
proof -
  have mp: "msgpack_ok (cd_mp any_codec) toy_gen toy_values" by (simp only: int_codec_mp toy_mp_ok)
  have ty: "cd_type any_codec = Iface ''interface {}''" by (simp add: any_codec_def)
  have pl: "toy_values (GVal (PtrTo int_type) 2)" by (simp add: toy_values_def)
  have enc: "msgpackEncodeValue (cd_mp any_codec) Map.empty (GVal (PtrTo int_type) 2) =
      (Inr ''P11'', [''int'' \<mapsto> int_type])"
    by (simp add: int_codec_mp msgpackEncodeValue_def toy_mp_def toy_wrapper_def wrap_value_def
        RegisterMsgpackType_def Let_def numeral_2_eq_2)
  have "msgpackDecodeValue any_codec [''int'' \<mapsto> int_type] ''P11'' =
      Ret (Inr (toy_gen (GVal (PtrTo int_type) 2)))"
    by (rule pointer_in_interface_decodes_generic[OF mp ty pl _ enc]) simp
  then show ?thesis by simp
qed

text \<open>
  C30. Two types whose names print alike share one registry entry: where V is an interface type, a
  value of the second type is decoded as the first type, which the registry holds, whatever the
  wrapper around it says, if its encoding decodes into that type at all and the result can be
  assigned to V.
\<close>

theorem same_name_decodes_as_first_type:
  assumes "msgpack_ok (cd_mp cd) gen plain" "type_Kind (cd_type cd) = Interface"
    and "type_String t = type_String u" "reg (type_String u) = Some u"
    and "type_Kind t = OtherKind"
    and "msgpackEncodeValue (cd_mp cd) reg (GVal t p) = (Inr b, reg')"
    and "marshal (cd_mp cd) (gen (GVal t p)) = Inr b'" "unmarshal (cd_mp cd) u b' = Inr w"
    and "assignable cd w"
  shows "reg' = reg \<and> msgpackDecodeValue cd reg' b = Ret (Inr w)"
proof -
  let ?v = "GVal t p"
  have reg': "reg' = reg"
    and enc: "marshal_map (cd_mp cd) (fst (wrap_value reg ?v)) = Inr b"
    using assms(3,4,5,6) by (auto simp: msgpackEncodeValue_def wrap_value_def Let_def split: sum.splits)
  obtain x where "b \<noteq> []" "unmarshal_map (cd_mp cd) b = Inr x"
    "map_of x ''data'' = Some (gen ?v)"
    "as_string (map_of x ''type'') = map_option type_String (typeOf ?v)"
    by (rule decode_encoded[OF assms(1) enc]) (use assms(5) in auto)
  with assms show ?thesis unfolding reg' by (simp add: msgpackDecodeValue_def)
qed

text \<open>The value is an \<open>int\<close>; the registry holds another type under that name.\<close>

theorem same_name_decodes_as_first_type_witness:
  "msgpackDecodeValue any_codec [''int'' \<mapsto> Named ''other'' ''int''] ''I1'' =
    Ret (Inr (GVal (Named ''other'' ''int'') 1))"
proof -
  have mp: "msgpack_ok (cd_mp any_codec) toy_gen toy_values" by (simp only: int_codec_mp toy_mp_ok)
  have enc: "msgpackEncodeValue (cd_mp any_codec) [''int'' \<mapsto> Named ''other'' ''int''] (GVal int_type 1) =
      (Inr ''I1'', [''int'' \<mapsto> Named ''other'' ''int''])"
    by (simp add: int_codec_mp msgpackEncodeValue_def toy_mp_def toy_wrapper_def wrap_value_def Let_def)
  show ?thesis
    by (rule conjunct2[OF same_name_decodes_as_first_type[OF mp _ _ _ _ enc,
            where u = "Named ''other'' ''int''" and b' = "''I1''"]])
      (simp_all add: any_codec_def toy_mp_def assignable_def)
qed

text \<open>
  C32. An entry whose bytes do not decode is lost by Next: it is removed from the storage, and the
  caller is told that there was nothing, so a loop that drains the map ends early.
\<close>

theorem next_loses_undecodable_entry:
  assumes "is_order ord" "default_inv s" "ord (default_data s) = (k, b) # es" "k \<noteq> zk"
    and "msgpackDecodeValue cd reg b = Ret (Inl e)"
  shows "\<exists>s'. adapter_Next cd (default_ops zk ord) (newMsgpackAdapter s reg) =
      Ret ((k, cd_zero cd, False), newMsgpackAdapter s' reg) \<and>
    k \<in> dom (default_abs s) \<and> default_abs s' = (default_abs s)(k := None)"
proof -
  have "enumerates (default_abs s) ((k, b) # es)"
    using enumerates_order[OF assms(1)] assms(2,3)
    by (metis default_abs_def default_inv_def)
  then have "k \<in> dom (default_abs s)" using enumerates_Cons by fastforce
  moreover have "default_abs (default_Delete s [k]) = (default_abs s)(k := None)"
    by (simp add: default_abs_def default_Delete_def kv_simps)
  ultimately show ?thesis using assms(3-5)
    by (simp add: adapter_Next_def default_ops_def default_Next_cases newMsgpackAdapter_def)
qed

theorem next_loses_undecodable_entry_witness:
  "\<exists>s'. adapter_Next any_codec (default_ops [] rev)
      (newMsgpackAdapter \<lparr>default_data = [(''a'', ''N''), (''b'', ''?'')]\<rparr> Map.empty) =
      Ret ((''b'', GNil, False), newMsgpackAdapter s' Map.empty) \<and>
    ''b'' \<in> dom (default_abs \<lparr>default_data = [(''a'', ''N''), (''b'', ''?'')]\<rparr>) \<and>
    default_abs s' = (default_abs \<lparr>default_data = [(''a'', ''N''), (''b'', ''?'')]\<rparr>)(''b'' := None)"
proof -
  have i: "default_inv \<lparr>default_data = [(''a'', ''N''), (''b'', ''?'')]\<rparr>"
    by (simp add: default_inv_def gomap_ok_def)
  have o: "rev (default_data \<lparr>default_data = [(''a'', ''N''), (''b'', ''?'')]\<rparr>) =
      (''b'', ''?'') # [(''a'', ''N'')]" by simp
  have d: "msgpackDecodeValue any_codec Map.empty ''?'' =
      Ret (Inl ''failed to msgpack decode value: invalid code'')"
    by (simp add: msgpackDecodeValue_def any_codec_def toy_mp_def)
  have z: "cd_zero any_codec = GNil" by (simp add: any_codec_def)
  from next_loses_undecodable_entry[OF is_order_rev i o _ d, of "[]"]
  show ?thesis unfolding z by simp
qed

end
