(* ===== verification/Memory_Properties.thy ===== *)
theory Memory_Properties
  imports Instances
begin

text \<open>
  Properties of the in-memory storages: draining, the zero key, and the version check of the swiss
  storage's constructor.
\<close>

section \<open>Next\<close>

text \<open>
  C16. A loop over Next empties an in-memory storage without the zero key: with one round more than
  there are entries it ends, has shown each entry exactly once, and leaves the storage empty,
  whatever order the map is visited in at each round.
\<close>

theorem direct_drains:
  assumes "\<And>i. is_order (ord i)" "direct_inv c" "zk \<notin> dom (direct_abs c)"
    and "length (direct_data c) < n"
  shows "\<exists>out c'. drain (direct_Next zk zv) ord n c = Ret (out, True, c') \<and>
    distinct (map fst out) \<and> map_of out = direct_abs c \<and> direct_data c' = []"
proof -
  have inv: "direct_inv_nz zk c" using assms(2,3) by (simp add: direct_inv_nz_def)
  have n: "card (dom (direct_abs c)) < n"
    using assms(2,4) card_dom_gomap[of "direct_data c"] by (simp add: direct_abs_def direct_inv_def)
  have ops: "(\<lambda>e. op_Next (direct_ops zk zv e)) = direct_Next zk zv" by (simp add: direct_ops_def)
  obtain out c' where d: "drain (direct_Next zk zv) ord n c = Ret (out, True, c')"
    "enumerates (direct_abs c) out" "direct_inv_nz zk c'" "direct_abs c' = Map.empty"
    using direct_nz.drain_all[where e = ord and zv = zv, OF assms(1) inv n, unfolded ops] by blast
  from d(4) have "direct_data c' = []" by (cases "direct_data c'") (auto simp: direct_abs_def fun_eq_iff
        split: if_splits)
  with d show ?thesis by (auto simp: enumerates_def)
qed

theorem direct_drains_witness:
  "\<exists>out c'. drain (direct_Next (0::nat) ''z'') (\<lambda>i. if even i then rev else (\<lambda>m. m)) 3
      \<lparr>direct_data = [(1, ''a''), (2, ''b'')]\<rparr> = Ret (out, True, c') \<and>
    distinct (map fst out) \<and> map_of out = [2 \<mapsto> ''b'', 1 \<mapsto> ''a''] \<and> direct_data c' = []"
proof -
  have "\<exists>out c'. drain (direct_Next (0::nat) ''z'') (\<lambda>i. if even i then rev else (\<lambda>m. m)) 3
      \<lparr>direct_data = [(1, ''a''), (2, ''b'')]\<rparr> = Ret (out, True, c') \<and>
    distinct (map fst out) \<and>
    map_of out = direct_abs \<lparr>direct_data = [(1, ''a''), (2, ''b'')]\<rparr> \<and> direct_data c' = []"
    by (rule direct_drains)
      (auto simp: direct_inv_def gomap_ok_def direct_abs_def)
  then show ?thesis by (simp add: direct_abs_def)
qed

lemma direct_next_zero_key:
  assumes "is_order ord" "direct_inv c" "direct_abs c zk = Some v"
  shows "\<exists>k x ok c'. direct_Next zk zv ord c = Ret ((k, x, ok), c') \<and>
    direct_abs c' zk = Some v \<and> (ok \<longrightarrow> k \<noteq> zk) \<and> (\<not> ok \<longrightarrow> (k, x) = (zk, v) \<and> c' = c)"
proof -
  have en: "enumerates (direct_abs c) (ord (direct_data c))"
    using enumerates_order[OF assms(1)] assms(2) by (simp add: direct_abs_def direct_inv_def)
  then have "ord (direct_data c) \<noteq> []" using assms(3) by auto
  then obtain k x es where o: "ord (direct_data c) = (k, x) # es" by (metis list.exhaust prod.exhaust)
  then have kx: "direct_abs c k = Some x" using en enumerates_Cons by fastforce
  show ?thesis
  proof (cases "k = zk")
    case True
    with o kx assms(3) show ?thesis by (simp add: direct_Next_cases) blast
  next
    case False
    with o assms(3) show ?thesis
      by (simp add: direct_Next_cases direct_Delete_def direct_abs_def kv_simps) blast
  qed
qed

lemma swiss_next_zero_key:
  assumes "swiss_ok api mabs" "swiss_abs mabs c zk = Some v"
  shows "\<exists>k x ok c'. swiss_Next api zk e c = Ret ((k, x, ok), c') \<and>
    swiss_abs mabs c' zk = Some v \<and> (ok \<longrightarrow> k \<noteq> zk) \<and> (\<not> ok \<longrightarrow> (k, x) = (zk, v) \<and> c' = c)"
proof -
  have en: "enumerates (swiss_abs mabs c) (sw_visits api e (swiss_data c))"
    using swiss_okD(5)[OF assms(1)] by (simp add: swiss_abs_def)
  then have "sw_visits api e (swiss_data c) \<noteq> []" using assms(2) by auto
  then obtain k x es where o: "sw_visits api e (swiss_data c) = (k, x) # es"
    by (metis list.exhaust prod.exhaust)
  then have kx: "swiss_abs mabs c k = Some x" using en enumerates_Cons by fastforce
  show ?thesis
  proof (cases "k = zk")
    case True
    with o kx assms(2) show ?thesis by (simp add: swiss_Next_cases) blast
  next
    case False
    with o assms show ?thesis
      by (simp add: swiss_Next_cases swiss_abs_Delete kv_simps del: swiss_Delete.simps) blast
  qed
qed

text \<open>
  C33. An entry under K's zero value is never handed out by the default storage or by \<open>swiss.Map\<close>:
  whatever Next returns, in whatever order the map is visited, the entry stays, and Next says false
  whenever it comes upon that entry, with other entries still there.
\<close>

theorem next_never_takes_zero_key:
  assumes "is_order ord" "direct_inv c" "direct_abs c zk = Some v"
    and "swiss_ok api mabs" "swiss_abs mabs s zk' = Some w"
  shows "(\<exists>k x ok c'. direct_Next zk zv ord c = Ret ((k, x, ok), c') \<and>
      direct_abs c' zk = Some v \<and> (ok \<longrightarrow> k \<noteq> zk) \<and> (\<not> ok \<longrightarrow> (k, x) = (zk, v) \<and> c' = c)) \<and>
    (\<exists>k x ok s'. swiss_Next api zk' e s = Ret ((k, x, ok), s') \<and>
      swiss_abs mabs s' zk' = Some w \<and> (ok \<longrightarrow> k \<noteq> zk') \<and> (\<not> ok \<longrightarrow> (k, x) = (zk', w) \<and> s' = s))"
  using direct_next_zero_key[OF assms(1-3)] swiss_next_zero_key[OF assms(4,5)] by blast

theorem next_never_takes_zero_key_witness:
  "(\<exists>k x ok c'. direct_Next (0::nat) ''z'' rev \<lparr>direct_data = [(1, ''a''), (0, ''b'')]\<rparr> = Ret ((k, x, ok), c') \<and>
      direct_abs c' 0 = Some ''b'' \<and> (ok \<longrightarrow> k \<noteq> 0) \<and>
      (\<not> ok \<longrightarrow> (k, x) = (0, ''b'') \<and> c' = \<lparr>direct_data = [(1, ''a''), (0, ''b'')]\<rparr>)) \<and>
    (\<exists>k x ok s'. swiss_Next list_swiss [] True \<lparr>swiss_data = [([], ''v''), (''a'', ''w'')]\<rparr> =
        Ret ((k, x, ok), s') \<and>
      swiss_abs map_of s' [] = Some ''v'' \<and> (ok \<longrightarrow> k \<noteq> []) \<and>
      (\<not> ok \<longrightarrow> (k, x) = ([], ''v'') \<and> s' = \<lparr>swiss_data = [([], ''v''), (''a'', ''w'')]\<rparr>))"
  by (rule next_never_takes_zero_key[OF _ _ _ list_swiss_ok])
    (simp_all add: direct_inv_def gomap_ok_def direct_abs_def swiss_abs_def)

section \<open>The version check\<close>

lemma go_index_char:
  "CHR ''.'' \<notin> set xs \<Longrightarrow> go_index (xs @ ''.'' @ r) ''.'' = Some (length xs)"
  by (induction xs) auto

lemma go_index_no_char: "CHR ''.'' \<notin> set xs \<Longrightarrow> go_index xs ''.'' = None"
  by (induction xs) auto

lemma split_first_dot:
  assumes "CHR ''.'' \<notin> set ds" "ds \<noteq> []" "rest = [] \<or> (\<exists>r. rest = ''.'' @ r)"
  shows "go_split (ds @ rest) ''.'' ! 0 = ds" "go_split (ds @ rest) ''.'' \<noteq> []"
proof -
  obtain n where n: "length (ds @ rest) = Suc n" using assms(2) by (cases ds) auto
  show "go_split (ds @ rest) ''.'' ! 0 = ds"
    using assms(3) go_index_char[OF assms(1)] go_index_no_char[OF assms(1)] n
    by (auto simp: go_split_def)
  show "go_split (ds @ rest) ''.'' \<noteq> []" by (simp add: go_split_def)
qed

lemma nat_digits_bytes: "c \<in> set (nat_digits n) \<Longrightarrow> byte_in c 48 57"
proof (induction n rule: nat_digits.induct)
  case (1 n)
  show ?case
  proof (cases "n < 10")
    case True
    with 1(2) show ?thesis by (subst (asm) nat_digits.simps) (simp add: byte_in_def of_char_of)
  next
    case False
    have "n mod 10 < 10" by simp
    with 1 False show ?thesis
      by (subst (asm) (2) nat_digits.simps) (auto simp: byte_in_def of_char_of)
  qed
qed

lemma atoi_nat_digits:
  assumes "n < 2 ^ 63"
  shows "atoi (nat_digits n) = Some (int n)"
proof -
  obtain c cs where c: "nat_digits n = c # cs" by (meson nat_digits_nonempty neq_Nil_conv)
  then have "byte_in c 48 57" using nat_digits_bytes[of c n] by simp
  then have "c \<noteq> CHR ''-''" "c \<noteq> CHR ''+''" by (auto simp: byte_in_def)
  moreover have "int n < 2 ^ 63" using assms by simp
  ultimately show ?thesis
    using c digits_value_nat_digits[of n] by (simp add: atoi_def)
qed

text \<open>
  C39. The constructor of the swiss storage warns exactly when the runtime's version is
  \<open>go1.N\<close>, perhaps followed by a dot and anything, with N at least 24.
\<close>

theorem swiss_warns_from_go_1_24:
  assumes "n < 2 ^ 63" "rest = [] \<or> (\<exists>r. rest = ''.'' @ r)"
  shows "fst (NewMightyMapSwissStorage api (''go1.'' @ nat_digits n @ rest) optfuncs) \<longleftrightarrow> 24 \<le> n"
proof -
  have "CHR ''.'' \<notin> set (nat_digits n)" using nat_digits_bytes by (force simp: byte_in_def)
  note s = split_first_dot[OF this nat_digits_nonempty assms(2)]
  have t: "trim_prefix (''go1.'' @ nat_digits n @ rest) ''go1.'' = nat_digits n @ rest"
    by (simp add: trim_prefix_def)
  have "checkGoVersion (''go1.'' @ nat_digits n @ rest) \<longleftrightarrow> 24 \<le> n"
    unfolding checkGoVersion_def t Let_def using s atoi_nat_digits[OF assms(1)] by simp
  then show ?thesis by (simp add: NewMightyMapSwissStorage_def)
qed

theorem swiss_warns_from_go_1_24_witness:
  "fst (NewMightyMapSwissStorage list_swiss (''go1.'' @ nat_digits 24 @ ''.1'') []) \<longleftrightarrow> (24::nat) \<le> 24"
  by (rule swiss_warns_from_go_1_24) simp_all

end
