(* ===== verification/Badger_Properties.thy ===== *)
theory Badger_Properties
  imports Instances
begin

text \<open>
  Properties of the BadgerDB storage beyond the map it refines: what its counter counts, and which
  options reach the database.
\<close>

section \<open>The counter\<close>

text \<open>
  C17. Once Len has been called, Len is the number of keys plus the number of stores since the last
  Clear that overwrote a key, after any sequence of writes and calls to Len, as long as that number
  fits an int64.
\<close>

theorem badger_len_counts_overwrites:
  assumes "badger_inv kc api opn dbmap kfit vfit c" "\<not> bg_initLenCall c"
    and "list_all (badger_call_ok kc kfit vfit) calls"
  shows "\<exists>len0 c0 c1 n. badger_Len api c = Ret (len0, c0) \<and>
    badger_counted_all kc api zk (c0, 0) calls = Ret (c1, n) \<and>
    (card (dom (badger_abs kc dbmap kfit c1)) + n < 2 ^ 63 \<longrightarrow>
       badger_Len api c1 = Ret (int (card (dom (badger_abs kc dbmap kfit c1)) + n), c1))"
proof -
  obtain len0 c0 where c0: "badger_Len api c = Ret (len0, c0)"
    "badger_inv kc api opn dbmap kfit vfit c0" "badger_ahead kc dbmap kfit c0 0"
    using badger_first_Len[OF assms(1,2)] by blast
  obtain c1 n where "badger_counted_all kc api zk (c0, 0) calls = Ret (c1, n)"
    "badger_ahead kc dbmap kfit c1 n"
    using badger_counted_run[OF c0(2,3) assms(3), of zk] by blast
  with c0(1) badger_Len_ahead show ?thesis by blast
qed

theorem badger_len_counts_overwrites_witness:
  "\<exists>len0 c0 c1 n. badger_Len list_badger empty_badger = Ret (len0, c0) \<and>
    badger_counted_all str_keys list_badger [] (c0, 0)
      [BStore ''a'' ''x'', BStore ''a'' ''y'', BLen, BStore ''b'' ''z'', BDelete [''b'', ''c'']] = Ret (c1, n) \<and>
    (card (dom (badger_abs str_keys map_of (\<lambda>_. True) c1)) + n < 2 ^ 63 \<longrightarrow>
       badger_Len list_badger c1 =
         Ret (int (card (dom (badger_abs str_keys map_of (\<lambda>_. True) c1)) + n), c1))"
  by (rule badger_len_counts_overwrites[OF empty_badger_inv]) (simp_all add: empty_badger_def)

section \<open>The constructor\<close>

lemma badger_options_encrypted:
  "key \<noteq> [] \<Longrightarrow> badger_options_of (o1\<lparr>encryptionKey := key\<rparr>) =
    (badger_options_of o1)\<lparr>bo_Encryption := Some (key, encryptionKeyRotation o1)\<rparr>"
  by (simp add: badger_options_of_def)

text \<open>
  C28. An encryption key is accepted exactly when it has 16, 24 or 32 bytes; then a storage built
  with that option last opens a database encrypted with it, and otherwise building the option panics.
\<close>

theorem encryption_key_reaches_database:
  "(if length key \<in> {16, 24, 32}
    then \<exists>f. WithEncryptionKey key = Ret f \<and>
      (\<forall>opn defaults fs. NewMightyMapBadgerStorage opn defaults (fs @ [f]) =
         (let opts = (apply_opts fs defaults)\<lparr>encryptionKey := key\<rparr>;
              dbo = (badger_options_of (apply_opts fs defaults))
                \<lparr>bo_Encryption := Some (key, encryptionKeyRotation (apply_opts fs defaults))\<rparr>
          in case opn dbo of
               Inl e \<Rightarrow> Panic e
             | Inr db \<Rightarrow> Ret (\<lparr>bg_db = db, bg_len = 0, bg_initLenCall = False\<rparr>, gc_goroutine opts)))
    else \<exists>e. WithEncryptionKey key = Panic e)"
proof (cases "length key \<in> {16, 24, 32}")
  case True
  then have "key \<noteq> []" by auto
  note o = badger_options_encrypted[OF this]
  from True have "WithEncryptionKey key = Ret (\<lambda>o1. o1\<lparr>encryptionKey := key\<rparr>)"
    by (auto simp: WithEncryptionKey_def)
  with True show ?thesis
    by (intro if_P[THEN iffD2] exI[of _ "\<lambda>o1. o1\<lparr>encryptionKey := key\<rparr>"])
      (simp_all add: NewMightyMapBadgerStorage_def Let_def o)
qed (simp add: WithEncryptionKey_def)

text \<open>
  The conflict detection a caller asks for never reaches the database: with options that do not
  look at the field themselves, leaving \<open>WithDetectConflicts\<close> out builds the same storage.
\<close>

theorem detect_conflicts_is_lost:
  fixes defaults :: "'f badgerOpts"
  assumes "list_all (\<lambda>g. \<forall>o1 b. g (o1\<lparr>detectConflicts := b\<rparr>) = (g o1)\<lparr>detectConflicts := b\<rparr>) gs"
  shows "NewMightyMapBadgerStorage opn defaults (fs @ WithDetectConflicts b # gs) =
    NewMightyMapBadgerStorage opn defaults (fs @ gs)"
proof -
  have "apply_opts gs (o1\<lparr>detectConflicts := b\<rparr>) = (apply_opts gs o1)\<lparr>detectConflicts := b\<rparr>" for o1
    using assms by (induction gs arbitrary: o1) simp_all
  moreover have "badger_options_of (o1\<lparr>detectConflicts := b\<rparr>) = badger_options_of o1"
    for o1 :: "'f badgerOpts"
    by (simp add: badger_options_of_def)
  moreover have "gc_goroutine (o1\<lparr>detectConflicts := b\<rparr>) = gc_goroutine o1" for o1 :: "'f badgerOpts"
    by (simp add: gc_goroutine_def)
  ultimately show ?thesis
    by (simp add: NewMightyMapBadgerStorage_def WithDetectConflicts_def Let_def split: sum.split)
qed

theorem detect_conflicts_is_lost_witness:
  "NewMightyMapBadgerStorage (\<lambda>_. Inr []) (getDefaultBadgerOptions ''/tmp'' 0 8 (5::nat))
      ([WithMemoryStorage False] @ WithDetectConflicts True # [WithTempDir ''/data'', WithGcInterval Second]) =
    NewMightyMapBadgerStorage (\<lambda>_. Inr ([]::entries)) (getDefaultBadgerOptions ''/tmp'' 0 8 5)
      ([WithMemoryStorage False] @ [WithTempDir ''/data'', WithGcInterval Second])"
  by (rule detect_conflicts_is_lost) (simp add: badger_option_defs)

end
