(* ===== verification/Redis_Properties.thy ===== *)
theory Redis_Properties
  imports Instances
begin

text \<open>
  Properties of the Redis storage beyond the map it refines: the cursor loop, what the storage
  does with servers that return a key twice and with keys that expire during a call, whose keys it
  touches, and which options reach the
  client.
\<close>

section \<open>The cursor loop\<close>

text \<open>
  C15. \<open>redisScan\<close> returns a list of keys exactly when the server's iteration from cursor 0 is
  complete, that is reaches cursor 0 again without an error, and then the list is all of its
  batches, in order.
\<close>

theorem redis_scan_is_complete_iteration:
  "redis_scan api c pat maxKeys = Ret (Inr ks) \<longleftrightarrow>
    scan_from api (rs_client c) pat (case maxKeys of [] \<Rightarrow> defaultRedisCursorSize | n # _ \<Rightarrow> n) 0 ks"
proof
  assume "redis_scan api c pat maxKeys = Ret (Inr ks)"
  then have "scan_loop api (rs_client c) pat (case maxKeys of [] \<Rightarrow> defaultRedisCursorSize | n # _ \<Rightarrow> n) 0 [] =
      Some (Inr ks)"
    by (simp add: redis_scan_def split: option.splits)
  from scan_loop_sound[OF this]
  show "scan_from api (rs_client c) pat (case maxKeys of [] \<Rightarrow> defaultRedisCursorSize | n # _ \<Rightarrow> n) 0 ks" by simp
next
  assume "scan_from api (rs_client c) pat (case maxKeys of [] \<Rightarrow> defaultRedisCursorSize | n # _ \<Rightarrow> n) 0 ks"
  from scan_loop_scan_from[OF this, of "[]"]
  show "redis_scan api c pat maxKeys = Ret (Inr ks)" by (simp add: redis_scan_def)
qed

section \<open>Keys returned more than once\<close>

text \<open>
  C22. Whatever the server repeats, as long as no key expires meanwhile, there is one list of the storage's entries, each of them in it at
  least once, that Range visits, Keys lists the keys of and Len counts; so Len is never less than
  the number of keys, and all three are exact when the server repeats nothing.
\<close>

theorem redis_iteration_covers:
  assumes "redis_inv kc api up dbmap fit p c"
  shows "\<exists>es. (\<forall>f (st :: 'c). redis_Range kc api c f st = range_loop f es st) \<and>
    redis_Keys kc api c = Ret (map fst es) \<and> redis_Len api c = Ret (int (length es)) \<and>
    (\<forall>k v. (k, v) \<in> set es \<longleftrightarrow> redis_abs kc dbmap fit p c k = Some v) \<and>
    card (dom (redis_abs kc dbmap fit p c)) \<le> length es \<and>
    (scan_once api up \<longrightarrow> enumerates (redis_abs kc dbmap fit p c) es)"
proof (rule redis_Range_covers[OF assms])
  fix es assume es: "\<And>f (st :: 'c). redis_Range kc api c f st = range_loop f es st"
    "redis_Keys kc api c = Ret (map fst es)" "redis_Len api c = Ret (int (length es))"
    "\<And>k v. (k, v) \<in> set es \<longleftrightarrow> redis_abs kc dbmap fit p c k = Some v"
    "scan_once api up \<Longrightarrow> enumerates (redis_abs kc dbmap fit p c) es"
  have "dom (redis_abs kc dbmap fit p c) = set (map fst es)" using es(4) by force
  then have "card (dom (redis_abs kc dbmap fit p c)) \<le> length es"
    using card_length[of "map fst es"] by simp
  with es show ?thesis by blast
qed

theorem redis_iteration_covers_witness:
  "redis_Len repeating_redis two_redis = Ret 3 \<and>
  (\<exists>es. length es = 3 \<and>
    (\<forall>f (st :: nat). redis_Range str_keys repeating_redis two_redis f st = range_loop f es st) \<and>
    redis_Keys str_keys repeating_redis two_redis = Ret (map fst es) \<and>
    (\<forall>k v. (k, v) \<in> set es \<longleftrightarrow> [''a'' \<mapsto> ''I1'', ''b'' \<mapsto> ''I11''] k = Some v) \<and>
    card (dom [''a'' \<mapsto> ''I1'', ''b'' \<mapsto> ''I11'']) \<le> length es)"
proof
  from redis_iteration_covers[OF two_redis_inv, unfolded two_redis_abs] obtain es where
    es: "\<forall>f (st :: nat). redis_Range str_keys repeating_redis two_redis f st = range_loop f es st"
    "redis_Keys str_keys repeating_redis two_redis = Ret (map fst es)"
    "redis_Len repeating_redis two_redis = Ret (int (length es))"
    "\<forall>k v. (k, v) \<in> set es \<longleftrightarrow> [''a'' \<mapsto> ''I1'', ''b'' \<mapsto> ''I11''] k = Some v"
    "card (dom [''a'' \<mapsto> ''I1'', ''b'' \<mapsto> ''I11'']) \<le> length es" by blast
  have "length es = 3" using es(3) two_redis_repeats by simp
  with es(1,2,4,5) show "\<exists>es. length es = 3 \<and>
    (\<forall>f (st :: nat). redis_Range str_keys repeating_redis two_redis f st = range_loop f es st) \<and>
    redis_Keys str_keys repeating_redis two_redis = Ret (map fst es) \<and>
    (\<forall>k v. (k, v) \<in> set es \<longleftrightarrow> [''a'' \<mapsto> ''I1'', ''b'' \<mapsto> ''I11''] k = Some v) \<and>
    card (dom [''a'' \<mapsto> ''I1'', ''b'' \<mapsto> ''I11'']) \<le> length es" by blast
qed (rule two_redis_repeats)

text \<open>
  C21. Under the MessagePack adapter, a loop over Next empties the storage: with one round more than
  there are entries it ends, having returned each stored value exactly once, decoded, whether or
  not the server repeats keys, as long as no key expires meanwhile.
\<close>

theorem redis_queue_drains:
  fixes ops :: "(('db, 't, 'm) redis, 'k, bytes, 'c) storage_ops"
  assumes "adapter_inv cd gen plain T fit (redis_inv kc api up dbmap fit p)
      (redis_abs kc dbmap fit p) m"
    and "card (dom (adapter_abs cd (redis_abs kc dbmap fit p) m)) < n" and "ops = redis_ops kc api zk"
  shows "\<exists>out m'. drain (\<lambda>_. adapter_Next cd ops) (\<lambda>_. ()) n m =
      Ret (out, True, m') \<and>
    distinct (map fst out) \<and> map_of out = adapter_abs cd (redis_abs kc dbmap fit p) m \<and>
    adapter_abs cd (redis_abs kc dbmap fit p) m' = Map.empty"
proof -
  let ?a = "adapter_abs cd (redis_abs kc dbmap fit p)"
  have "\<exists>out m'. drain (\<lambda>_::unit. op_Next (adapter_ops cd ops)) (\<lambda>_. ()) n m = Ret (out, True, m') \<and>
      enumerates (?a m) out \<and> adapter_inv cd gen plain T fit (redis_inv kc api up dbmap fit p)
        (redis_abs kc dbmap fit p) m' \<and> ?a m' = Map.empty"
    unfolding assms(3) by (rule redis_mp.ad.drain_all[OF TrueI assms(1,2)])
  then show ?thesis by (auto simp: enumerates_def adapter_ops_def)
qed

theorem redis_queue_drains_witness:
  "redis_Len repeating_redis two_redis = Ret 3 \<and>
  (\<exists>out m'. drain (\<lambda>_. adapter_Next int_codec (redis_ops str_keys repeating_redis [])) (\<lambda>_. ()) 3
      (newMsgpackAdapter two_redis Map.empty) = Ret (out, True, m') \<and>
    distinct (map fst out) \<and>
    map_of out = [''a'' \<mapsto> GVal int_type 1, ''b'' \<mapsto> GVal int_type 2] \<and>
    adapter_abs int_codec (redis_abs str_keys map_of (\<lambda>_. True) ''mightymap_'') m' = Map.empty)"
proof
  have "card (dom (adapter_abs int_codec (redis_abs str_keys map_of (\<lambda>_. True) ''mightymap_'')
      (newMsgpackAdapter two_redis Map.empty))) < 3"
    unfolding two_redis_adapter(2) by simp
  from redis_queue_drains[OF two_redis_adapter(1) this refl]
  show "\<exists>out m'. drain (\<lambda>_. adapter_Next int_codec (redis_ops str_keys repeating_redis [])) (\<lambda>_. ()) 3
      (newMsgpackAdapter two_redis Map.empty) = Ret (out, True, m') \<and>
    distinct (map fst out) \<and>
    map_of out = [''a'' \<mapsto> GVal int_type 1, ''b'' \<mapsto> GVal int_type 2] \<and>
    adapter_abs int_codec (redis_abs str_keys map_of (\<lambda>_. True) ''mightymap_'') m' = Map.empty"
    unfolding two_redis_adapter(2) .
qed (rule two_redis_repeats)

section \<open>Keys that expire during a call\<close>

lemma redis_range_loop_missing:
  assumes "\<forall>k v st. \<exists>st'. f k v st = Ret (True, st')" "p \<noteq> []"
    and "p @ b \<in> set keys" "rd_get api db (p @ b) = Inl RedisNil"
  shows "\<exists>e. redis_range_loop kc api db p f keys st = Panic e"
  using assms(3)
proof (induction keys arbitrary: st)
  case (Cons key keys)
  show ?case
  proof (cases "key = p @ b")
    case True
    with assms(2,4) show ?thesis by (simp add: split_n_prefix)
  next
    case False
    then have IH: "\<exists>e. redis_range_loop kc api db p f keys st = Panic e" for st using Cons by auto
    show ?thesis
    proof (cases "length (split_n key p 2) \<noteq> 2")
      case True
      with IH show ?thesis by simp
    next
      case split: False
      show ?thesis
      proof (cases "rd_get api db key")
        case (Inl e)
        with split show ?thesis by simp
      next
        case (Inr v)
        show ?thesis
        proof (cases "key_unmarshal kc (split_n key p 2 ! 1)")
          case (Inl e)
          with split Inr show ?thesis by simp
        next
          case k: (Inr k)
          obtain st' where "f k v st = Ret (True, st')" using assms(1) by blast
          with split Inr k IH[of st'] show ?thesis by simp
        qed
      qed
    qed
  qed
qed simp

text \<open>
  C10. A key that expires while a call is under way: if it is gone when its GET follows the SCAN that
  listed it, Range panics, with any callback that does not stop, and so does Next if it is the
  first key; neither goes on with the keys that are left.
\<close>

theorem expiring_key_panics:
  assumes "prefix (rs_opts c) = p" "p \<noteq> []"
    and range: "scan_from api (rs_client c) (p @ ''*'') defaultRedisCursorSize 0 keys"
      "p @ b \<in> set keys" "rd_get api (rs_client c) (p @ b) = Inl RedisNil"
    and f: "\<forall>k v st. \<exists>st'. f k v st = Ret (True, st')"
    and nxt: "scan_from api (rs_client c) (p @ ''*'') redisScanSingleKey 0 ((p @ b) # rest)"
  shows "(\<exists>e. redis_Range kc api c f st = Panic e) \<and> (\<exists>e. redis_Next kc api zk c = Panic e)"
proof
  have "scan_prefix api c [] = Ret keys"
    using scan_loop_scan_from[OF range(1), of "[]"] assms(1) by (simp add: scan_prefix_def redis_scan_def)
  with redis_range_loop_missing[OF f assms(2) range(2,3)] show "\<exists>e. redis_Range kc api c f st = Panic e"
    by (simp add: redis_Range_def assms(1))
  have "scan_prefix api c [redisScanSingleKey] = Ret ((p @ b) # rest)"
    using scan_loop_scan_from[OF nxt, of "[]"] assms(1) by (simp add: scan_prefix_def redis_scan_def)
  with range(3) assms(1,2) show "\<exists>e. redis_Next kc api zk c = Panic e"
    by (auto simp: redis_Next_def split_n_prefix split: sum.split)
qed

lemma scan_from_same_scan:
  "scan_from a db p n cur ks \<Longrightarrow> rd_scan a = rd_scan b \<Longrightarrow> scan_from b db p n cur ks"
  by (induction rule: scan_from.induct) (auto intro: scan_from.intros)

text \<open>The key \<open>mightymap_a\<close> is listed and gone.\<close>

definition expiring_redis :: "entries redis_api" where
  "expiring_redis = list_redis\<lparr>rd_get := \<lambda>db k. if k = ''mightymap_a'' then Inl RedisNil else Inr ''1''\<rparr>"

theorem expiring_key_panics_witness:
  "(\<exists>e. redis_Range str_keys expiring_redis (empty_redis\<lparr>rs_client := [(''mightymap_a'', ''0''), (''mightymap_b'', ''1'')]\<rparr>)
      (\<lambda>k v n. Ret (True, Suc n)) 0 = Panic e) \<and>
    (\<exists>e. redis_Next str_keys expiring_redis []
      (empty_redis\<lparr>rs_client := [(''mightymap_a'', ''0''), (''mightymap_b'', ''1'')]\<rparr>) = Panic e)"
proof (rule expiring_key_panics)
  let ?c = "empty_redis\<lparr>rs_client := [(''mightymap_a'', ''0''), (''mightymap_b'', ''1'')]\<rparr>"
  show "prefix (rs_opts ?c) = ''mightymap_''" by (simp add: empty_redis_def default_prefix_ok)
  have "rd_scan list_redis = rd_scan expiring_redis" by (simp add: expiring_redis_def)
  note scan = scan_from_same_scan[OF _ this]
  show "scan_from expiring_redis (rs_client ?c) (''mightymap_'' @ ''*'') defaultRedisCursorSize 0
      [''mightymap_a'', ''mightymap_b'']"
    "scan_from expiring_redis (rs_client ?c) (''mightymap_'' @ ''*'') redisScanSingleKey 0
      ((''mightymap_'' @ ''a'') # [''mightymap_b''])"
    by (rule scan, simp add: list_scan_from)+
qed (simp_all add: expiring_redis_def)

section \<open>Whose keys are touched\<close>

lemma other_prefix:
  assumes "redis_frame dbmap p c c'" "\<not> has_prefix p q" "\<not> has_prefix q p"
  shows "cut_prefix q (dbmap (rs_client c')) = cut_prefix q (dbmap (rs_client c))"
proof -
  have "\<not> has_prefix (q @ b) p" for b
  proof
    assume "has_prefix (q @ b) p"
    then obtain r where r: "q @ b = p @ r" by (auto simp: has_prefix_iff)
    then show False
      using assms(2,3) by (auto simp: has_prefix_iff append_eq_append_conv2)
  qed
  with assms(1) show ?thesis by (simp add: redis_frame_def cut_prefix_def)
qed

text \<open>
  C23. Two storages on one server do not disturb each other when neither prefix begins with the
  other: after Store, Delete, Clear or Next on one, the part of the key space that belongs to the
  other is what it was.
\<close>

theorem redis_prefix_isolation:
  assumes "redis_inv kc api up dbmap fit p c" "\<not> has_prefix p q" "\<not> has_prefix q p"
    and "redis_kok kc fit p k" "fit v" "\<forall>k \<in> set ks. redis_kok kc fit p k"
  shows "(\<exists>c'. redis_Store kc api c k v = Ret c' \<and>
      cut_prefix q (dbmap (rs_client c')) = cut_prefix q (dbmap (rs_client c))) \<and>
    (\<exists>c'. redis_Delete kc api c ks = Ret c' \<and>
      cut_prefix q (dbmap (rs_client c')) = cut_prefix q (dbmap (rs_client c))) \<and>
    (\<exists>c'. redis_Clear kc api c = Ret c' \<and>
      cut_prefix q (dbmap (rs_client c')) = cut_prefix q (dbmap (rs_client c))) \<and>
    (\<exists>r c'. redis_Next kc api zk c = Ret (r, c') \<and>
      cut_prefix q (dbmap (rs_client c')) = cut_prefix q (dbmap (rs_client c)))"
proof (intro conjI)
  note same = other_prefix[OF _ assms(2,3)]
  show "\<exists>c'. redis_Store kc api c k v = Ret c' \<and>
      cut_prefix q (dbmap (rs_client c')) = cut_prefix q (dbmap (rs_client c))"
    using redis_Store_spec[OF assms(1,4,5)] same by blast
  show "\<exists>c'. redis_Delete kc api c ks = Ret c' \<and>
      cut_prefix q (dbmap (rs_client c')) = cut_prefix q (dbmap (rs_client c))"
    using redis_Delete_spec[OF assms(1,6)] same by blast
  show "\<exists>c'. redis_Clear kc api c = Ret c' \<and>
      cut_prefix q (dbmap (rs_client c')) = cut_prefix q (dbmap (rs_client c))"
    using redis_Clear_spec[OF assms(1)] same by blast
  show "\<exists>r c'. redis_Next kc api zk c = Ret (r, c') \<and>
      cut_prefix q (dbmap (rs_client c')) = cut_prefix q (dbmap (rs_client c))"
    using redis_Next_spec[OF assms(1), of zk] same by blast
qed

text \<open>A server that also holds a key of another storage.\<close>

definition shared_redis :: "(entries, unit, unit) redis" where
  "shared_redis = \<lparr>rs_client = [(''other_x'', ''9''), (''mightymap_k'', ''1'')],
     rs_opts = getDefaultRedisOptions\<rparr>"

lemma shared_redis_inv:
  "redis_inv str_keys list_redis gomap_ok map_of (\<lambda>_. True) ''mightymap_'' shared_redis"
  by (simp add: redis_inv_def list_redis_ok shared_redis_def default_prefix_ok gomap_ok_def)

theorem redis_prefix_isolation_witness:
  "(\<exists>c'. redis_Store str_keys list_redis shared_redis ''k'' ''2'' = Ret c' \<and>
      cut_prefix ''other_'' (map_of (rs_client c')) = cut_prefix ''other_'' (map_of (rs_client shared_redis))) \<and>
    (\<exists>c'. redis_Delete str_keys list_redis shared_redis [''x'', ''k''] = Ret c' \<and>
      cut_prefix ''other_'' (map_of (rs_client c')) = cut_prefix ''other_'' (map_of (rs_client shared_redis))) \<and>
    (\<exists>c'. redis_Clear str_keys list_redis shared_redis = Ret c' \<and>
      cut_prefix ''other_'' (map_of (rs_client c')) = cut_prefix ''other_'' (map_of (rs_client shared_redis))) \<and>
    (\<exists>r c'. redis_Next str_keys list_redis [] shared_redis = Ret (r, c') \<and>
      cut_prefix ''other_'' (map_of (rs_client c')) = cut_prefix ''other_'' (map_of (rs_client shared_redis)))"
  by (rule redis_prefix_isolation[OF shared_redis_inv]) simp_all

section \<open>The empty prefix\<close>

text \<open>
  Without a prefix, keys do not come back: \<open>SplitN\<close> on an empty separator cuts the first UTF-8
  sequence off the key, so Keys decodes the rest of each key, and never sees a key of one sequence.
\<close>

theorem empty_prefix_cuts_keys:
  assumes "prefix (rs_opts c) = []" "scan_prefix api c [] = Ret [key]" "key \<noteq> []"
  shows "redis_Keys kc api c =
    (if length key = rune_size key then Ret []
     else case key_unmarshal kc (drop (rune_size key) key) of
       Inl e \<Rightarrow> Panic e
     | Inr k \<Rightarrow> Ret [k])"
proof -
  obtain a as where k: "key = a # as" using assms(3) by (cases key) auto
  have "rune_size key \<le> length key" by (induction key rule: rune_size.induct) auto
  moreover have "explode (Suc 0) xs = (if xs = [] then [] else [xs])" for xs by (cases xs) auto
  ultimately have "split_n key [] 2 = (if length key = rune_size key then [take (rune_size key) key]
      else [take (rune_size key) key, drop (rune_size key) key])"
    by (auto simp: split_n_def numeral_2_eq_2 k simp del: rune_size.simps explode.simps(3))
  then show ?thesis
    by (simp add: redis_Keys_def assms(1,2) Let_def split: sum.split)
qed

theorem empty_prefix_cuts_keys_witness:
  "redis_Keys str_keys list_redis
      \<lparr>rs_client = [(''ab'', ''v'')], rs_opts = WithRedisPrefix [] (getDefaultRedisOptions :: (unit, unit) redisOpts)\<rparr> =
    (if length ''ab'' = rune_size ''ab'' then Ret []
     else case key_unmarshal str_keys (drop (rune_size ''ab'') ''ab'') of
       Inl e \<Rightarrow> Panic e
     | Inr k \<Rightarrow> Ret [k])"
proof (rule empty_prefix_cuts_keys)
  let ?c = "\<lparr>rs_client = [(''ab'', ''v'')],
    rs_opts = WithRedisPrefix [] (getDefaultRedisOptions :: (unit, unit) redisOpts)\<rparr>"
  show "prefix (rs_opts ?c) = []" by (simp add: WithRedisPrefix_def)
  have "scan_from list_redis (rs_client ?c) ''*'' 2048 0 [''ab'']" by (simp add: list_scan_from)
  from scan_loop_scan_from[OF this, of "[]"] show "scan_prefix list_redis ?c [] = Ret [''ab'']"
    by (simp add: scan_prefix_def redis_scan_def WithRedisPrefix_def)
qed simp

section \<open>TLS\<close>

text \<open>
  A TLS configuration given to fresh options is dropped for an empty one; it is used when the
  option is given twice.
\<close>

theorem tls_config_dropped_once:
  "co_TLSConfig (rs_client (NewMightyMapRedisStorage (\<lambda>co. co) runT empty_tls
      [WithRedisTLS True, WithRedisTLSConfig empty_tls (Some cfg)])) = Some empty_tls \<and>
   co_TLSConfig (rs_client (NewMightyMapRedisStorage (\<lambda>co. co) runT empty_tls
      [WithRedisTLS True, WithRedisTLSConfig empty_tls (Some cfg'), WithRedisTLSConfig empty_tls (Some cfg)])) =
     Some cfg"
  by (simp add: NewMightyMapRedisStorage_def redis_final_opts_def redis_client_options_of_def
      WithRedisTLS_def WithRedisTLSConfig_def getDefaultRedisOptions_def)

end
