(* ===== verification/SQLite_Properties.thy ===== *)
theory SQLite_Properties
  imports Instances
begin

text \<open>
  Properties of the SQLite storage beyond the map it refines: what Delete does when a statement
  fails.
\<close>

section \<open>Deleting\<close>

lemma sqlite_delete_loop_bad:
  assumes "\<And>t m b. txtabs t tn = Some m \<Longrightarrow>
      (if bad b then \<exists>e. sq_stmt_exec api t (delete_sql tn) [b] = (Some e, t)
       else \<exists>t'. sq_stmt_exec api t (delete_sql tn) [b] = (None, t') \<and>
         txtabs t' = (txtabs t)(tn \<mapsto> m(b := None)))"
    and "txtabs tx tn = Some m"
  shows "txtabs (sqlite_delete_loop kc api (delete_sql tn) ks tx) =
    (txtabs tx)(tn \<mapsto> m |` (- {b. \<not> bad b \<and> (\<exists>k \<in> set ks. key_marshal kc k = Inr b)}))"
  using assms(2)
proof (induction ks arbitrary: tx m)
  case Nil
  then have "(txtabs tx)(tn \<mapsto> m) = txtabs tx" by auto
  then show ?case by simp
next
  case (Cons k ks)
  let ?gone = "\<lambda>ks. {b. \<not> bad b \<and> (\<exists>k \<in> set ks. key_marshal kc k = Inr b)}"
  show ?case
  proof (cases "key_marshal kc k")
    case (Inl e)
    then have "?gone (k # ks) = ?gone ks" by auto
    with Inl Cons.IH[OF Cons.prems] show ?thesis by simp
  next
    case (Inr b)
    show ?thesis
    proof (cases "bad b")
      case True
      with Inr have "?gone (k # ks) = ?gone ks" by auto
      moreover have "snd (sq_stmt_exec api tx (delete_sql tn) [b]) = tx"
        using assms(1)[OF Cons.prems, of b] True by auto
      ultimately show ?thesis using Inr Cons.IH[OF Cons.prems] by simp
    next
      case False
      with Inr have g: "?gone (k # ks) = insert b (?gone ks)" by auto
      obtain t' where t': "sq_stmt_exec api tx (delete_sql tn) [b] = (None, t')"
        "txtabs t' = (txtabs tx)(tn \<mapsto> m(b := None))"
        using assms(1)[OF Cons.prems, of b] False by auto
      then have "txtabs t' tn = Some (m(b := None))" by simp
      from Cons.IH[OF this] have "txtabs (sqlite_delete_loop kc api (delete_sql tn) ks t') =
          (txtabs tx)(tn \<mapsto> (m(b := None)) |` (- ?gone ks))"
        unfolding t'(2) fun_upd_upd .
      moreover have "sqlite_delete_loop kc api (delete_sql tn) (k # ks) tx =
          sqlite_delete_loop kc api (delete_sql tn) ks t'"
        using Inr t'(1) by simp
      moreover have "(m(b := None)) |` (- ?gone ks) = m |` (- insert b (?gone ks))"
        by (auto simp: restrict_map_def fun_eq_iff)
      ultimately show ?thesis unfolding g by (simp only:)
    qed
  qed
qed

text \<open>
  C38. A statement of Delete that fails does not undo the others: the transaction is committed, the
  keys whose statements succeeded are gone and the others stay, and nobody is told.
\<close>

theorem sqlite_delete_is_partial:
  assumes "keys \<noteq> []" "sq_begin api (sl_db s) = Inr tx"
    and "txtabs tx (tableName s) = Some (sqlite_table tabs s)"
    and "sq_prepare api tx (delete_sql (tableName s)) = None"
    and "\<And>t m b. txtabs t (tableName s) = Some m \<Longrightarrow>
      (if bad b then \<exists>e. sq_stmt_exec api t (delete_sql (tableName s)) [b] = (Some e, t)
       else \<exists>t'. sq_stmt_exec api t (delete_sql (tableName s)) [b] = (None, t') \<and>
         txtabs t' = (txtabs t)(tableName s \<mapsto> m(b := None)))"
    and "\<And>t. \<exists>db'. sq_commit api t = (None, db') \<and> tabs db' = txtabs t"
  shows "\<exists>s'. sqlite_Delete kc api s keys = Ret s' \<and> sqlite_table tabs s' =
    sqlite_table tabs s |` (- {b. \<not> bad b \<and> (\<exists>k \<in> set keys. key_marshal kc k = Inr b)})"
proof -
  let ?tx = "sqlite_delete_loop kc api (delete_sql (tableName s)) keys tx"
  have tx: "txtabs ?tx = (txtabs tx)(tableName s \<mapsto>
      sqlite_table tabs s |` (- {b. \<not> bad b \<and> (\<exists>k \<in> set keys. key_marshal kc k = Inr b)}))"
    by (rule sqlite_delete_loop_bad[OF assms(5,3)])
  obtain db' where "sq_commit api ?tx = (None, db')" "tabs db' = txtabs ?tx" using assms(6) by blast
  with assms(1,2,4) tx show ?thesis
    by (simp add: sqlite_Delete_def Let_def sqlite_table_def invalidateCountCache_def)
qed

text \<open>A database in which the row of the key \<open>b\<close> cannot be deleted.\<close>

definition stubborn_sqlite :: "(entries, entries) sqlite_api" where
  "stubborn_sqlite = list_sqlite\<lparr>sq_stmt_exec := \<lambda>tx sql args.
     if args = [''b''] then (Some ''disk I/O error'', tx) else (None, AList.delete (args ! 0) tx)\<rparr>"

theorem sqlite_delete_is_partial_witness:
  "\<exists>s'. sqlite_Delete str_keys stubborn_sqlite
      ((empty_sqlite 0)\<lparr>sl_db := [(''a'', ''1''), (''b'', ''2''), (''c'', ''3'')]\<rparr>) [''a'', ''b''] = Ret s' \<and>
    sqlite_table list_tabs s' =
      sqlite_table list_tabs ((empty_sqlite 0)\<lparr>sl_db := [(''a'', ''1''), (''b'', ''2''), (''c'', ''3'')]\<rparr>)
        |` (- {b. \<not> b = ''b'' \<and> (\<exists>k \<in> set [''a'', ''b'']. key_marshal str_keys k = Inr b)})"
proof (rule sqlite_delete_is_partial[where bad = "\<lambda>b. b = ''b''" and txtabs = list_tabs and tabs = list_tabs])
  let ?s = "(empty_sqlite 0)\<lparr>sl_db := [(''a'', ''1''), (''b'', ''2''), (''c'', ''3'')]\<rparr>"
  show "sq_begin stubborn_sqlite (sl_db ?s) = Inr [(''a'', ''1''), (''b'', ''2''), (''c'', ''3'')]"
    by (simp add: stubborn_sqlite_def list_sqlite_def)
  show "list_tabs [(''a'', ''1''), (''b'', ''2''), (''c'', ''3'')] (tableName ?s) =
      Some (sqlite_table list_tabs ?s)"
    by (simp add: sqlite_table_def list_tabs_def empty_sqlite_def)
  show "sq_prepare stubborn_sqlite [(''a'', ''1''), (''b'', ''2''), (''c'', ''3'')]
      (delete_sql (tableName ?s)) = None"
    by (simp add: stubborn_sqlite_def list_sqlite_def)
  fix t :: entries and m b assume "list_tabs t (tableName ?s) = Some m"
  then have "m = map_of t" "tableName ?s = ''t''" by (simp_all add: list_tabs_def empty_sqlite_def)
  then show "if b = ''b''
      then \<exists>e. sq_stmt_exec stubborn_sqlite t (delete_sql (tableName ?s)) [b] = (Some e, t)
      else \<exists>t'. sq_stmt_exec stubborn_sqlite t (delete_sql (tableName ?s)) [b] = (None, t') \<and>
        list_tabs t' = (list_tabs t)(tableName ?s \<mapsto> m(b := None))"
    by (simp add: stubborn_sqlite_def list_tabs_def kv_simps)
next
  fix t show "\<exists>db'. sq_commit stubborn_sqlite t = (None, db') \<and> list_tabs db' = list_tabs t"
    by (simp add: stubborn_sqlite_def list_sqlite_def)
qed simp

end
