(* ===== verification/Badger_Interleaving.thy ===== *)
theory Badger_Interleaving
  imports Interleaving Badger_Storage
begin

text \<open>
  The methods of \<open>storage/mightymapStoreBadger.go\<close> take no lock: a transaction is one atomic step, and
  so is each access to the atomic fields \<open>len\<close> and \<open>initLenCall\<close>. As processes of \<open>Interleaving\<close> they
  are the sequential methods when they run alone; together, they lose track of the counter.
\<close>

section \<open>The methods as processes\<close>

definition badger_store_proc ::
  "'k key_codec \<Rightarrow> 'db badger_api \<Rightarrow> 'k \<Rightarrow> bytes \<Rightarrow> ('db badger, unit outcome) proc" where
  "badger_store_proc kc api key value =
     (case key_marshal kc key of
        Inl e \<Rightarrow> Done (Panic e)
      | Inr keyBytes \<Rightarrow>
          Sect (\<lambda>c. case bd_set api (bg_db c) keyBytes value of
            Inl e \<Rightarrow> (c, Done (Panic e))
          | Inr db' \<Rightarrow> (c\<lparr>bg_db := db'\<rparr>, Sect (\<lambda>c'. (c'\<lparr>bg_len := bg_len c' + 1\<rparr>, Done (Ret ()))))))"

fun badger_delete_proc ::
  "'k key_codec \<Rightarrow> 'db badger_api \<Rightarrow> 'k list \<Rightarrow> ('db badger, unit outcome) proc" where
  "badger_delete_proc kc api [] = Done (Ret ())"
| "badger_delete_proc kc api (key # keys) =
     Sect (\<lambda>c. (c, case badger_Load kc api c key of
         Ret (_, ok) \<Rightarrow>
           if \<not> ok then badger_delete_proc kc api keys
           else (case key_marshal kc key of
             Inl e \<Rightarrow> Done (Panic e)
           | Inr keyBytes \<Rightarrow>
               Sect (\<lambda>c'. case bd_delete api (bg_db c') keyBytes of
                 Inl e \<Rightarrow> (c', Done (Panic e))
               | Inr db' \<Rightarrow> (c'\<lparr>bg_db := db'\<rparr>,
                   Sect (\<lambda>c''. (c''\<lparr>bg_len := bg_len c'' - 1\<rparr>, badger_delete_proc kc api keys)))))
       | Panic e \<Rightarrow> Done (Panic e)
       | Hang \<Rightarrow> Done Hang))"

definition badger_len_proc :: "'db badger_api \<Rightarrow> ('db badger, int outcome) proc" where
  "badger_len_proc api =
     (let read = Sect (\<lambda>c. (c, Done (Ret (sint (bg_len c))))) in
      Sect (\<lambda>c. (c,
        if bg_initLenCall c then read
        else Sect (\<lambda>c1. (c1\<lparr>bg_initLenCall := True\<rparr>,
          Sect (\<lambda>c2. (c2, case bd_view api (bg_db c2) of
              Some e \<Rightarrow> Done (Panic e)
            | None \<Rightarrow>
                (let cnt = length (bd_items api (bg_db c2)) in
                 Sect (\<lambda>c3. (c3\<lparr>bg_len := of_nat cnt\<rparr>, read))))))))))"

section \<open>Alone\<close>

lemma badger_store_proc_alone:
  "badger_Store kc api c key v =
    obind (fst (alone (badger_store_proc kc api key v) c)) (\<lambda>_.
      Ret (snd (alone (badger_store_proc kc api key v) c)))"
  by (auto simp: badger_Store_def badger_store_proc_def split: sum.split)

lemma badger_delete_proc_alone:
  "badger_Delete kc api c keys =
    obind (fst (alone (badger_delete_proc kc api keys) c)) (\<lambda>_.
      Ret (snd (alone (badger_delete_proc kc api keys) c)))"
proof (induction keys arbitrary: c)
  case Nil
  then show ?case by simp
next
  case (Cons key keys)
  show ?case
    by (cases "badger_Load kc api c key"; cases "key_marshal kc key")
      (auto simp: Cons.IH badger_Load_def split: sum.splits)
qed

lemma badger_len_proc_alone:
  "badger_Len api c =
    obind (fst (alone (badger_len_proc api) c)) (\<lambda>r. Ret (r, snd (alone (badger_len_proc api) c)))"
  by (auto simp: badger_Len_def badger_len_proc_def Let_def split: option.split)

section \<open>Together\<close>

text \<open>
  Two deletions of a present key both see it, and both decrement the counter, which is then one
  short.
\<close>

lemma delete_race:
  assumes "badger_inv kc api opn dbmap kfit vfit c" "badger_ahead kc dbmap kfit c 0"
    and "key_ok kc kfit k" "badger_abs kc dbmap kfit c k = Some v"
  shows "\<exists>c'. interleave [True, False, True, False, True, False] c
      (badger_delete_proc kc api [k]) (badger_delete_proc kc api [k]) =
      (c', Done (Ret ()), Done (Ret ())) \<and>
    badger_abs kc dbmap kfit c' = (badger_abs kc dbmap kfit c)(k := None) \<and> bg_len c' = bg_len c - 2 \<and>
    short_for_good kc api zk dbmap kfit vfit c'"
proof -
  let ?a = "badger_abs kc dbmap kfit c"
  obtain b where b: "key_marshal kc k = Inr b" "kfit b" using assms(3) by (rule key_okE)
  obtain db1 where db1: "bd_delete api (bg_db c) b = Inr db1" "opn db1"
    "dbmap db1 = (dbmap (bg_db c))(b := None)"
    using badger_okD(5)[OF badger_invD(1,2)[OF assms(1)] b(2)] by blast
  note up1 = badger_inv_upd[OF assms(1) db1(2,3) assms(3) b(1), of "bg_len c"]
  obtain db2 where db2: "bd_delete api db1 b = Inr db2" "opn db2" "dbmap db2 = (dbmap db1)(b := None)"
    using badger_okD(5)[OF badger_invD(1)[OF assms(1)] db1(2) b(2)] by blast
  let ?c = "c\<lparr>bg_db := db2, bg_len := bg_len c - 1 - 1\<rparr>"
  have "badger_inv kc api opn dbmap kfit vfit ?c"
    using db2(2,3) db1(3) by (intro badger_inv_upd(1)[OF assms(1) _ _ assms(3) b(1), where x = None]) simp_all
  moreover have a: "badger_abs kc dbmap kfit ?c = ?a(k := None)"
    using up1(2) db2(3) db1(3) by (simp add: badger_abs_def)
  moreover have "card (dom ?a) = Suc (card (dom (?a(k := None))))"
    using card.remove[OF badger_finite[OF assms(1)], of k] assms(4) by (simp add: domI)
  with assms(2) a have "badger_off kc dbmap kfit (- 1) ?c 0" by (simp add: badger_off_def)
  ultimately have "short_for_good kc api zk dbmap kfit vfit ?c" by (blast intro: badger_off_short)
  moreover have "interleave [True, False, True, False, True, False] c
      (badger_delete_proc kc api [k]) (badger_delete_proc kc api [k]) =
      (?c, Done (Ret ()), Done (Ret ()))"
    using badger_Load_spec[OF assms(1,3)] assms(4) b(1) db1(1) db2(1) by (simp add: lookup_result_def)
  ultimately show ?thesis using a by (intro exI[of _ ?c]) simp
qed

text \<open>A first Len that counts before a Store of a new key and writes the counter after it.\<close>

lemma len_race:
  assumes "badger_inv kc api opn dbmap kfit vfit c" "\<not> bg_initLenCall c"
    and "key_ok kc kfit k" "vfit v" "k \<notin> dom (badger_abs kc dbmap kfit c)"
  shows "\<exists>c'. interleave [True, True, True, False, False, True, True] c
      (badger_len_proc api) (badger_store_proc kc api k v) =
      (c', Done (Ret (sint (bg_len c'))), Done (Ret ())) \<and>
    badger_abs kc dbmap kfit c' = (badger_abs kc dbmap kfit c)(k \<mapsto> v) \<and>
    bg_len c' = of_nat (card (dom (badger_abs kc dbmap kfit c))) \<and>
    short_for_good kc api zk dbmap kfit vfit c'"
proof -
  let ?a = "badger_abs kc dbmap kfit c"
  have n: "length (bd_items api (bg_db c)) = card (dom (badger_abs kc dbmap kfit c))"
    by (rule badger_items_length[OF assms(1)])
  obtain b where b: "key_marshal kc k = Inr b" "kfit b" using assms(3) by (rule key_okE)
  obtain db1 where db1: "bd_set api (bg_db c) b v = Inr db1" "opn db1"
    "dbmap db1 = (dbmap (bg_db c))(b \<mapsto> v)"
    using badger_okD(4)[OF badger_invD(1,2)[OF assms(1)] b(2) assms(4)] by blast
  let ?c = "c\<lparr>bg_db := db1, bg_len := of_nat (length (bd_items api (bg_db c))), bg_initLenCall := True\<rparr>"
  have up: "badger_inv kc api opn dbmap kfit vfit ?c" "badger_abs kc dbmap kfit ?c = ?a(k \<mapsto> v)"
    using badger_inv_upd[OF assms(1) db1(2,3) assms(3) b(1), of "bg_len c"] assms(4)
    by (simp_all add: badger_abs_def badger_inv_def)
  have "card (dom (?a(k \<mapsto> v))) = Suc (card (dom ?a))"
    using card_dom_upd_Some[OF badger_finite[OF assms(1)]] assms(5) by simp
  with up(2) n have "badger_off kc dbmap kfit (- 1) ?c 0" by (simp add: badger_off_def)
  from badger_off_short[OF up(1) this] have "short_for_good kc api zk dbmap kfit vfit ?c" .
  moreover have "interleave [True, True, True, False, False, True, True] c
      (badger_len_proc api) (badger_store_proc kc api k v) = (?c, Done (Ret (sint (bg_len ?c))), Done (Ret ()))"
    using assms(2) badger_okD(1)[OF badger_invD(1,2)[OF assms(1)]] b(1) db1(1)
    by (simp add: badger_len_proc_def badger_store_proc_def Let_def)
  ultimately show ?thesis using n up(2) by (intro exI[of _ ?c]) simp
qed

end
