(* ===== verification/Locked_Sections.thy ===== *)
theory Locked_Sections
  imports Interleaving
begin

text \<open>
  Critical sections opened up: a goroutine takes the mutex of its storage, makes one access to the
  shared data after the other, and releases it, while other goroutines run between any two of
  these steps. The theory proves, by a forward simulation, that what such goroutines do is what
  they would do if each critical section were one step taken when the mutex is released. It is the
  justification for modelling a locked method as one function.
\<close>

section \<open>Programs and threads\<close>

text \<open>
  A program returns, or runs a critical section (True: under \<open>Lock\<close>, False: under \<open>RLock\<close>) whose
  accesses are a process, and goes on with the program this ends with.
\<close>

datatype ('s, 'r) prog = Return 'r | Section bool "('s, ('s, 'r) prog) proc"

text \<open>
  A thread is outside the mutex, where it may have announced a writer, or inside with the accesses
  that are left.
\<close>

datatype ('s, 'r) thread =
    Outside bool "('s, 'r) prog"
  | Inside bool "('s, ('s, 'r) prog) proc"

fun writing :: "('s, 'r) thread \<Rightarrow> bool" where
  "writing (Inside w b) = w"
| "writing (Outside a p) = False"

fun inside :: "('s, 'r) thread \<Rightarrow> bool" where
  "inside (Inside w b) = True"
| "inside (Outside a p) = False"

fun asking :: "('s, 'r) thread \<Rightarrow> bool" where
  "asking (Outside a p) = a"
| "asking (Inside w b) = False"

fun releasing :: "('s, 'r) thread \<Rightarrow> bool" where
  "releasing (Inside w (Done p)) = True"
| "releasing _ = False"

text \<open>
  One step of a thread among the threads \<open>ts\<close>, with the rules of \<open>RW_Locks\<close>: a reader waits for a
  writer that is inside or has announced itself, a writer announces itself and then waits until
  nobody is inside.
\<close>

fun thread_step :: "('s, 'r) thread list \<Rightarrow> 's \<Rightarrow> ('s, 'r) thread \<Rightarrow> ('s \<times> ('s, 'r) thread) option" where
  "thread_step ts s (Outside a (Return r)) = None"
| "thread_step ts s (Outside a (Section w b)) =
     (if w \<and> a then (if list_ex inside ts then None else Some (s, Inside True b))
      else if list_ex (\<lambda>u. writing u \<or> asking u) ts then None
      else if w then Some (s, Outside True (Section w b))
      else Some (s, Inside False b))"
| "thread_step ts s (Inside w (Done p)) = Some (s, Outside False p)"
| "thread_step ts s (Inside w (Sect f)) = Some (fst (f s), Inside w (snd (f s)))"

fun micro_step :: "'s \<times> ('s, 'r) thread list \<Rightarrow> nat \<Rightarrow> ('s \<times> ('s, 'r) thread list) option" where
  "micro_step (s, ts) i =
     (if i < length ts
      then map_option (\<lambda>(s', t). (s', ts[i := t])) (thread_step ts s (ts ! i)) else None)"

text \<open>Goroutines whose critical sections are single steps.\<close>

fun atomic_step :: "'s \<times> ('s, 'r) proc list \<Rightarrow> nat \<Rightarrow> ('s \<times> ('s, 'r) proc list) option" where
  "atomic_step (s, ps) i =
     (if i < length ps then
        (case ps ! i of Done r \<Rightarrow> None | Sect f \<Rightarrow> Some (fst (f s), ps[i := snd (f s)]))
      else None)"

fun run_steps :: "('x \<Rightarrow> nat \<Rightarrow> 'x option) \<Rightarrow> 'x \<Rightarrow> nat list \<Rightarrow> 'x option" where
  "run_steps stp x [] = Some x"
| "run_steps stp x (i # is) = Option.bind (stp x i) (\<lambda>x'. run_steps stp x' is)"

text \<open>The threads of a schedule that release the mutex, in the order in which they do.\<close>

fun releases :: "'s \<times> ('s, 'r) thread list \<Rightarrow> nat list \<Rightarrow> nat list" where
  "releases x [] = []"
| "releases x (i # is) =
     (case micro_step x i of
        None \<Rightarrow> []
      | Some x' \<Rightarrow> (if releasing (snd x ! i) then [i] else []) @ releases x' is)"

section \<open>A section as one step\<close>

primrec collapse :: "('s, 'r) prog \<Rightarrow> ('s, 'r) proc" where
  "collapse (Return r) = Done r"
| "collapse (Section w b) = Sect (\<lambda>s. prod.swap (alone (map_proc collapse b) s))"

lemma in_snds: "snd p \<in> Basic_BNFs.snds p"
  by (cases p) (simp add: prod_set_simps)

lemma map_proc_Sect: "map_proc h (Sect f) = Sect (\<lambda>s. (fst (f s), map_proc h (snd (f s))))"
  by (simp add: fun_eq_iff prod_eq_iff)

declare proc.map(2) [simp del]
declare map_proc_Sect [simp]

lemma alone_map: "alone (map_proc h b) s = map_prod h id (alone b s)"
proof (induction b arbitrary: s)
  case (Sect f)
  from Sect[OF rangeI in_snds] show ?case by simp
qed simp

lemma collapse_Section:
  "collapse (Section w b) = Sect (\<lambda>s. (snd (alone b s), collapse (fst (alone b s))))"
  by (simp add: alone_map fun_eq_iff prod.swap_def)

declare collapse.simps(2) [simp del]
declare collapse_Section [simp]

text \<open>Accesses that only read, and programs that only read under the read lock.\<close>

inductive silent :: "('s, 'r) proc \<Rightarrow> bool" where
  silent_Done: "silent (Done r)"
| silent_Sect: "(\<And>s. fst (f s) = s) \<Longrightarrow> (\<And>s. silent (snd (f s))) \<Longrightarrow> silent (Sect f)"

inductive_simps silent_simps [simp]: "silent (Done r)" "silent (Sect f)"

lemma silent_alone: "silent b \<Longrightarrow> snd (alone b s) = s"
  by (induction arbitrary: s rule: silent.induct) simp_all

lemma silent_map: "silent b \<Longrightarrow> silent (map_proc h b)"
  by (induction rule: silent.induct) (simp_all add: map_prod_def case_prod_beta)

inductive prog_ok :: "('s, 'r) prog \<Rightarrow> bool" where
  prog_ok_Return: "prog_ok (Return r)"
| prog_ok_Section: "(\<not> w \<Longrightarrow> silent b) \<Longrightarrow> (\<And>p. p \<in> set_proc b \<Longrightarrow> prog_ok p) \<Longrightarrow>
    prog_ok (Section w b)"

inductive_simps prog_ok_simps [simp]: "prog_ok (Return r)" "prog_ok (Section w b)"

fun thread_ok :: "('s, 'r) thread \<Rightarrow> bool" where
  "thread_ok (Outside a p) \<longleftrightarrow> prog_ok p \<and> (a \<longrightarrow> (\<exists>b. p = Section True b))"
| "thread_ok (Inside w b) \<longleftrightarrow> (\<not> w \<longrightarrow> silent b) \<and> (\<forall>p \<in> set_proc b. prog_ok p)"

lemma set_proc_Sect: "set_proc (snd (f s)) \<subseteq> set_proc (Sect f)"
proof
  fix x assume "x \<in> set_proc (snd (f s))"
  then have "\<exists>y \<in> range f. \<exists>q \<in> Basic_BNFs.snds y. x \<in> set_proc q" using in_snds by blast
  then show "x \<in> set_proc (Sect f)" by auto
qed

lemma thread_step_ok:
  assumes "thread_ok t" "thread_step ts s t = Some (s', t')"
  shows "thread_ok t'"
  using assms
proof (induction ts s t rule: thread_step.induct)
  case (4 ts s w f)
  then have "t' = Inside w (snd (f s))" by simp
  with 4(1) set_proc_Sect[of f s] show ?case by auto
qed (auto split: if_splits)

section \<open>The simulation\<close>

text \<open>
  The atomic state \<open>t\<close> is the shared state as it was when the writer came in; a thread that is
  inside still has to take its one step, and what this step does from \<open>t\<close> is what the accesses
  that are left do from \<open>s\<close>.
\<close>

fun matches :: "'s \<Rightarrow> 's \<Rightarrow> ('s, 'r) thread \<Rightarrow> ('s, 'r) proc \<Rightarrow> bool" where
  "matches s t (Outside a p) q \<longleftrightarrow> q = collapse p"
| "matches s t (Inside w b) q \<longleftrightarrow>
     (\<exists>g. q = Sect g \<and> g t = (snd (alone b s), collapse (fst (alone b s))))"

definition simulates :: "'s \<times> ('s, 'r) thread list \<Rightarrow> 's \<times> ('s, 'r) proc list \<Rightarrow> bool" where
  "simulates x y \<longleftrightarrow>
     (case x of (s, ts) \<Rightarrow> case y of (t, ps) \<Rightarrow>
        length ps = length ts \<and>
        (\<forall>i < length ts. thread_ok (ts ! i) \<and> matches s t (ts ! i) (ps ! i)) \<and>
        (\<forall>i < length ts. \<forall>j < length ts. i \<noteq> j \<and> writing (ts ! i) \<longrightarrow> \<not> inside (ts ! j)) \<and>
        ((\<forall>i < length ts. \<not> writing (ts ! i)) \<longrightarrow> t = s))"

lemma simulates_start:
  assumes "\<forall>p \<in> set progs. prog_ok p"
  shows "simulates (s, map (Outside False) progs) (s, map collapse progs)"
  using assms by (auto simp: simulates_def)

lemma simulatesD:
  assumes "simulates (s, ts) (t, ps)" "i < length ts"
  shows "length ps = length ts" and "thread_ok (ts ! i)" and "matches s t (ts ! i) (ps ! i)"
    and "j < length ts \<Longrightarrow> i \<noteq> j \<Longrightarrow> writing (ts ! i) \<Longrightarrow> \<not> inside (ts ! j)"
    and "(\<forall>i < length ts. \<not> writing (ts ! i)) \<Longrightarrow> t = s"
  using assms by (auto simp: simulates_def)

text \<open>One thread changes: what has to be shown of it and of the others.\<close>

lemma simulates_update:
  assumes sim: "simulates (s, ts) (t, ps)" and i: "i < length ts"
    and self: "thread_ok u" "matches s' t' u q"
    and others: "\<And>j. j < length ts \<Longrightarrow> j \<noteq> i \<Longrightarrow> matches s' t' (ts ! j) (ps ! j)"
    and alone: "\<And>j. j < length ts \<Longrightarrow> j \<noteq> i \<Longrightarrow> writing u \<Longrightarrow> \<not> inside (ts ! j)"
      "\<And>j. j < length ts \<Longrightarrow> j \<noteq> i \<Longrightarrow> inside u \<Longrightarrow> \<not> writing (ts ! j)"
    and sync: "\<not> writing u \<Longrightarrow> (\<And>j. j < length ts \<Longrightarrow> j \<noteq> i \<Longrightarrow> \<not> writing (ts ! j)) \<Longrightarrow> t' = s'"
  shows "simulates (s', ts[i := u]) (t', ps[i := q])"
proof -
  note d = simulatesD[OF sim]
  have len: "length ps = length ts" using d(1)[OF i] .
  have "thread_ok (ts[i := u] ! j) \<and> matches s' t' (ts[i := u] ! j) (ps[i := q] ! j)"
    if "j < length ts" for j
    using that self others d(2) len by (cases "j = i") auto
  moreover have "\<not> inside (ts[i := u] ! k)"
    if "j < length ts" "k < length ts" "j \<noteq> k" "writing (ts[i := u] ! j)" for j k
    using that alone d(4)[of j k] i by (cases "j = i"; cases "k = i") auto
  moreover have "t' = s'" if "\<forall>j < length ts. \<not> writing (ts[i := u] ! j)"
    using that sync i by (metis nth_list_update_eq nth_list_update_neq)
  ultimately show ?thesis using len by (simp add: simulates_def)
qed

lemma writing_inside: "writing u \<Longrightarrow> inside u"
  by (cases u) simp_all

lemma matches_outside: "\<not> inside u \<Longrightarrow> matches s t u q \<longleftrightarrow> matches s' t' u q"
  by (cases u) simp_all

text \<open>A release is the one atomic step of the section; every other step leaves the atomic side alone.\<close>

lemma simulates_step:
  assumes sim: "simulates (s, ts) (t, ps)" and stp: "micro_step (s, ts) i = Some (s', ts')"
  shows "if releasing (ts ! i) then \<exists>y. atomic_step (t, ps) i = Some y \<and> simulates (s', ts') y
    else simulates (s', ts') (t, ps)"
proof -
  from stp obtain u where i: "i < length ts" and u: "thread_step ts s (ts ! i) = Some (s', u)"
    and ts': "ts' = ts[i := u]" by (auto split: if_splits)
  note d = simulatesD[OF sim i]
  have oku: "thread_ok u" by (rule thread_step_ok[OF d(2) u])
  have same: "simulates (s', ts') (t, ps)"
    if "matches s' t u (ps ! i)"
      "\<And>j. j < length ts \<Longrightarrow> j \<noteq> i \<Longrightarrow> matches s' t (ts ! j) (ps ! j)"
      "\<And>j. j < length ts \<Longrightarrow> j \<noteq> i \<Longrightarrow> writing u \<Longrightarrow> \<not> inside (ts ! j)"
      "\<And>j. j < length ts \<Longrightarrow> j \<noteq> i \<Longrightarrow> inside u \<Longrightarrow> \<not> writing (ts ! j)"
      "\<not> writing u \<Longrightarrow> (\<And>j. j < length ts \<Longrightarrow> j \<noteq> i \<Longrightarrow> \<not> writing (ts ! j)) \<Longrightarrow> t = s'"
  proof -
    have "simulates (s', ts[i := u]) (t, ps[i := ps ! i])"
      by (rule simulates_update[OF sim i oku]) (fact that)+
    then show ?thesis by (simp add: ts')
  qed
  have ms: "matches s t (ts ! j) (ps ! j)" if "j < length ts" for j
    using simulatesD(3)[OF sim that] .
  show ?thesis
  proof (cases "ts ! i")
    case (Outside a p)
    have quiet: "t = s" if "\<And>j. j < length ts \<Longrightarrow> j \<noteq> i \<Longrightarrow> \<not> writing (ts ! j)"
      using d(5) that Outside by (metis writing.simps(2))
    obtain w b where p: "p = Section w b" using u Outside by (cases p) auto
    have q: "ps ! i = Sect (\<lambda>s. (snd (alone b s), collapse (fst (alone b s))))"
      using d(3) Outside p by simp
    consider "w" "a" "\<not> list_ex inside ts" "u = Inside True b" "s' = s"
      | "\<not> (w \<and> a)" "\<not> list_ex (\<lambda>u. writing u \<or> asking u) ts" "w" "u = Outside True p" "s' = s"
      | "\<not> list_ex (\<lambda>u. writing u \<or> asking u) ts" "\<not> w" "u = Inside False b" "s' = s"
      using u Outside p by (auto split: if_splits)
    then have "simulates (s', ts') (t, ps)"
    proof cases
      case 1
      then have out: "\<not> inside (ts ! j)" if "j < length ts" for j
        using that by (auto simp: list_ex_iff)
      then have "t = s" using quiet writing_inside by blast
      with 1 q out ms show ?thesis by (intro same) (auto dest: writing_inside)
    next
      case 2
      then have "t = s" using quiet by (auto simp: list_ex_iff)
      with 2 q p ms show ?thesis by (intro same) auto
    next
      case 3
      then have out: "\<not> writing (ts ! j)" if "j < length ts" for j
        using that by (auto simp: list_ex_iff)
      then have "t = s" using quiet by blast
      with 3 q out ms show ?thesis by (intro same) auto
    qed
    with Outside show ?thesis by simp
  next
    case (Inside w b)
    obtain g where g: "ps ! i = Sect g" "g t = (snd (alone b s), collapse (fst (alone b s)))"
      using d(3) Inside by auto
    have nw: "\<not> writing (ts ! j)" if "j < length ts" "j \<noteq> i" for j
      using simulatesD(4)[OF sim that(1) i that(2)] Inside by auto
    show ?thesis
    proof (cases b)
      case (Done p)
      with u Inside have u': "u = Outside False p" "s' = s" by simp_all
      have at: "atomic_step (t, ps) i = Some (s, ps[i := collapse p])"
        using g Done i d(1) by simp
      have "simulates (s', ts') (s, ps[i := collapse p])"
        unfolding ts'
      proof (rule simulates_update[OF sim i oku])
        fix j assume j: "j < length ts" "j \<noteq> i"
        show "matches s' s (ts ! j) (ps ! j)"
        proof (cases w)
          case True
          with d(4)[OF j(1)] j Inside have "\<not> inside (ts ! j)" by auto
          with matches_outside[OF this] ms[OF j(1)] u' show ?thesis by blast
        next
          case False
          with nw Inside have "t = s" by (intro d(5)) (metis writing.simps(1))
          with ms[OF j(1)] u' show ?thesis by simp
        qed
      qed (use u' in auto)
      with at Inside Done show ?thesis by auto
    next
      case (Sect f)
      with u Inside have u': "u = Inside w (snd (f s))" "s' = fst (f s)" by auto
      have self: "matches s' t u (ps ! i)" using g Sect u' by simp
      have "simulates (s', ts') (t, ps)"
      proof (cases w)
        case True
        then have out: "\<not> inside (ts ! j)" if "j < length ts" "j \<noteq> i" for j
          using d(4)[OF that(1)] that Inside by auto
        have "matches s' t (ts ! j) (ps ! j)" if "j < length ts" "j \<noteq> i" for j
          using matches_outside[OF out[OF that]] ms[OF that(1)] by blast
        with True self out nw u' show ?thesis by (intro same) auto
      next
        case False
        with nw Inside have "t = s" by (intro d(5)) (metis writing.simps(1))
        moreover have "s' = s" using d(2) False Inside Sect u' by simp
        ultimately show ?thesis using False self nw u' ms by (intro same) auto
      qed
      with Inside Sect show ?thesis by simp
    qed
  qed
qed

text \<open>A run of the threads is a run of the sections, in the order of the releases.\<close>

lemma simulates_run:
  assumes "simulates (s, ts) (t, ps)" "run_steps micro_step (s, ts) is = Some (s', ts')"
  shows "\<exists>t' ps'. run_steps atomic_step (t, ps) (releases (s, ts) is) = Some (t', ps') \<and>
    simulates (s', ts') (t', ps')"
  using assms
proof (induction "is" arbitrary: s ts t ps)
  case Nil
  then show ?case by simp
next
  case (Cons i "is")
  from Cons.prems(2) obtain s1 ts1 where st: "micro_step (s, ts) i = Some (s1, ts1)"
    "run_steps micro_step (s1, ts1) is = Some (s', ts')"
    by (auto simp: bind_eq_Some_conv simp del: micro_step.simps)
  note sim = simulates_step[OF Cons.prems(1) st(1)]
  show ?case
  proof (cases "releasing (ts ! i)")
    case True
    with sim obtain t1 ps1 where "atomic_step (t, ps) i = Some (t1, ps1)"
      "simulates (s1, ts1) (t1, ps1)" by auto
    with Cons.IH[OF this(2) st(2)] True st(1) show ?thesis
      by (simp del: micro_step.simps atomic_step.simps)
  next
    case False
    with sim have "simulates (s1, ts1) (t, ps)" by simp
    with Cons.IH[OF this st(2)] False st(1) show ?thesis by (simp del: micro_step.simps)
  qed
qed

text \<open>Some thread can always go on, unless all have returned: the one mutex cannot deadlock.\<close>

fun returned :: "('s, 'r) thread \<Rightarrow> bool" where
  "returned (Outside a (Return r)) = True"
| "returned _ = False"

definition all_returned :: "('s, 'r) thread list \<Rightarrow> bool" where
  "all_returned ts \<longleftrightarrow> (\<forall>u \<in> set ts. returned u)"

lemma returned_iff: "returned u \<longleftrightarrow> (\<exists>a r. u = Outside a (Return r))"
  by (cases u rule: returned.cases) auto

lemma micro_progress:
  assumes ok: "\<forall>u \<in> set ts. thread_ok u" and nr: "\<not> all_returned ts"
  shows "\<exists>i. micro_step (s, ts) i \<noteq> None"
proof -
  have some: "\<exists>i. micro_step (s, ts) i \<noteq> None" if "u \<in> set ts" "thread_step ts s u \<noteq> None" for u
    using that by (auto simp: in_set_conv_nth)
  show ?thesis
  proof (cases "list_ex inside ts")
    case True
    then obtain u where u: "u \<in> set ts" "inside u" by (auto simp: list_ex_iff)
    from u(2) obtain w b where "u = Inside w b" by (cases u) simp_all
    then have "thread_step ts s u \<noteq> None" by (cases b) simp_all
    with some u(1) show ?thesis by blast
  next
    case out: False
    then have nw: "\<not> writing u" if "u \<in> set ts" for u
      using that writing_inside by (auto simp: list_ex_iff)
    show ?thesis
    proof (cases "list_ex asking ts")
      case True
      then obtain u where u: "u \<in> set ts" "asking u" by (auto simp: list_ex_iff)
      from u(2) obtain p where p: "u = Outside True p" by (cases u) simp_all
      have "thread_ok u" using ok u(1) by blast
      with p obtain b where "u = Outside True (Section True b)" by auto
      with out have "thread_step ts s u \<noteq> None" by simp
      with some u(1) show ?thesis by blast
    next
      case False
      from nr obtain u where u: "u \<in> set ts" "\<nexists>a r. u = Outside a (Return r)"
        by (auto simp: all_returned_def returned_iff)
      with out obtain a p where p: "u = Outside a p" by (cases u) (auto simp: list_ex_iff)
      with u(2) obtain w b where w: "p = Section w b" by (cases p) auto
      have "\<not> a" using False u(1) p by (auto simp: list_ex_iff)
      moreover have "\<not> list_ex (\<lambda>u. writing u \<or> asking u) ts"
        using False nw by (auto simp: list_ex_iff)
      ultimately have "thread_step ts s u \<noteq> None" using p w by simp
      with some u(1) show ?thesis by blast
    qed
  qed
qed

end
