(* ===== verification/Linearization.thy ===== *)
theory Linearization
  imports Locked_Sections
begin

text \<open>
  Goroutines that call methods of one locked object. Where a method is a single critical section,
  the object is linearizable: whatever the schedule, the calls have the effects and results of
  one sequential execution, in the order in which the methods release the mutex, so each call
  takes effect at a moment between its start and its end.
\<close>

section \<open>Sequences of calls\<close>

primrec bind_prog :: "('s, 'a) prog \<Rightarrow> ('a \<Rightarrow> ('s, 'b) prog) \<Rightarrow> ('s, 'b) prog" where
  "bind_prog (Return r) f = f r"
| "bind_prog (Section w b) f = Section w (map_proc (\<lambda>p. bind_prog p f) b)"

primrec calls_prog :: "('c \<Rightarrow> ('s, 'r) prog) \<Rightarrow> 'r list \<Rightarrow> 'c list \<Rightarrow> ('s, 'r list) prog" where
  "calls_prog meth acc [] = Return acc"
| "calls_prog meth acc (c # cs) =
     bind_prog (meth c) (\<lambda>r. calls_prog meth (acc @ [r]) cs)"

lemma bind_prog_ok: "prog_ok p \<Longrightarrow> (\<And>r. prog_ok (f r)) \<Longrightarrow> prog_ok (bind_prog p f)"
  by (induction rule: prog_ok.induct) (auto simp: proc.set_map intro: silent_map)

lemma calls_prog_ok: "(\<And>c. prog_ok (meth c)) \<Longrightarrow> prog_ok (calls_prog meth acc cs)"
  by (induction cs arbitrary: acc) (simp_all add: bind_prog_ok)

text \<open>A program of one critical section: it returns when it leaves the mutex.\<close>

fun one_section :: "('s, 'r) prog \<Rightarrow> bool" where
  "one_section (Return r) \<longleftrightarrow> False"
| "one_section (Section w b) \<longleftrightarrow> (\<forall>p \<in> set_proc b. \<exists>r. p = Return r)"

lemma alone_set_proc: "fst (alone b s) \<in> set_proc b"
proof (induction b arbitrary: s)
  case (Sect f)
  have "fst (alone (snd (f s)) (fst (f s))) \<in> set_proc (snd (f s))" by (rule Sect[OF rangeI in_snds])
  then show ?case unfolding alone_Sect by (rule set_mp[OF set_proc_Sect])
qed simp

text \<open>Called alone, and as the next step of a goroutine, such a program does the same.\<close>

lemma one_section_step:
  assumes "one_section p" "alone (collapse p) s = (r, s')"
  shows "\<exists>g. collapse (bind_prog p f) = Sect g \<and> g s = (s', collapse (f r))"
proof -
  obtain w b where p: "p = Section w b" using assms(1) by (cases p) auto
  obtain q where q: "fst (alone b s) = Return q"
    using assms(1) p alone_set_proc[of b s] by auto
  with assms(2) p have "q = r" "snd (alone b s) = s'" by simp_all
  with p q show ?thesis by (simp add: alone_map)
qed

section \<open>Histories\<close>

text \<open>
  A history lists who called what and got which reply; it is serial when executing the calls one
  after the other gives these replies and the final state.
\<close>

type_synonym ('c, 'r) history = "(nat \<times> 'c \<times> 'r) list"

definition of_thread :: "nat \<Rightarrow> ('c, 'r) history \<Rightarrow> ('c \<times> 'r) list" where
  "of_thread i h = map snd (filter (\<lambda>x. fst x = i) h)"

lemma of_thread_simps [simp]:
  "of_thread i [] = []"
  "of_thread i ((j, x) # h) = (if j = i then x # of_thread i h else of_thread i h)"
  by (simp_all add: of_thread_def)

fun serial :: "('c \<Rightarrow> ('s, 'r) prog) \<Rightarrow> 's \<Rightarrow> ('c \<times> 'r) list \<Rightarrow> 's \<Rightarrow> bool" where
  "serial meth s [] s' \<longleftrightarrow> s' = s"
| "serial meth s ((c, r) # h) s' \<longleftrightarrow>
     (\<exists>t. alone (collapse (meth c)) s = (r, t) \<and> serial meth t h s')"

text \<open>Goroutines with the replies they have and the calls they have left.\<close>

definition callers ::
  "('c \<Rightarrow> ('s, 'r) prog) \<Rightarrow> nat \<Rightarrow> (nat \<Rightarrow> 'r list) \<Rightarrow> (nat \<Rightarrow> 'c list) \<Rightarrow> ('s, 'r list) prog list" where
  "callers meth n acc rest = map (\<lambda>i. calls_prog meth (acc i) (rest i)) [0..<n]"

lemma atomic_calls_serial:
  assumes "\<forall>i < n. \<forall>c \<in> set (rest i). one_section (meth c)"
    and "run_steps atomic_step (s, map collapse (callers meth n acc rest)) js = Some (s', ps')"
  shows "\<exists>h acc' rest'. map fst h = js \<and> serial meth s (map snd h) s' \<and>
    ps' = map collapse (callers meth n acc' rest') \<and>
    (\<forall>i < n. rest i = map fst (of_thread i h) @ rest' i \<and> acc' i = acc i @ map snd (of_thread i h) \<and>
      set (rest' i) \<subseteq> set (rest i))"
  using assms
proof (induction js arbitrary: s acc rest)
  case Nil
  then show ?case by (intro exI[of _ "[]"] exI[of _ acc] exI[of _ rest]) simp
next
  case (Cons i js)
  let ?ps = "map collapse (callers meth n acc rest)"
  from Cons.prems(2) obtain s1 ps1 where st: "atomic_step (s, ?ps) i = Some (s1, ps1)"
    "run_steps atomic_step (s1, ps1) js = Some (s', ps')"
    by (auto simp: bind_eq_Some_conv simp del: atomic_step.simps)
  from st(1) have i: "i < n" by (auto simp: callers_def split: if_splits)
  then have pi: "?ps ! i = collapse (calls_prog meth (acc i) (rest i))" by (simp add: callers_def)
  obtain c cs where c: "rest i = c # cs"
    using st(1) i pi by (cases "rest i") (simp_all add: callers_def)
  have one: "one_section (meth c)" using Cons.prems(1) i c by simp
  obtain r t where rt: "alone (collapse (meth c)) s = (r, t)" by force
  let ?acc = "acc(i := acc i @ [r])" and ?rest = "rest(i := cs)"
  from one_section_step[OF one rt, of "\<lambda>r. calls_prog meth (acc i @ [r]) cs"] obtain g where
    g: "?ps ! i = Sect g" "g s = (t, collapse (calls_prog meth (acc i @ [r]) cs))"
    unfolding pi c by auto
  have "?ps[i := collapse (calls_prog meth (acc i @ [r]) cs)] =
      map collapse (callers meth n ?acc ?rest)"
    using i by (intro nth_equalityI) (auto simp: callers_def nth_list_update)
  with st(1) g i have "s1 = t" "ps1 = map collapse (callers meth n ?acc ?rest)"
    by (auto simp: callers_def)
  moreover have "\<forall>j < n. \<forall>d \<in> set (?rest j). one_section (meth d)"
    using Cons.prems(1) i c by auto
  ultimately obtain h acc' rest' where h: "map fst h = js" "serial meth t (map snd h) s'"
    "ps' = map collapse (callers meth n acc' rest')"
    "\<forall>j < n. ?rest j = map fst (of_thread j h) @ rest' j \<and> acc' j = ?acc j @ map snd (of_thread j h) \<and>
      set (rest' j) \<subseteq> set (?rest j)"
    using Cons.IH st(2) by metis
  have "rest j = map fst (of_thread j ((i, c, r) # h)) @ rest' j \<and>
      acc' j = acc j @ map snd (of_thread j ((i, c, r) # h)) \<and> set (rest' j) \<subseteq> set (rest j)"
    if "j < n" for j
    using h(4)[rule_format, OF that] c by (auto split: if_splits)
  with h(1-3) rt show ?case
    by (intro exI[of _ "(i, c, r) # h"] exI[of _ acc'] exI[of _ rest']) simp
qed

section \<open>Linearizability\<close>

lemma releases_bound: "set (releases (s, ts) is) \<subseteq> {..<length ts}"
proof (induction "is" arbitrary: s ts)
  case (Cons i "is")
  show ?case
  proof (cases "micro_step (s, ts) i")
    case (Some x)
    obtain s1 ts1 where x: "x = (s1, ts1)" by force
    with Some have "i < length ts" "length ts1 = length ts" by (auto split: if_splits)
    with Cons[of s1 ts1] Some x show ?thesis by (auto simp del: micro_step.simps)
  qed (simp del: micro_step.simps)
qed simp

text \<open>Goroutine \<open>i\<close> is about to make the calls \<open>css ! i\<close>.\<close>

definition start_calls ::
  "('c \<Rightarrow> ('s, 'r) prog) \<Rightarrow> 'c list list \<Rightarrow> ('s, 'r list) thread list" where
  "start_calls meth css = map (\<lambda>cs. Outside False (calls_prog meth [] cs)) css"

locale locked_object =
  fixes meth :: "'c \<Rightarrow> ('s, 'r) prog"
  assumes method_ok: "prog_ok (meth c)"
begin

text \<open>Until all calls have returned some goroutine can go on; and then the calls linearize.\<close>

lemma linearizable:
  assumes one: "\<forall>cs \<in> set css. \<forall>c \<in> set cs. one_section (meth c)"
    and run: "run_steps micro_step (s, start_calls meth css) is = Some (s', ts)"
  shows "(\<exists>j. micro_step (s', ts) j \<noteq> None) \<or>
    (\<exists>h. map fst h = releases (s, start_calls meth css) is \<and> serial meth s (map snd h) s' \<and>
      (\<forall>i < length css. map fst (of_thread i h) = css ! i \<and>
         ts ! i = Outside False (Return (map snd (of_thread i h)))))"
proof -
  let ?n = "length css"
  have st: "start_calls meth css =
      map (Outside False) (callers meth ?n (\<lambda>_. []) ((!) css))"
    by (intro nth_equalityI) (simp_all add: start_calls_def callers_def)
  have "\<forall>p \<in> set (callers meth ?n (\<lambda>_. []) ((!) css)). prog_ok p"
    by (auto simp: callers_def calls_prog_ok method_ok)
  from simulates_run[OF simulates_start[OF this] run[unfolded st]] obtain t ps where
    at: "run_steps atomic_step (s, map collapse (callers meth ?n (\<lambda>_. []) ((!) css)))
      (releases (s, start_calls meth css) is) = Some (t, ps)" and sim: "simulates (s', ts) (t, ps)"
    unfolding st by blast
  have "\<forall>i < ?n. \<forall>c \<in> set (css ! i). one_section (meth c)"
    using one nth_mem by blast
  note ser = atomic_calls_serial[where rest = "(!) css" and acc = "\<lambda>_. []", OF this at]
  from ser obtain h acc rest where
    h: "map fst h = releases (s, start_calls meth css) is" "serial meth s (map snd h) t"
      "ps = map collapse (callers meth ?n acc rest)"
    and all: "\<forall>i < ?n. css ! i = map fst (of_thread i h) @ rest i \<and>
      acc i = [] @ map snd (of_thread i h) \<and> set (rest i) \<subseteq> set (css ! i)"
    by (elim exE conjE)
  show ?thesis
  proof (cases "all_returned ts")
    case False
    have "\<forall>u \<in> set ts. thread_ok u" using sim by (auto simp: simulates_def in_set_conv_nth)
    from micro_progress[OF this False] show ?thesis by blast
  next
    case True
    have len: "length ts = ?n" using sim h(3) by (simp add: simulates_def callers_def)
    have out: "\<exists>r. ts ! i = Outside False (Return r) \<and> ps ! i = Done r" if "i < ?n" for i
    proof -
      from True that len obtain a r where u: "ts ! i = Outside a (Return r)"
        by (auto simp: all_returned_def returned_iff) (metis nth_mem)
      with sim that len show ?thesis by (auto simp: simulates_def)
    qed
    have "t = s'" using sim out len by (auto simp: simulates_def) (metis writing.simps(2))
    have "map fst (of_thread i h) = css ! i \<and> ts ! i = Outside False (Return (map snd (of_thread i h)))"
      if i: "i < ?n" for i
    proof -
      obtain r where r: "ts ! i = Outside False (Return r)" "ps ! i = Done r" using out[OF i] by blast
      then have d: "collapse (calls_prog meth (acc i) (rest i)) = Done r"
        using h(3) i by (simp add: callers_def)
      have "rest i = []"
      proof (rule ccontr)
        assume "rest i \<noteq> []"
        then obtain c cs where c: "rest i = c # cs" by (cases "rest i") auto
        then have "one_section (meth c)" using all i one nth_mem[OF i] by auto
        then obtain w b where "meth c = Section w b" by (cases "meth c") auto
        with d c show False by simp
      qed
      with d all i r(1) show ?thesis by simp
    qed
    with h(1,2) \<open>t = s'\<close> show ?thesis by blast
  qed
qed

end

end
