(* ===== verification/Memory_Sections.thy ===== *)
theory Memory_Sections
  imports Linearization Swiss_Storage
begin

text \<open>
  The methods of the in-memory storages, and of the map in front of them, access by access: Delete
  removes one key after the other, Range looks at one entry after the other and calls its callback
  in between, and Store without overwriting, Pop and Next leave the mutex and enter it again. Run
  alone, each is the method of the sequential model; run concurrently, those that enter the mutex
  once linearize to the specification of the map.
\<close>

section \<open>Accesses\<close>

text \<open>
  The storages differ in the map they keep. \<open>ac_order\<close> lists the keys in the order in which an
  iteration visits them; an entry that is gone when its turn comes is skipped.
\<close>

record ('e, 's, 'k, 'v) accesses =
  ac_get :: "'s \<Rightarrow> 'k \<Rightarrow> 'v \<times> bool"
  ac_put :: "'s \<Rightarrow> 'k \<Rightarrow> 'v \<Rightarrow> 's"
  ac_delete :: "'s \<Rightarrow> 'k \<Rightarrow> 's"
  ac_order :: "'e \<Rightarrow> 's \<Rightarrow> 'k list"
  ac_count :: "'s \<Rightarrow> int"
  ac_clear :: "'s \<Rightarrow> 's"

definition direct_accesses :: "'v \<Rightarrow> (('k, 'v) order, ('k, 'v) direct, 'k, 'v) accesses" where
  "direct_accesses zv =
     \<lparr>ac_get = \<lambda>c k. go_index_map zv (direct_data c) k,
      ac_put = \<lambda>c k v. c\<lparr>direct_data := AList.update k v (direct_data c)\<rparr>,
      ac_delete = \<lambda>c k. c\<lparr>direct_data := AList.delete k (direct_data c)\<rparr>,
      ac_order = \<lambda>ord c. map fst (ord (direct_data c)),
      ac_count = \<lambda>c. int (length (direct_data c)),
      ac_clear = \<lambda>c. c\<lparr>direct_data := []\<rparr>\<rparr>"

definition default_accesses :: "(('k, bytes) order, 'k bytestore, 'k, bytes) accesses" where
  "default_accesses =
     \<lparr>ac_get = \<lambda>c k. go_index_map [] (default_data c) k,
      ac_put = \<lambda>c k v. c\<lparr>default_data := AList.update k v (default_data c)\<rparr>,
      ac_delete = \<lambda>c k. c\<lparr>default_data := AList.delete k (default_data c)\<rparr>,
      ac_order = \<lambda>ord c. map fst (ord (default_data c)),
      ac_count = \<lambda>c. int (length (default_data c)),
      ac_clear = \<lambda>c. c\<lparr>default_data := []\<rparr>\<rparr>"

definition swiss_accesses :: "('e, 'm, 'k) swiss_api \<Rightarrow> ('e, 'm swiss, 'k, bytes) accesses" where
  "swiss_accesses api =
     \<lparr>ac_get = \<lambda>c k. sw_get api (swiss_data c) k,
      ac_put = \<lambda>c k v. c\<lparr>swiss_data := sw_put api (swiss_data c) k v\<rparr>,
      ac_delete = \<lambda>c k. c\<lparr>swiss_data := snd (sw_delete api (swiss_data c) k)\<rparr>,
      ac_order = \<lambda>e c. map fst (sw_visits api e (swiss_data c)),
      ac_count = \<lambda>c. sw_count api (swiss_data c),
      ac_clear = \<lambda>c. c\<lparr>swiss_data := sw_clear api (swiss_data c)\<rparr>\<rparr>"

section \<open>Bodies of critical sections\<close>

definition load_body :: "('e, 's, 'k, 'v) accesses \<Rightarrow> 'k \<Rightarrow> ('s, 'v \<times> bool) proc" where
  "load_body A key = Sect (\<lambda>s. (s, Done (ac_get A s key)))"

definition store_body :: "('e, 's, 'k, 'v) accesses \<Rightarrow> 'k \<Rightarrow> 'v \<Rightarrow> ('s, unit) proc" where
  "store_body A key value = Sect (\<lambda>s. (ac_put A s key value, Done ()))"

fun delete_body :: "('e, 's, 'k, 'v) accesses \<Rightarrow> 'k list \<Rightarrow> ('s, unit) proc" where
  "delete_body A [] = Done ()"
| "delete_body A (key # keys) = Sect (\<lambda>s. (ac_delete A s key, delete_body A keys))"

fun range_body ::
  "('e, 's, 'k, 'v) accesses \<Rightarrow> ('k, 'v, 'c) callback \<Rightarrow> 'k list \<Rightarrow> 'c \<Rightarrow> ('s, 'c outcome) proc" where
  "range_body A f [] c = Done (Ret c)"
| "range_body A f (k # ks) c =
     Sect (\<lambda>s. (s,
       case ac_get A s k of (v, ok) \<Rightarrow>
         if \<not> ok then range_body A f ks c
         else case f k v c of
           Ret (go, c') \<Rightarrow> if go then range_body A f ks c' else Done (Ret c')
         | Panic e \<Rightarrow> Done (Panic e)
         | Hang \<Rightarrow> Done Hang))"

definition iterate_body ::
  "('e, 's, 'k, 'v) accesses \<Rightarrow> 'e \<Rightarrow> ('k, 'v, 'c) callback \<Rightarrow> 'c \<Rightarrow> ('s, 'c outcome) proc" where
  "iterate_body A e f c = Sect (\<lambda>s. (s, range_body A f (ac_order A e s) c))"

definition keys_body :: "('e, 's, 'k, 'v) accesses \<Rightarrow> 'e \<Rightarrow> ('s, 'k list) proc" where
  "keys_body A e = Sect (\<lambda>s. (s, Done (ac_order A e s)))"

definition len_body :: "('e, 's, 'k, 'v) accesses \<Rightarrow> ('s, int) proc" where
  "len_body A = Sect (\<lambda>s. (s, Done (ac_count A s)))"

definition clear_body :: "('e, 's, 'k, 'v) accesses \<Rightarrow> ('s, unit) proc" where
  "clear_body A = Sect (\<lambda>s. (ac_clear A s, Done ()))"

section \<open>Methods\<close>

text \<open>A callback that collects never panics; its result is a list of entries.\<close>

fun ret_or :: "'a \<Rightarrow> 'a outcome \<Rightarrow> 'a" where
  "ret_or d (Ret x) = x"
| "ret_or d _ = d"

text \<open>
  The calls on a map with \<open>allowOverwrite = allow\<close>, each with the environment's choice of an order:
  the storage's methods with their critical sections, composed as \<open>mightymap.go\<close> does.
\<close>

fun memory_method ::
  "('e, 's, 'k, 'v) accesses \<Rightarrow> 'k \<Rightarrow> 'v \<Rightarrow> bool \<Rightarrow> 'e \<times> ('k, 'v) call \<Rightarrow> ('s, ('k, 'v) reply) prog"
where
  "memory_method A zk zv allow (e, CLoad k) =
     Section False (map_proc (\<lambda>(v, ok). Return (RLoad v ok)) (load_body A k))"
| "memory_method A zk zv allow (e, CHas k) =
     Section False (map_proc (\<lambda>(v, ok). Return (RHas ok)) (load_body A k))"
| "memory_method A zk zv allow (e, CStore k v) =
     (let write = Section True (map_proc (\<lambda>_. Return RUnit) (store_body A k v))
      in if allow then write
         else Section False (map_proc (\<lambda>(_, ok). if \<not> ok then write else Return RUnit) (load_body A k)))"
| "memory_method A zk zv allow (e, CDelete ks) =
     Section True (map_proc (\<lambda>_. Return RUnit) (delete_body A ks))"
| "memory_method A zk zv allow (e, CRange) =
     Section False (map_proc (\<lambda>r. Return (REntries (ret_or [] r))) (iterate_body A e collect_cb []))"
| "memory_method A zk zv allow (e, CKeys) =
     Section False (map_proc (\<lambda>ks. Return (RKeys ks)) (keys_body A e))"
| "memory_method A zk zv allow (e, CPop k) =
     Section False (map_proc (\<lambda>(v, ok).
       if \<not> ok then Return (RLoad v ok)
       else Section True (map_proc (\<lambda>_. Return (RLoad v True)) (delete_body A [k]))) (load_body A k))"
| "memory_method A zk zv allow (e, CNext) =
     Section False (map_proc (\<lambda>r. case ret_or (zk, zv) r of (key, value) \<Rightarrow>
       if key \<noteq> zk then Section True (map_proc (\<lambda>_. Return (RNext value key True)) (delete_body A [key]))
       else Return (RNext value key False)) (iterate_body A e first_cb (zk, zv)))"
| "memory_method A zk zv allow (e, CLen) =
     Section False (map_proc (\<lambda>n. Return (RLen n)) (len_body A))"
| "memory_method A zk zv allow (e, CClear) =
     Section True (map_proc (\<lambda>_. Return RUnit) (clear_body A))"

text \<open>The calls that enter the mutex once.\<close>

fun single_call :: "bool \<Rightarrow> ('k, 'v) call \<Rightarrow> bool" where
  "single_call allow (CStore k v) = allow"
| "single_call allow (CPop k) = False"
| "single_call allow CNext = False"
| "single_call allow _ = True"

lemma single_call_one_section:
  "single_call allow c \<Longrightarrow> one_section (memory_method A zk zv allow (e, c))"
  by (cases c) (auto simp: proc.set_map)

lemma silent_bodies [simp, intro]:
  "silent (load_body A k)" "silent (range_body A f ks c)" "silent (iterate_body A e f c)"
  "silent (keys_body A e)" "silent (len_body A)"
proof -
  show r: "silent (range_body A f ks c)" for ks c
    by (induction ks arbitrary: c) (auto split: prod.split outcome.split)
  show "silent (load_body A k)" "silent (iterate_body A e f c)" "silent (keys_body A e)"
    "silent (len_body A)"
    using r by (simp_all add: load_body_def iterate_body_def keys_body_def len_body_def)
qed

interpretation memory: locked_object "memory_method A zk zv allow"
  for A :: "('e, 's, 'k, 'v) accesses" and zk zv allow
proof
  fix ec :: "'e \<times> ('k, 'v) call"
  obtain e c where "ec = (e, c)" by force
  then show "prog_ok (memory_method A zk zv allow ec)"
    by (cases c) (auto simp: proc.set_map Let_def intro: silent_map split: prod.splits)
qed

section \<open>Alone, the methods are those of the sequential model\<close>

fun delete_accesses :: "('e, 's, 'k, 'v) accesses \<Rightarrow> 'k list \<Rightarrow> 's \<Rightarrow> 's" where
  "delete_accesses A [] s = s"
| "delete_accesses A (k # ks) s = delete_accesses A ks (ac_delete A s k)"

definition visited :: "('e, 's, 'k, 'v) accesses \<Rightarrow> 's \<Rightarrow> 'k list \<Rightarrow> ('k \<times> 'v) list" where
  "visited A s ks = map (\<lambda>k. (k, fst (ac_get A s k))) (filter (\<lambda>k. snd (ac_get A s k)) ks)"

lemma alone_delete: "alone (delete_body A ks) s = ((), delete_accesses A ks s)"
  by (induction ks arbitrary: s) simp_all

lemma alone_range: "alone (range_body A f ks c) s = (range_loop f (visited A s ks) c, s)"
proof (induction ks arbitrary: c)
  case Nil
  then show ?case by (simp add: visited_def)
next
  case (Cons k ks)
  obtain v ok where "ac_get A s k = (v, ok)" by force
  with Cons show ?case
    by (cases "f k v c") (auto simp: visited_def)
qed

lemmas alone_bodies = load_body_def store_body_def alone_delete iterate_body_def alone_range
  keys_body_def len_body_def clear_body_def alone_map

lemma serial_members:
  "\<forall>i. fst ` set (of_thread i h) \<subseteq> C \<Longrightarrow> \<forall>(i, c, r) \<in> set h. c \<in> C"
proof (induction h)
  case (Cons x h)
  obtain i c r where x: "x = (i, c, r)" by (metis prod.exhaust)
  have "fst ` set (of_thread j h) \<subseteq> C" for j
    using Cons.prems[rule_format, of j] x by (auto split: if_splits)
  moreover have "c \<in> C" using Cons.prems[rule_format, of i] x by simp
  ultimately show ?case using Cons.IH x by auto
qed simp

text \<open>A storage whose methods are made of these accesses.\<close>

locale memory_object =
  map_iter ops eok sinv amap kok vok zv + kv_len ops eok sinv amap kok vok zv
  for ops :: "'e \<Rightarrow> ('s, 'k, 'v, ('k \<times> 'v) list) storage_ops" and eok sinv amap kok vok zv +
  fixes A :: "('e, 's, 'k, 'v) accesses"
  assumes get: "op_Load (ops e) s k = Ret (ac_get A s k)"
    and put: "op_Store (ops e) s k v = Ret (ac_put A s k v)"
    and del: "op_Delete (ops e) s ks = Ret (delete_accesses A ks s)"
    and iter: "eok e \<Longrightarrow> sinv s \<Longrightarrow>
      op_Range (ops e) s f c = range_loop f (visited A s (ac_order A e s)) c"
    and keys: "op_Keys (ops e) s = Ret (ac_order A e s)"
    and len: "op_Len (ops e) s = Ret (ac_count A s, s)"
    and clr: "op_Clear (ops e) s = Ret (ac_clear A s)"
begin

lemma method_alone:
  assumes "eok e" "sinv s" "c \<noteq> CNext" "alone (collapse (memory_method A zk zv allow (e, c))) s = (r, t)"
  shows "map_exec (ops e) \<lparr>mm_storage = s, mm_allowOverwrite = allow\<rparr> c =
    Ret (r, \<lparr>mm_storage = t, mm_allowOverwrite = allow\<rparr>)"
  using assms
  by (cases c)
    (auto simp: Map_defs Map_Clear_def alone_bodies get put del iter keys len clr range_loop_collect Let_def
      split: prod.splits if_splits)

text \<open>A serial history of calls on the map is a run of the specification.\<close>

lemma serial_refines:
  assumes "serial (memory_method A zk zv allow) s h t" "sinv s"
    and "\<forall>((e, c), r) \<in> set h. eok e \<and> call_ok kok vok c \<and> c \<noteq> CNext"
  shows "sinv t \<and> spec_run zk zv allow (amap s) (map (snd \<circ> fst) h) (map snd h) (amap t)"
  using assms
proof (induction h arbitrary: s)
  case Nil
  then show ?case by (simp add: spec_run_Nil)
next
  case (Cons x h)
  obtain e c r where x: "x = ((e, c), r)" by (metis prod.exhaust)
  with Cons.prems obtain u where u: "alone (collapse (memory_method A zk zv allow (e, c))) s = (r, u)"
    "serial (memory_method A zk zv allow) u h t" by auto
  have e: "eok e" "call_ok kok vok c" "c \<noteq> CNext" using Cons.prems(3) x by auto
  let ?m = "\<lambda>s. \<lparr>mm_storage = s, mm_allowOverwrite = allow\<rparr>"
  note ex = method_alone[OF e(1) Cons.prems(2) e(3) u(1)]
  have "sinv u \<and> spec_step zk zv allow (amap s) c r (amap u)"
  proof (cases "c = CLen")
    case True
    with ex Len_spec[OF e(1) Cons.prems(2)] show ?thesis by (auto simp: Map_Len_def)
  next
    case False
    with map_exec_refines_basic[OF e(1), of "?m s" c zk] Cons.prems(2) e ex show ?thesis by auto
  qed
  with Cons.IH[OF u(2)] Cons.prems(3) x show ?case by (auto intro: spec_run_Cons)
qed

text \<open>
  Concurrent calls that enter the mutex once: some goroutine can go on, or all calls have returned
  and their history, in the order of the releases, is a run of the specification.
\<close>

lemma memory_linearizable:
  assumes calls: "\<forall>cs \<in> set css. \<forall>(e, c) \<in> set cs. eok e \<and> call_ok kok vok c \<and> single_call allow c"
    and s: "sinv s"
    and run: "run_steps micro_step (s, start_calls (memory_method A zk zv allow) css) is = Some (s', ts)"
  shows "(\<exists>j. micro_step (s', ts) j \<noteq> None) \<or>
    (\<exists>h. map fst h = releases (s, start_calls (memory_method A zk zv allow) css) is \<and>
      (\<forall>i < length css. map fst (of_thread i h) = css ! i \<and>
         ts ! i = Outside False (Return (map snd (of_thread i h)))) \<and>
      spec_run zk zv allow (amap s) (map (\<lambda>(i, (e, c), r). c) h) (map (\<lambda>(i, ec, r). r) h) (amap s'))"
proof (cases "\<exists>j. micro_step (s', ts) j \<noteq> None")
  case False
  have "\<forall>cs \<in> set css. \<forall>ec \<in> set cs. one_section (memory_method A zk zv allow ec)"
    using calls single_call_one_section by fastforce
  from memory.linearizable[OF this run] False obtain h where
    h: "map fst h = releases (s, start_calls (memory_method A zk zv allow) css) is"
    "serial (memory_method A zk zv allow) s (map snd h) s'"
    "\<forall>i < length css. map fst (of_thread i h) = css ! i \<and>
       ts ! i = Outside False (Return (map snd (of_thread i h)))" by blast
  let ?C = "{(e, c). eok e \<and> call_ok kok vok c \<and> c \<noteq> CNext}"
  have "fst ` set (of_thread i h) \<subseteq> ?C" for i
  proof (cases "i < length css")
    case True
    with h(3) have "fst ` set (of_thread i h) = set (css ! i)" by (metis list.set_map)
    moreover have "set (css ! i) \<subseteq> ?C" using calls nth_mem[OF True] by fastforce
    ultimately show ?thesis by simp
  next
    case False
    have "fst x < length css" if "x \<in> set h" for x
    proof -
      have "fst x \<in> set (releases (s, start_calls (memory_method A zk zv allow) css) is)"
        using that h(1) by (metis image_eqI list.set_map)
      with releases_bound show ?thesis by (fastforce simp: start_calls_def)
    qed
    with False have "of_thread i h = []" by (auto simp: of_thread_def filter_empty_conv)
    then show ?thesis by simp
  qed
  from serial_members[rule_format, OF this]
  have "\<forall>((e, c), r) \<in> set (map snd h). eok e \<and> call_ok kok vok c \<and> c \<noteq> CNext" by fastforce
  from serial_refines[OF h(2) s this]
  have "spec_run zk zv allow (amap s) (map (\<lambda>(i, (e, c), r). c) h) (map (\<lambda>(i, ec, r). r) h) (amap s')"
    by (simp add: comp_def case_prod_unfold)
  with h show ?thesis by blast
qed blast

end

section \<open>The three storages\<close>

lemma delete_accesses_direct:
  "delete_accesses (direct_accesses zv) ks c = direct_Delete c ks"
  by (induction ks arbitrary: c) (simp_all add: direct_accesses_def direct_Delete_def)

lemma delete_accesses_default:
  "delete_accesses default_accesses ks c = default_Delete c ks"
  by (induction ks arbitrary: c) (simp_all add: default_accesses_def default_Delete_def)

lemma delete_accesses_swiss:
  "delete_accesses (swiss_accesses api) ks c = swiss_Delete api c ks"
  by (induction ks arbitrary: c) (simp_all add: swiss_accesses_def)

text \<open>Looking up the keys of an enumeration finds its entries.\<close>

lemma visited_enumerates:
  assumes "enumerates m es" "\<And>k. ac_get A s k = lookup_result zv m k"
  shows "visited A s (map fst es) = es"
proof -
  have "map (\<lambda>k. (k, fst (ac_get A s k))) (filter (\<lambda>k. snd (ac_get A s k)) (map fst xs)) = xs"
    if "set xs \<subseteq> set es" for xs
    using that
  proof (induction xs)
    case (Cons x xs)
    obtain k v where x: "x = (k, v)" by force
    with Cons.prems have "m k = Some v" using enumerates_set[OF assms(1)] by auto
    with Cons x assms(2)[of k] show ?case by (simp add: lookup_result_def)
  qed simp
  then show ?thesis by (simp add: visited_def)
qed

interpretation direct_obj: memory_object "direct_ops zk zv" is_order direct_inv direct_abs
  "\<lambda>_. True" "\<lambda>_. True" zv "direct_accesses zv"
  for zk :: 'k and zv :: 'v
proof (unfold_locales, goal_cases)
  case (4 e s f c)
  then have en: "enumerates (direct_abs s) (e (direct_data s))"
    by (simp add: direct_abs_def direct_inv_def enumerates_order)
  have "visited (direct_accesses zv) s (map fst (e (direct_data s))) = e (direct_data s)"
    by (rule visited_enumerates[OF en]) (simp add: direct_accesses_def direct_abs_def kv_simps)
  then show ?case by (simp add: direct_ops_def direct_Range_def direct_accesses_def)
qed (simp_all add: direct_ops_def direct_method_defs delete_accesses_direct, 
     simp_all add: direct_accesses_def direct_method_defs)

interpretation default_obj: memory_object "default_ops zk" is_order default_inv default_abs
  "\<lambda>_. True" "\<lambda>_. True" "[]" default_accesses
  for zk :: 'k
proof (unfold_locales, goal_cases)
  case (4 e s f c)
  then have en: "enumerates (default_abs s) (e (default_data s))"
    by (simp add: default_abs_def default_inv_def enumerates_order)
  have "visited default_accesses s (map fst (e (default_data s))) = e (default_data s)"
    by (rule visited_enumerates[OF en]) (simp add: default_accesses_def default_abs_def kv_simps)
  then show ?case by (simp add: default_ops_def default_Range_def default_accesses_def)
qed (simp_all add: default_ops_def default_method_defs delete_accesses_default,
     simp_all add: default_accesses_def default_method_defs)

interpretation swiss_obj: memory_object "swiss_ops api zk" "\<lambda>_. True" "\<lambda>_. swiss_ok api mabs"
  "swiss_abs mabs" "\<lambda>_. True" "\<lambda>_. True" "[]" "swiss_accesses api"
  for api :: "('e, 'm, 'k) swiss_api" and mabs zk
proof (unfold_locales, goal_cases)
  case (4 e s f c)
  then have en: "enumerates (swiss_abs mabs s) (sw_visits api e (swiss_data s))"
    by (simp add: swiss_abs_def swiss_okD)
  have "visited (swiss_accesses api) s (map fst (sw_visits api e (swiss_data s))) =
      sw_visits api e (swiss_data s)"
    by (rule visited_enumerates[OF en]) (simp add: swiss_accesses_def swiss_abs_def swiss_okD(2)[OF 4(2)])
  then show ?case by (simp add: swiss_ops_def swiss_accesses_def)
qed (simp_all add: swiss_ops_def swiss_method_defs delete_accesses_swiss,
     simp_all add: swiss_accesses_def swiss_method_defs)

text \<open>The first section of Next, and the second, are those of \<open>next_proc\<close>.\<close>

lemma next_sections:
  fixes c :: "('k, 'v) direct"
  assumes "direct_inv c" "is_order ord"
  shows "\<exists>g. collapse (memory_method (direct_accesses zv) zk zv allow (ord, CNext)) = Sect g \<and>
    g c = (c, case ord (direct_data c) of
        [] \<Rightarrow> Done (RNext zv zk False)
      | (k, v) # _ \<Rightarrow>
          if k = zk then Done (RNext v k False)
          else Sect (\<lambda>c'. (direct_Delete c' [k], Done (RNext v k True))))"
proof -
  have en: "enumerates (direct_abs c) (ord (direct_data c))"
    using assms by (simp add: direct_abs_def direct_inv_def enumerates_order)
  have v: "visited (direct_accesses zv) c (map fst (ord (direct_data c))) = ord (direct_data c)"
    by (rule visited_enumerates[OF en]) (simp add: direct_accesses_def direct_abs_def kv_simps)
  have o: "ac_order (direct_accesses zv) ord c = map fst (ord (direct_data c))"
    by (simp add: direct_accesses_def)
  have first: "alone (iterate_body (direct_accesses zv) ord first_cb (zk, zv)) c =
      (Ret (case ord (direct_data c) of [] \<Rightarrow> (zk, zv) | e # _ \<Rightarrow> e), c)"
    by (simp add: iterate_body_def alone_range o v range_loop_first)
  have "ac_delete (direct_accesses zv) = (\<lambda>(c' :: ('k, 'v) direct) k. direct_Delete c' [k])"
    by (simp add: direct_accesses_def direct_Delete_def)
  then show ?thesis
    by (cases "ord (direct_data c)") (auto simp: first alone_map alone_delete)
qed

end
