(* ===== verification/Concurrency_Properties.thy ===== *)
theory Concurrency_Properties
  imports Lock_Programs Interleaving Badger_Interleaving Memory_Sections Instances
begin

text \<open>
  Properties of goroutines that share a storage: exclusion and freedom of deadlock from the order in
  which the methods take their locks, the calls that break that order, and the methods that are
  not atomic because they enter the lock twice.
\<close>

section \<open>Exclusion\<close>

text \<open>
  C13. Whatever calls the goroutines make on an in-memory or SQLite storage, plain or through the
  adapter, at every reachable point a goroutine that holds a mutex for writing is the only one
  that holds it, no goroutine is about to release a mutex it does not hold (which would end the
  program), and one that has returned from all its calls holds none.
\<close>

theorem critical_sections_are_exclusive:
  assumes "locks \<in> {memory_locks, sqlite_locks, adapter_locks memory_locks, adapter_locks sqlite_locks}"
    and "reaches (map (calls locks) css) gs" "i < length gs"
  shows "(case g_todo (gs ! i) of
            [] \<Rightarrow> g_held (gs ! i) = []
          | RUn l # _ \<Rightarrow> holds_any (gs ! i) l
          | WUn l # _ \<Rightarrow> holds_write (gs ! i) l
          | _ \<Rightarrow> True) \<and>
    (\<forall>j < length gs. \<forall>l. j \<noteq> i \<and> holds_write (gs ! i) l \<longrightarrow> \<not> holds_any (gs ! j) l)"
proof
  have "balanced [] (adapter_locks memory_locks c)" "balanced [] (adapter_locks sqlite_locks c)" for c
    by (rule adapter_balanced[OF memory_balanced] adapter_balanced[OF sqlite_balanced]; simp)+
  with assms(1) memory_balanced sqlite_balanced have "balanced [] (locks c)" for c by auto
  from all_balanced_reaches[OF assms(2) calls_balanced[OF this]]
  have "balanced (g_held (gs ! i)) (g_todo (gs ! i))" using assms(3) by (simp add: all_balanced_def)
  then show "case g_todo (gs ! i) of [] \<Rightarrow> g_held (gs ! i) = [] | RUn l # _ \<Rightarrow> holds_any (gs ! i) l
      | WUn l # _ \<Rightarrow> holds_write (gs ! i) l | _ \<Rightarrow> True"
    by (auto simp: holds_any_def holds_write_def split: list.split instr.split)
  from assms(2) have "exclusive gs" unfolding calls_as_programs by (rule exclusive_reaches)
  with assms(3) show "\<forall>j < length gs. \<forall>l. j \<noteq> i \<and> holds_write (gs ! i) l \<longrightarrow> \<not> holds_any (gs ! j) l"
    by (auto simp: exclusive_def)
qed

theorem critical_sections_are_exclusive_witness:
  "\<exists>gs. run_schedule (map (calls memory_locks) [[LStore None], [LLoad False]]) [0, 0] = Some gs \<and>
    g_todo (gs ! 0) = [WUn 0] \<and> holds_write (gs ! 0) 0 \<and> \<not> holds_any (gs ! 1) 0"
proof -
  let ?ps = "map (calls memory_locks) [[LStore None], [LLoad False]]"
  let ?gs = "[\<lparr>g_todo = [WUn 0], g_held = [(0, True)], g_wait = False\<rparr>, calls memory_locks [LLoad False]]"
  have r: "run_schedule ?ps [0, 0] = Some ?gs"
    by (simp add: calls_def step_goroutine_def spawn_def holds_write_def holds_any_def announced_def)
  from critical_sections_are_exclusive[OF _ reaches_schedule[OF r reaches_refl], of 0]
  have "holds_write (?gs ! 0) 0" "\<not> holds_any (?gs ! 1) 0" by auto
  with r show ?thesis by (intro exI[of _ ?gs]) simp
qed

section \<open>Atomicity\<close>

text \<open>
  C8. Goroutines call the methods of a map over the default storage that enter the mutex once: Load,
  Has, Delete, Range, Keys, Len, Clear, and Store where overwriting is allowed. The methods run
  access by access and a reader may run beside other readers. At every point some goroutine can
  go on, or all calls have returned; then the calls have had the replies and the effect of one
  sequential execution, which is a run of the specification, each goroutine's calls in their
  order, and one call before another when it released the mutex before.
\<close>

theorem memory_calls_linearize:
  assumes "\<forall>cs \<in> set css. \<forall>(ord, c) \<in> set cs. is_order ord \<and> single_call allow c"
    and "direct_inv s"
    and "run_steps micro_step (s, start_calls (memory_method (direct_accesses zv) zk zv allow) css) is =
      Some (s', ts)"
  shows "(\<exists>j. micro_step (s', ts) j \<noteq> None) \<or>
    (\<exists>h. map fst h = releases (s, start_calls (memory_method (direct_accesses zv) zk zv allow) css) is \<and>
      (\<forall>i < length css. map fst (of_thread i h) = css ! i \<and>
         ts ! i = Outside False (Return (map snd (of_thread i h)))) \<and>
      spec_run zk zv allow (direct_abs s) (map (\<lambda>(i, (ord, c), r). c) h) (map (\<lambda>(i, c, r). r) h)
        (direct_abs s'))"
proof -
  have "call_ok (\<lambda>_. True) (\<lambda>_. True) c" for c :: "('a, 'b) call" by (cases c) (simp_all add: list_all_iff)
  with assms(1) have "\<forall>cs \<in> set css. \<forall>(ord, c) \<in> set cs.
      is_order ord \<and> call_ok (\<lambda>_. True) (\<lambda>_. True) c \<and> single_call allow c" by fastforce
  from direct_obj.memory_linearizable[OF this assms(2,3)] show ?thesis .
qed

text \<open>One goroutine deletes two keys; the other loads one of them before that and ranges afterwards.\<close>

definition two_callers :: "((nat, string) order \<times> (nat, string) call) list list" where
  "two_callers = [[(rev, CDelete [1, 2])], [(rev, CLoad 2), (rev, CRange)]]"

theorem memory_calls_linearize_witness:
  "\<exists>h s'. map fst h = [1, 0, 1] \<and>
    (\<forall>i < 2. map fst (of_thread i h) = two_callers ! i) \<and>
    spec_run 0 ''z'' True [1 \<mapsto> ''a'', 2 \<mapsto> ''b'', 3 \<mapsto> ''c''] (map (\<lambda>(i, (ord, c), r). c) h)
      (map (\<lambda>(i, c, r). r) h) (direct_abs s')"
proof -
  let ?s = "\<lparr>direct_data = [(3::nat, ''c''), (2, ''b''), (1, ''a'')]\<rparr>"
    and ?ts = "start_calls (memory_method (direct_accesses ''z'') 0 ''z'' True) two_callers"
    and ?is = "[1, 1, 0, 1, 0, 0, 0, 0, 1, 1, 1, 1]"
  note defs = two_callers_def start_calls_def load_body_def iterate_body_def direct_accesses_def
    go_index_map_def collect_cb_def
  have r: "releases (?s, ?ts) ?is = [1, 0, 1]" by (simp add: defs)
  have "\<exists>x. run_steps micro_step (?s, ?ts) ?is = Some x \<and> all_returned (snd x)"
    by (simp add: defs all_returned_def)
  then obtain s' ts where run: "run_steps micro_step (?s, ?ts) ?is = Some (s', ts)" "all_returned ts"
    by auto
  have stuck: "micro_step (s', ts) j = None" for j
  proof (cases "j < length ts")
    case True
    with run(2) obtain a r where "ts ! j = Outside a (Return r)" by (auto simp: all_returned_def returned_iff) (metis nth_mem)
    then show ?thesis by simp
  qed simp
  have c: "\<forall>cs \<in> set two_callers. \<forall>(ord, c) \<in> set cs. is_order ord \<and> single_call True c"
    by (simp add: two_callers_def)
  have inv: "direct_inv ?s" and abs: "direct_abs ?s = [1 \<mapsto> ''a'', 2 \<mapsto> ''b'', 3 \<mapsto> ''c'']"
    by (auto simp: direct_inv_def gomap_ok_def direct_abs_def)
  have len: "length two_callers = 2" by (simp add: two_callers_def)
  have "\<not> (\<exists>j. micro_step (s', ts) j \<noteq> None)" using stuck by simp
  with memory_calls_linearize[OF c inv run(1), unfolded r abs len] show ?thesis
    by (elim disjE exE conjE) (simp, intro exI conjI, assumption, simp, assumption)
qed

section \<open>No deadlock\<close>

text \<open>A schedule over ordered calls is bounded, and where it cannot go on all calls have returned.\<close>

lemma ordered_calls_finish:
  assumes "\<forall>cs \<in> set css. \<forall>c \<in> set cs. ordered [] (locks c)"
    and "run_schedule (map (calls locks) css) is = Some gs"
  shows "length is \<le> total_work (map (calls locks) css) \<and>
    (finished gs \<or> (\<exists>i < length gs. step_goroutine gs i \<noteq> None))"
proof
  show "length is \<le> total_work (map (calls locks) css)" using schedule_bounded[OF assms(2)] by simp
  have "\<not> deadlocked gs"
    by (rule ordered_calls_safe[OF assms(1) reaches_schedule[OF assms(2) reaches_refl]])
  then show "finished gs \<or> (\<exists>i < length gs. step_goroutine gs i \<noteq> None)"
    by (auto simp: deadlocked_def list_all_iff)
qed

text \<open>
  C14. Goroutines that make any calls on an in-memory storage, directly or through the MessagePack
  adapter, never deadlock as long as the callbacks of their Ranges make no calls on the map: every
  schedule is bounded by the work there is to do, and where it ends before all calls have
  returned, some goroutine can go on.
\<close>

theorem memory_calls_finish:
  assumes "locks \<in> {memory_locks, adapter_locks memory_locks}"
    and "\<forall>cs \<in> set css. \<forall>c \<in> set cs. quiet c"
    and "run_schedule (map (calls locks) css) is = Some gs"
  shows "length is \<le> total_work (map (calls locks) css) \<and>
    (finished gs \<or> (\<exists>i < length gs. step_goroutine gs i \<noteq> None))"
proof (rule ordered_calls_finish[OF _ assms(3)])
  have "ordered [] (adapter_locks memory_locks c)" if "quiet c" for c
    by (rule adapter_ordered[where bad = "\<lambda>_. False", OF _ _ that]) (simp_all add: memory_ordered)
  with assms(1,2) memory_ordered
  show "\<forall>cs \<in> set css. \<forall>c \<in> set cs. ordered [] (locks c)" by blast
qed

theorem memory_calls_finish_witness:
  "\<exists>gs. run_schedule (map (calls (adapter_locks memory_locks)) [[LStore (Some True)], [LRange [(True, [])], LNext True True]])
      [1, 0, 0] = Some gs \<and>
    (finished gs \<or> (\<exists>i < length gs. step_goroutine gs i \<noteq> None))"
proof -
  let ?gs0 = "map (calls (adapter_locks memory_locks)) [[LStore (Some True)], [LRange [(True, [])], LNext True True]]"
  have "\<exists>gs. run_schedule ?gs0 [1, 0, 0] = Some gs"
    by (simp add: calls_def spawn_def step_goroutine_def holds_write_def holds_any_def announced_def
        encode_locks_def registry_read_def)
  then obtain gs where gs: "run_schedule ?gs0 [1, 0, 0] = Some gs" ..
  from memory_calls_finish[OF _ _ this] gs show ?thesis by (intro exI[of _ gs]) simp
qed

text \<open>
  C19. Goroutines on an SQLite storage never deadlock as long as no Len finds its cached count stale
  on both looks and the callbacks of their Ranges make no calls on the map.
\<close>

theorem sqlite_calls_finish_with_cache:
  assumes "\<forall>cs \<in> set css. \<forall>c \<in> set cs. \<not> misses_cache c \<and> quiet c"
    and "run_schedule (map (calls (adapter_locks sqlite_locks)) css) is = Some gs"
  shows "length is \<le> total_work (map (calls (adapter_locks sqlite_locks)) css) \<and>
    (finished gs \<or> (\<exists>i < length gs. step_goroutine gs i \<noteq> None))"
proof (rule ordered_calls_finish[OF _ assms(2)])
  have "ordered [] (adapter_locks sqlite_locks c)" if "\<not> misses_cache c" "quiet c" for c
    by (rule adapter_ordered[where bad = misses_cache, OF _ that]) (simp_all add: sqlite_ordered_iff)
  with assms(1) show "\<forall>cs \<in> set css. \<forall>c \<in> set cs. ordered [] (adapter_locks sqlite_locks c)"
    by blast
qed

theorem sqlite_calls_finish_with_cache_witness:
  "\<exists>gs. run_schedule (map (calls (adapter_locks sqlite_locks)) [[LDelete 2, LRange [(False, [])]], [LLen 1, LClear]])
      [0, 1, 0] = Some gs \<and>
    (finished gs \<or> (\<exists>i < length gs. step_goroutine gs i \<noteq> None))"
proof -
  let ?gs0 = "map (calls (adapter_locks sqlite_locks)) [[LDelete 2, LRange [(False, [])]], [LLen 1, LClear]]"
  have "\<exists>gs. run_schedule ?gs0 [0, 1, 0] = Some gs"
    by (simp add: calls_def spawn_def step_goroutine_def holds_write_def holds_any_def announced_def
        invalidate_locks_def)
  then obtain gs where gs: "run_schedule ?gs0 [0, 1, 0] = Some gs" ..
  from sqlite_calls_finish_with_cache[OF _ this] gs show ?thesis by simp
qed

section \<open>Deadlocks\<close>

lemmas lock_steps =
  calls_def spawn_def step_goroutine_def holds_write_def holds_any_def announced_def
  invalidate_locks_def deadlocked_def finished_def

text \<open>The lists of lock calls behind the deadlocks below, as far as they come.\<close>

lemma opposite_orders:
  "\<exists>gs. run_schedule [spawn [RLk 1, RUn 1, WLk 1, RLk 0, RUn 0, WUn 1],
      spawn [WLk 0, WLk 1, WUn 1, WUn 0]] [0, 0, 0, 0, 1, 1] = Some gs \<and> deadlocked gs"
  by (simp add: lock_steps upt_rec)



text \<open>
  C18. A Len that misses the cache holds \<open>cachingMutex\<close> and waits for \<open>mutex\<close>, while a Store, a Delete,
  a Clear or a successful Next holds \<open>mutex\<close> and waits for \<open>cachingMutex\<close>: after six steps neither
  goroutine can go on, whichever of these calls it is.
\<close>

theorem sqlite_len_deadlocks:
  assumes "stale \<ge> 2" "c \<in> {LStore t, LNext True looked, LClear, LDelete n}" "c = LDelete n \<Longrightarrow> n \<ge> 2"
  shows "\<exists>gs. run_schedule [calls sqlite_locks [LLen stale], calls sqlite_locks [c]] [0, 0, 0, 0, 1, 1] =
    Some gs \<and> deadlocked gs"
proof -
  have "sqlite_locks (LLen stale) = [RLk 1, RUn 1, WLk 1, RLk 0, RUn 0, WUn 1]"
    "sqlite_locks c = [WLk 0, WLk 1, WUn 1, WUn 0]"
    using assms by (auto simp: invalidate_locks_def)
  with opposite_orders show ?thesis by (simp add: calls_def)
qed

theorem sqlite_len_deadlocks_witness:
  "\<exists>gs. run_schedule [calls sqlite_locks [LLen 2], calls sqlite_locks [LDelete 2]] [0, 0, 0, 0, 1, 1] =
    Some gs \<and> deadlocked gs"
  by (rule sqlite_len_deadlocks[where n = 2 and t = None and looked = True]) simp_all



section \<open>The counter of BadgerDB\<close>

text \<open>
  C36. The BadgerDB storage's methods run alone as they are modelled, but concurrently they lose track
  of the number of keys for good. On a storage \<open>c\<close> whose counter is in use and right, two deletions
  of one key lower the counter by two; on a storage \<open>c2\<close> whose keys were never counted, a Store of a
  new key that falls between the count of the first Len and its write to the counter is missed.
  Either way Len is one too low after any writes and Len calls that follow, until the next Clear.
\<close>

theorem badger_counter_races:
  assumes "badger_inv kc api opn dbmap kfit vfit c" "badger_ahead kc dbmap kfit c 0"
    and "key_ok kc kfit k" "badger_abs kc dbmap kfit c k = Some v"
    and "badger_inv kc api opn dbmap kfit vfit c2" "\<not> bg_initLenCall c2"
    and "key_ok kc kfit k'" "vfit v'" "k' \<notin> dom (badger_abs kc dbmap kfit c2)"
  shows "(\<exists>c'. interleave [True, False, True, False, True, False] c
        (badger_delete_proc kc api [k]) (badger_delete_proc kc api [k]) =
        (c', Done (Ret ()), Done (Ret ())) \<and>
      badger_abs kc dbmap kfit c' = (badger_abs kc dbmap kfit c)(k := None) \<and>
      bg_len c' = bg_len c - 2 \<and> short_for_good kc api zk dbmap kfit vfit c') \<and>
    (\<exists>c'. interleave [True, True, True, False, False, True, True] c2
        (badger_len_proc api) (badger_store_proc kc api k' v') =
        (c', Done (Ret (sint (bg_len c'))), Done (Ret ())) \<and>
      badger_abs kc dbmap kfit c' = (badger_abs kc dbmap kfit c2)(k' \<mapsto> v') \<and>
      bg_len c' = of_nat (card (dom (badger_abs kc dbmap kfit c2))) \<and>
      short_for_good kc api zk dbmap kfit vfit c') \<and>
    badger_Delete kc api s ks = obind (fst (alone (badger_delete_proc kc api ks) s)) (\<lambda>_.
      Ret (snd (alone (badger_delete_proc kc api ks) s))) \<and>
    badger_Store kc api s k' v' = obind (fst (alone (badger_store_proc kc api k' v') s)) (\<lambda>_.
      Ret (snd (alone (badger_store_proc kc api k' v') s))) \<and>
    badger_Len api s = obind (fst (alone (badger_len_proc api) s)) (\<lambda>r.
      Ret (r, snd (alone (badger_len_proc api) s)))"
  by (intro conjI delete_race[OF assms(1-4)] len_race[OF assms(5-9)] badger_delete_proc_alone
      badger_store_proc_alone badger_len_proc_alone)

text \<open>A storage with the one key \<open>a\<close>, counted or not.\<close>

definition one_key :: "bool \<Rightarrow> entries badger" where
  "one_key counted = \<lparr>bg_db = [(''a'', ''x'')], bg_len = 1, bg_initLenCall = counted\<rparr>"

theorem badger_counter_races_witness:
  "(\<exists>c'. interleave [True, False, True, False, True, False] (one_key True)
      (badger_delete_proc str_keys list_badger [''a'']) (badger_delete_proc str_keys list_badger [''a'']) =
      (c', Done (Ret ()), Done (Ret ())) \<and>
    bg_len c' = 1 - 2 \<and>
    short_for_good str_keys list_badger [] map_of (\<lambda>_. True) (\<lambda>_. True) c') \<and>
  (\<exists>c'. interleave [True, True, True, False, False, True, True] (one_key False)
      (badger_len_proc list_badger) (badger_store_proc str_keys list_badger ''b'' ''y'') =
      (c', Done (Ret (sint (bg_len c'))), Done (Ret ())) \<and>
    short_for_good str_keys list_badger [] map_of (\<lambda>_. True) (\<lambda>_. True) c')"
proof -
  have i: "badger_inv str_keys list_badger gomap_ok map_of (\<lambda>_. True) (\<lambda>_. True) (one_key b)" for b
    by (rule list_badger_inv) (simp add: gomap_ok_def one_key_def)
  have a: "badger_abs str_keys map_of (\<lambda>_. True) (one_key b) = [''a'' \<mapsto> ''x'']" for b
    by (simp add: badger_abs_def one_key_def)
  have c: "badger_ahead str_keys map_of (\<lambda>_. True) (one_key True) 0" "\<not> bg_initLenCall (one_key False)"
    by (simp_all add: badger_off_def a) (simp_all add: one_key_def)
  have l: "bg_len (one_key True) = 1" by (simp add: one_key_def)
  have k: "key_ok str_keys (\<lambda>_. True) k" for k by (simp add: key_ok_def str_keys_def)
  have p: "badger_abs str_keys map_of (\<lambda>_. True) (one_key True) ''a'' = Some ''x''"
    "''b'' \<notin> dom (badger_abs str_keys map_of (\<lambda>_. True) (one_key False))" by (simp_all add: a)
  from badger_counter_races[OF i c(1) k p(1) i c(2) k TrueI p(2), where v' = "''y''" and zk = "[]"]
  show ?thesis unfolding l by blast
qed

section \<open>Methods that are not atomic\<close>

text \<open>
  C34. Next of an in-memory storage is not atomic: run alone, its two critical sections are the
  method, but when a second Next runs between them, both return the same entry.
\<close>

theorem next_is_not_atomic:
  assumes "ord (direct_data c) = (k, v) # es" "k \<noteq> zk"
  shows "alone (next_proc zk zv ord) c = (Ret (k, v, True), direct_Delete c [k]) \<and>
    direct_Next zk zv ord c = Ret ((k, v, True), direct_Delete c [k]) \<and>
    fst (snd (interleave [True, False, True, False] c (next_proc zk zv ord) (next_proc zk zv ord))) =
      Done (Ret (k, v, True)) \<and>
    snd (snd (interleave [True, False, True, False] c (next_proc zk zv ord) (next_proc zk zv ord))) =
      Done (Ret (k, v, True))"
proof -
  have "alone (next_proc zk zv ord) c = (Ret (k, v, True), direct_Delete c [k])"
    using assms by (simp add: next_proc_def direct_Range_def range_loop_first)
  with next_proc_alone[of zk zv ord c] next_race[where ord = ord and zv = zv, OF assms] show ?thesis by simp
qed

theorem next_is_not_atomic_witness:
  "alone (next_proc (0::nat) ''z'' (\<lambda>m. m)) \<lparr>direct_data = [(7, ''a'')]\<rparr> =
      (Ret (7, ''a'', True), direct_Delete \<lparr>direct_data = [(7, ''a'')]\<rparr> [7]) \<and>
    direct_Next (0::nat) ''z'' (\<lambda>m. m) \<lparr>direct_data = [(7, ''a'')]\<rparr> =
      Ret ((7, ''a'', True), direct_Delete \<lparr>direct_data = [(7, ''a'')]\<rparr> [7]) \<and>
    fst (snd (interleave [True, False, True, False] \<lparr>direct_data = [(7, ''a'')]\<rparr>
      (next_proc (0::nat) ''z'' (\<lambda>m. m)) (next_proc (0::nat) ''z'' (\<lambda>m. m)))) = Done (Ret (7, ''a'', True)) \<and>
    snd (snd (interleave [True, False, True, False] \<lparr>direct_data = [(7, ''a'')]\<rparr>
      (next_proc (0::nat) ''z'' (\<lambda>m. m)) (next_proc (0::nat) ''z'' (\<lambda>m. m)))) = Done (Ret (7, ''a'', True))"
  by (rule next_is_not_atomic) simp_all

text \<open>
  C35. Two goroutines that store under an absent key into a map that must not overwrite can both
  write, whatever the backend does right: the second value replaces the first. Two that pop one
  key can both get its value.
\<close>

theorem no_overwrite_is_not_atomic:
  fixes ops :: "(('k, 'v) direct, 'k, 'v, 'c) storage_ops"
  assumes "direct_inv c" "k \<notin> dom (direct_abs c)" "is_order ord" "ops = direct_ops zk zv ord"
    and "direct_abs c k' = Some u"
  shows "(\<exists>c'. interleave [True, False, True, False] c
      (store_proc ops False k v) (store_proc ops False k w) =
      (c', Done (Ret ()), Done (Ret ())) \<and> direct_abs c' = (direct_abs c)(k \<mapsto> w)) \<and>
    (\<exists>c'. interleave [True, False, True, False] c (pop_proc ops k') (pop_proc ops k') =
      (c', Done (Ret (u, True)), Done (Ret (u, True))) \<and> direct_abs c' = (direct_abs c)(k' := None))"
  unfolding assms(4)
  by (intro conjI direct.store_race[OF assms(3,1) _ _ _ assms(2)] direct.pop_race[OF assms(3,1) _ assms(5)])
    simp_all

abbreviation nat_string_ops :: "((nat, string) direct, nat, string, unit) storage_ops" where
  "nat_string_ops \<equiv> direct_ops 0 ''z'' rev"

theorem no_overwrite_is_not_atomic_witness:
  "(\<exists>c'. interleave [True, False, True, False] \<lparr>direct_data = [(1, ''x'')]\<rparr>
      (store_proc nat_string_ops False 7 ''a'') (store_proc nat_string_ops False 7 ''b'') =
      (c', Done (Ret ()), Done (Ret ())) \<and>
      direct_abs c' = (direct_abs \<lparr>direct_data = [(1, ''x'')]\<rparr>)(7 \<mapsto> ''b'')) \<and>
    (\<exists>c'. interleave [True, False, True, False] \<lparr>direct_data = [(1, ''x'')]\<rparr>
      (pop_proc nat_string_ops 1) (pop_proc nat_string_ops 1) =
      (c', Done (Ret (''x'', True)), Done (Ret (''x'', True))) \<and>
      direct_abs c' = (direct_abs \<lparr>direct_data = [(1, ''x'')]\<rparr>)(1 := None))"
  by (rule no_overwrite_is_not_atomic[OF _ _ _ refl]) (simp_all add: direct_inv_def gomap_ok_def direct_abs_def)

end
