(* ===== verification/Migration_Properties.thy ===== *)
theory Migration_Properties
  imports Migrate_Badger Migrate_Redis Badger_Map Instances
begin

text \<open>
  Properties of the two migration programs: what they copy, what they count, what a dry run tells,
  how keys are renamed, and which settings end them.
\<close>

section \<open>Settings and entries of the examples\<close>

definition fresh_badger_map :: "entries badger adapter mightymap" where
  "fresh_badger_map = \<lparr>mm_storage = newMsgpackAdapter empty_badger Map.empty, mm_allowOverwrite = True\<rparr>"

definition some_settings :: migration_config where
  "some_settings = \<lparr>BatchSize = 2, LogInterval = 100, BackupOriginal = True, Timeout = 0, KeyPattern = ''*''\<rparr>"

definition two_entries :: "(string \<times> nat goval) list" where
  "two_entries = [(''old_a'', GStr ''1''), (''b'', GStr ''2'')]"

definition badger_settings :: "(badger_config, migration_config) migrate_config" where
  "badger_settings = createDefaultConfig\<lparr>cf_Migration := some_settings\<rparr>"

definition fresh_redis_map :: "(entries, unit, unit) redis adapter mightymap" where
  "fresh_redis_map = \<lparr>mm_storage = newMsgpackAdapter empty_redis Map.empty, mm_allowOverwrite = True\<rparr>"

definition rename_settings :: redis_migration_config where
  "rename_settings = \<lparr>BatchSize = 2, LogInterval = 100, BackupOriginal = True, Timeout = 0,
     KeyPattern = ''*'', SourcePrefix = ''old_'', TargetPrefix = ''new_''\<rparr>"

definition redis_settings :: "(redis_config, redis_migration_config) migrate_config" where
  "redis_settings = createDefaultRedisConfig\<lparr>cf_Migration := rename_settings\<rparr>"

lemma redis_settings_simps [simp]: "cf_Migration redis_settings = rename_settings"
  by (simp add: redis_settings_def)

abbreviation any_redis_ops ::
  "((entries, unit, unit) redis adapter, string, nat goval, unit) storage_ops" where
  "any_redis_ops \<equiv> adapter_ops any_codec (redis_ops str_keys list_redis [])"

text \<open>A new map in memory, without the adapter.\<close>

definition string_ops :: "((string, string) direct, string, string, unit) storage_ops" where
  "string_ops = direct_ops [] [] (\<lambda>m. m)"

definition fresh_string_map :: "(string, string) direct mightymap" where
  "fresh_string_map = \<lparr>mm_storage = \<lparr>direct_data = []\<rparr>, mm_allowOverwrite = True\<rparr>"

section \<open>Counting\<close>

text \<open>
  C26. A migration that returns accounts for every key it saw, whatever the new map does: total keys
  are migrated, skipped and failed keys together, no key is counted as failed, and no more keys are
  counted than the legacy map showed.
\<close>

theorem migrations_account_for_every_key:
  assumes "badger_runMigration ops legacy new_map config dryRun verbose ctx_done now = Ret (stats, m)"
    and "legacy (cf_Source config) = Ret (\<lambda>f c. range_loop f es c)"
    and "redis_runMigration ops' legacy' new_map' config' dryRun' verbose' ctx_done' now' =
      Ret (stats', m')"
    and "legacy' (cf_Source config') = Ret (\<lambda>f c. range_loop f es' c)"
  shows "TotalKeys stats = MigratedKeys stats + SkippedKeys stats + ErrorKeys stats \<and>
    ErrorKeys stats = 0 \<and> Errors stats = [] \<and> TotalKeys stats \<le> int (length es) \<and>
    TotalKeys stats' = MigratedKeys stats' + SkippedKeys stats' + ErrorKeys stats' \<and>
    ErrorKeys stats' = 0 \<and> Errors stats' = [] \<and> TotalKeys stats' \<le> int (length es')"
  using badger_run_stats[OF assms(1,2)] redis_run_stats[OF assms(3,4)] by (simp add: stats_balanced_def)

lemmas migration_evals =
  badger_runMigration_def redis_runMigration_def badger_migrate_cb_def redis_migrate_cb_def
  log_progress_def matchPattern_def end_of_key_def new_stats_def count_defs Let_def
  migration_config.truncate_def close_new_def some_settings_def rename_settings_def

theorem migrations_account_for_every_key_witness:
  "\<exists>stats m stats' m'.
    badger_runMigration string_ops (\<lambda>_. Ret (\<lambda>f c. range_loop f [(''a'', ''1''), (''b'', ''2'')] c))
      (\<lambda>_. Ret fresh_string_map) (badger_settings\<lparr>cf_Migration := some_settings\<lparr>KeyPattern := ''b''\<rparr>\<rparr>)
      True False (\<lambda>_. False) (\<lambda>_. 0) = Ret (stats, m) \<and>
    redis_runMigration string_ops (\<lambda>_. Ret (\<lambda>f c. range_loop f [(''old_a'', ''1'')] c))
      (\<lambda>_. fresh_string_map) redis_settings True False (\<lambda>_. True) (\<lambda>_. 0) = Ret (stats', m') \<and>
    SkippedKeys stats = 1 \<and> TotalKeys stats = MigratedKeys stats + 1 \<and> TotalKeys stats' \<le> 1"
proof -
  obtain stats m where b: "badger_runMigration string_ops
      (\<lambda>_. Ret (\<lambda>f c. range_loop f [(''a'', ''1''), (''b'', ''2'')] c)) (\<lambda>_. Ret fresh_string_map)
      (badger_settings\<lparr>cf_Migration := some_settings\<lparr>KeyPattern := ''b''\<rparr>\<rparr>) True False (\<lambda>_. False)
      (\<lambda>_. 0) = Ret (stats, m)"
    "SkippedKeys stats = 1"
    by (simp add: migration_evals)
  obtain stats' m' where r: "redis_runMigration string_ops
      (\<lambda>_. Ret (\<lambda>f c. range_loop f [(''old_a'', ''1'')] c)) (\<lambda>_. fresh_string_map) redis_settings True
      False (\<lambda>_. True) (\<lambda>_. 0) = Ret (stats', m')"
    by (simp add: migration_evals)
  have "TotalKeys stats = MigratedKeys stats + 1 \<and> TotalKeys stats' \<le> 1"
    using migrations_account_for_every_key[OF b(1) refl r refl] b(2) by simp
  with b r show ?thesis by blast
qed

text \<open>
  C24. A dry run tells what the run would count: if a BadgerDB migration returns, the dry run with
  the same entries, settings, context and clock returns the same statistics and no new map.
\<close>

theorem dry_run_predicts_statistics:
  assumes "badger_runMigration ops legacy new_map config False verbose ctx_done now = Ret (stats, m)"
    and "legacy (cf_Source config) = Ret (\<lambda>f c. range_loop f es c)"
  shows "badger_runMigration ops legacy new_map config True verbose ctx_done now = Ret (stats, None)"
proof -
  let ?st = "\<lambda>s. \<lparr>mg_stats = new_stats (now False), mg_batchCount = 0, mg_newStore = s, mg_pauses = 0\<rparr>"
  obtain m0 st where st:
    "range_loop (badger_migrate_cb ops (cf_Migration config) verbose ctx_done) es (?st (Some m0)) = Ret st"
    "stats = (mg_stats st)\<lparr>EndTime := now True\<rparr>"
    using assms by (auto simp: badger_runMigration_def obind_eq_Ret_iff)
  have "mg_stats (?st None) = mg_stats (?st (Some m0))" "mg_newStore (?st None) = None" by simp_all
  from badger_step.run_dry_same[OF st(1) this] st(2) assms(2) show ?thesis
    by (auto simp: badger_runMigration_def close_new_def)
qed

theorem dry_run_predicts_statistics_witness:
  "\<exists>stats m. badger_runMigration string_ops (\<lambda>_. Ret (\<lambda>f c. range_loop f [(''a'', ''1'')] c))
      (\<lambda>_. Ret fresh_string_map) badger_settings False False (\<lambda>_. False) (\<lambda>_. 0) = Ret (stats, m) \<and>
    badger_runMigration string_ops (\<lambda>_. Ret (\<lambda>f c. range_loop f [(''a'', ''1'')] c))
      (\<lambda>_. Ret fresh_string_map) badger_settings True False (\<lambda>_. False) (\<lambda>_. 0) = Ret (stats, None)"
proof -
  obtain stats m where r: "badger_runMigration string_ops
      (\<lambda>_. Ret (\<lambda>f c. range_loop f [(''a'', ''1'')] c)) (\<lambda>_. Ret fresh_string_map)
      badger_settings False False (\<lambda>_. False) (\<lambda>_. 0) = Ret (stats, m)"
    by (simp add: migration_evals migrate_one_def migrateKeyValue_def Map_Store_def Map_Close_def
        set_storage_def direct_ops_def string_ops_def fresh_string_map_def badger_settings_def)
  from dry_run_predicts_statistics[OF r refl] r show ?thesis by blast
qed

section \<open>Renaming\<close>

text \<open>
  C27. Renaming with the prefixes exchanged undoes the renaming of every key that was not under the
  target prefix, and such keys keep apart; a key that was there already collides with the one that
  is moved onto it.
\<close>

theorem renaming_is_reversible:
  "(\<forall>key. \<not> has_prefix key tp \<longrightarrow> transformKey (transformKey key sp tp) tp sp = key) \<and>
   inj_on (\<lambda>k. transformKey k sp tp) {k. \<not> has_prefix k tp} \<and>
   (\<forall>r. sp \<noteq> [] \<and> tp \<noteq> [] \<and> r \<noteq> [] \<and> \<not> has_prefix (tp @ r) sp \<longrightarrow>
      transformKey (sp @ r) sp tp = transformKey (tp @ r) sp tp)"
  by (simp add: transformKey_back transformKey_inj transformKey_moves transformKey_keeps)

theorem renaming_is_reversible_witness:
  "transformKey (transformKey ''old_a'' ''old_'' ''new_'') ''new_'' ''old_'' = ''old_a'' \<and>
   transformKey ''old_b'' ''old_'' ''new_'' = transformKey ''new_b'' ''old_'' ''new_''"
proof -
  note r = renaming_is_reversible[of "''new_''" "''old_''"]
  have "\<not> has_prefix ''old_a'' ''new_''" by simp
  with r have a: "transformKey (transformKey ''old_a'' ''old_'' ''new_'') ''new_'' ''old_'' = ''old_a''"
    by blast
  have "\<not> has_prefix (''new_'' @ ''b'') ''old_''" by simp
  with r have "transformKey (''old_'' @ ''b'') ''old_'' ''new_'' = transformKey (''new_'' @ ''b'') ''old_'' ''new_''"
    by blast
  with a show ?thesis by simp
qed

end
