(* ===== verification/Error_Properties.thy ===== *)
theory Error_Properties
  imports Instances Redis_Failures
begin

text \<open>
  What errors of a database do to the map above it, where the code answers them with the reply for an
  absent key.
\<close>

section \<open>The overwrite guard\<close>

text \<open>A Load that says absent lets a Store through, whether the map may overwrite or not.\<close>

lemma Map_Store_unseen:
  assumes "op_Load ops s k = Ret (x, False)"
  shows "Map_Store ops \<lparr>mm_storage = s, mm_allowOverwrite = False\<rparr> k v =
    obind (Map_Store ops \<lparr>mm_storage = s, mm_allowOverwrite = True\<rparr> k v)
      (\<lambda>m. Ret (m\<lparr>mm_allowOverwrite := False\<rparr>))"
  using assms by (cases "op_Store ops s k v") (simp_all add: Map_Store_def set_storage_def)

text \<open>
  C31. A map that must not overwrite overwrites a present entry when reading it fails: after an SQL
  error, a BadgerDB error, or when the stored bytes do not decode, Store does exactly what it does
  on a map that may overwrite.
\<close>

theorem failed_read_disables_overwrite_guard:
  assumes "key_marshal kc k = Inr kb"
    and "sq_query_row sapi (sl_db s) (load_sql (tableName s)) [kb] = Inl (SqlErr esql)"
    and "bd_view bapi (bg_db b) = Some ebadger \<or> bd_get bapi (bg_db b) kb = Inl ebadger \<or>
      bd_get bapi (bg_db b) kb = Inr (Inl ebadger)"
    and "op_Load ops st k = Ret (data, True)" "msgpackDecodeValue cd reg data = Ret (Inl edec)"
    and "sops = adapter_ops cd (sqlite_ops kc sapi zk clk)" "bops = adapter_ops cd (badger_ops kc bapi zk)"
    and "aops = adapter_ops cd ops"
  shows "Map_Store sops \<lparr>mm_storage = \<lparr>ad_storage = s, ad_registry = reg\<rparr>, mm_allowOverwrite = False\<rparr> k v =
      obind (Map_Store sops \<lparr>mm_storage = \<lparr>ad_storage = s, ad_registry = reg\<rparr>, mm_allowOverwrite = True\<rparr> k v)
        (\<lambda>m. Ret (m\<lparr>mm_allowOverwrite := False\<rparr>)) \<and>
    Map_Store bops \<lparr>mm_storage = \<lparr>ad_storage = b, ad_registry = reg\<rparr>, mm_allowOverwrite = False\<rparr> k v =
      obind (Map_Store bops \<lparr>mm_storage = \<lparr>ad_storage = b, ad_registry = reg\<rparr>, mm_allowOverwrite = True\<rparr> k v)
        (\<lambda>m. Ret (m\<lparr>mm_allowOverwrite := False\<rparr>)) \<and>
    Map_Store aops \<lparr>mm_storage = \<lparr>ad_storage = st, ad_registry = reg\<rparr>, mm_allowOverwrite = False\<rparr> k v =
      obind (Map_Store aops \<lparr>mm_storage = \<lparr>ad_storage = st, ad_registry = reg\<rparr>, mm_allowOverwrite = True\<rparr> k v)
        (\<lambda>m. Ret (m\<lparr>mm_allowOverwrite := False\<rparr>))"
proof (intro conjI)
  have "op_Load sops \<lparr>ad_storage = s, ad_registry = reg\<rparr> k = Ret (cd_zero cd, False)"
    using assms(1,2) by (simp add: assms(6) adapter_ops_def adapter_Load_def sqlite_ops_def sqlite_Load_def)
  then show "Map_Store sops \<lparr>mm_storage = \<lparr>ad_storage = s, ad_registry = reg\<rparr>, mm_allowOverwrite = False\<rparr> k v =
      obind (Map_Store sops \<lparr>mm_storage = \<lparr>ad_storage = s, ad_registry = reg\<rparr>, mm_allowOverwrite = True\<rparr> k v)
        (\<lambda>m. Ret (m\<lparr>mm_allowOverwrite := False\<rparr>))" by (rule Map_Store_unseen)
  have "op_Load bops \<lparr>ad_storage = b, ad_registry = reg\<rparr> k = Ret (cd_zero cd, False)"
    using assms(1,3) by (auto simp: assms(7) adapter_ops_def adapter_Load_def badger_ops_def badger_Load_def
        split: option.splits)
  then show "Map_Store bops \<lparr>mm_storage = \<lparr>ad_storage = b, ad_registry = reg\<rparr>, mm_allowOverwrite = False\<rparr> k v =
      obind (Map_Store bops \<lparr>mm_storage = \<lparr>ad_storage = b, ad_registry = reg\<rparr>, mm_allowOverwrite = True\<rparr> k v)
        (\<lambda>m. Ret (m\<lparr>mm_allowOverwrite := False\<rparr>))" by (rule Map_Store_unseen)
  have "op_Load aops \<lparr>ad_storage = st, ad_registry = reg\<rparr> k = Ret (cd_zero cd, False)"
    using assms(4,5) by (simp add: assms(8) adapter_ops_def adapter_Load_def)
  then show "Map_Store aops \<lparr>mm_storage = \<lparr>ad_storage = st, ad_registry = reg\<rparr>, mm_allowOverwrite = False\<rparr> k v =
      obind (Map_Store aops \<lparr>mm_storage = \<lparr>ad_storage = st, ad_registry = reg\<rparr>, mm_allowOverwrite = True\<rparr> k v)
        (\<lambda>m. Ret (m\<lparr>mm_allowOverwrite := False\<rparr>))" by (rule Map_Store_unseen)
qed

text \<open>A database that holds an entry and cannot read it.\<close>

definition unreadable_badger :: "entries badger_api" where
  "unreadable_badger = list_badger\<lparr>bd_get := (\<lambda>db k. Inr (Inl ''checksum mismatch''))\<rparr>"

definition unreadable_sqlite :: "(entries, entries) sqlite_api" where
  "unreadable_sqlite = list_sqlite\<lparr>sq_query_row := (\<lambda>db q args. Inl (SqlErr ''disk I/O error''))\<rparr>"

definition unreadable_ops :: "(entries badger adapter, string, nat goval, unit) storage_ops" where
  "unreadable_ops = adapter_ops any_codec (badger_ops str_keys unreadable_badger [])"

theorem failed_read_disables_overwrite_guard_witness:
  "Map_Store unreadable_ops \<lparr>mm_storage = \<lparr>ad_storage = \<lparr>bg_db = [(''b'', ''?'')], bg_len = 1,
        bg_initLenCall = True\<rparr>, ad_registry = Map.empty\<rparr>, mm_allowOverwrite = False\<rparr> ''b'' (GStr ''new'') =
    obind (Map_Store unreadable_ops \<lparr>mm_storage = \<lparr>ad_storage = \<lparr>bg_db = [(''b'', ''?'')], bg_len = 1,
        bg_initLenCall = True\<rparr>, ad_registry = Map.empty\<rparr>, mm_allowOverwrite = True\<rparr> ''b'' (GStr ''new''))
      (\<lambda>m. Ret (m\<lparr>mm_allowOverwrite := False\<rparr>))"
proof -
  have k: "key_marshal str_keys ''b'' = Inr ''b''" by (simp add: str_keys_def)
  have s: "sq_query_row unreadable_sqlite (sl_db \<lparr>sl_db = [], countCache = -1, lastCount = None,
      tableName = ''t'', cacheDuration = 0\<rparr>) q a = Inl (SqlErr ''disk I/O error'')" for q a
    by (simp add: unreadable_sqlite_def)
  have b: "bd_view unreadable_badger db = Some e \<or> bd_get unreadable_badger db kb = Inl e \<or>
      bd_get unreadable_badger db kb = Inr (Inl ''checksum mismatch'')" for db kb e
    by (simp add: unreadable_badger_def)
  have l: "op_Load (default_ops [] rev) \<lparr>default_data = [(''b'', ''?'')]\<rparr> ''b'' = Ret (''?'', True)"
    by (simp add: default_ops_def default_Load_def go_index_map_def)
  have d: "msgpackDecodeValue any_codec Map.empty ''?'' =
      Ret (Inl ''failed to msgpack decode value: invalid code'')"
    by (simp add: msgpackDecodeValue_def any_codec_def toy_mp_def)
  note w = failed_read_disables_overwrite_guard[OF k s _ l d refl unreadable_ops_def refl,
      where b = "\<lparr>bg_db = [(''b'', ''?'')], bg_len = 1, bg_initLenCall = True\<rparr>"
        and ebadger = "''checksum mismatch''" and v = "GStr ''new''"]
  show ?thesis by (rule conjunct1[OF conjunct2[OF w]]) (simp add: b)
qed

section \<open>Redis\<close>

text \<open>
  C5. The Redis storage never turns an error into a reply: when the client fails at any commands of
  any calls, with errors other than \<open>redis.Nil\<close>, the sequence of calls panics, or it returns
  replies that are those of the specification; it never hangs.
\<close>

theorem redis_failures_never_answered:
  assumes "redis_once kc api up dbmap fit p s" "redis_abs kc dbmap fit p s = Map.empty"
    and "msgpack_ok (cd_mp cd) gen plain" "registry_ok T reg"
    and m: "New allow [newMsgpackAdapter s reg] = Inr m"
    and bad: "\<forall>e. redis_api_le (bad e) api"
    and c: "\<forall>(e, c) \<in> set cs. call_ok (redis_kok kc fit p) (adapter_vok cd plain T fit) c"
  shows "(\<exists>err. map_run (\<lambda>e. adapter_ops cd (redis_ops kc (bad e) zk)) m cs = Panic err) \<or>
    (\<exists>rs m'. map_run (\<lambda>e. adapter_ops cd (redis_ops kc (bad e) zk)) m cs = Ret (rs, m') \<and>
       spec_run zk (cd_zero cd) allow Map.empty (map snd cs) rs
         (adapter_abs cd (redis_abs kc dbmap fit p) (mm_storage m')))"
proof -
  let ?inv = "redis_once kc api up dbmap fit p" and ?abs = "redis_abs kc dbmap fit p"
  have m: "mm_storage m = newMsgpackAdapter s reg" "mm_allowOverwrite m = allow" using m by auto
  note f = adapter_fresh[where sinv = ?inv and amap = ?abs, OF assms(3,4,1,2)]
  have i: "adapter_inv cd gen plain T fit ?inv ?abs (mm_storage m)"
    and a: "adapter_abs cd ?abs (mm_storage m) = Map.empty"
    unfolding m by (rule f)+
  let ?run = "\<lambda>f cs. map_run (\<lambda>e. adapter_ops cd (redis_ops kc (f e) zk)) m cs"
  have le: "same_or_panic (?run bad cs) (?run (\<lambda>_. api) cs)"
    by (intro map_run_le adapter_ops_le redis_ops_le) (use bad in blast)
  have c: "\<forall>(e, c) \<in> set cs. True \<and> call_ok (redis_kok kc fit p) (adapter_vok cd plain T fit) c"
    using c by simp
  from redis_map.map_run_refines[OF c i, of zk]
  obtain rs m' where "?run (\<lambda>_. api) cs = Ret (rs, m')"
    "spec_run zk (cd_zero cd) allow Map.empty (map snd cs) rs (adapter_abs cd ?abs (mm_storage m'))"
    unfolding a m(2) by auto
  with le show ?thesis unfolding same_or_panic_def by auto
qed

text \<open>Calls marked with \<open>True\<close> find a server that does not answer reads in time.\<close>

definition flaky_redis :: "bool \<Rightarrow> entries redis_api" where
  "flaky_redis slow =
     (if slow then list_redis\<lparr>rd_get := \<lambda>_ _. Inl (RedisErr ''i/o timeout'')\<rparr> else list_redis)"

theorem redis_failures_never_answered_witness:
  "(\<exists>err. map_run (\<lambda>slow. adapter_ops any_codec (redis_ops str_keys (flaky_redis slow) []))
      \<lparr>mm_storage = newMsgpackAdapter empty_redis Map.empty, mm_allowOverwrite = True\<rparr>
      [(True, CStore ''a'' (GStr ''x'')), (True, CLoad ''b''), (False, CLen)] = Panic err) \<or>
    (\<exists>rs m'. map_run (\<lambda>slow. adapter_ops any_codec (redis_ops str_keys (flaky_redis slow) []))
      \<lparr>mm_storage = newMsgpackAdapter empty_redis Map.empty, mm_allowOverwrite = True\<rparr>
      [(True, CStore ''a'' (GStr ''x'')), (True, CLoad ''b''), (False, CLen)] = Ret (rs, m') \<and>
       spec_run [] (cd_zero any_codec) True Map.empty [CStore ''a'' (GStr ''x''), CLoad ''b'', CLen] rs
         (adapter_abs any_codec (redis_abs str_keys map_of (\<lambda>_. True) ''mightymap_'') (mm_storage m')))"
proof -
  have s: "redis_once str_keys list_redis gomap_ok map_of (\<lambda>_. True) ''mightymap_'' empty_redis"
    using list_redis_once empty_redis_inv by blast
  have n: "New True [newMsgpackAdapter empty_redis Map.empty] =
      Inr \<lparr>mm_storage = newMsgpackAdapter empty_redis Map.empty, mm_allowOverwrite = True\<rparr>"
    by simp
  have mp: "msgpack_ok (cd_mp any_codec) toy_gen toy_values" by (simp only: int_codec_mp toy_mp_ok)
  have bad: "\<forall>slow. redis_api_le (flaky_redis slow) list_redis"
    by (simp add: redis_api_le_def flaky_redis_def)
  have c: "\<forall>(e, c) \<in> set [(True, CStore ''a'' (GStr ''x'')), (True, CLoad ''b''), (False, CLen)].
      call_ok (redis_kok str_keys (\<lambda>_. True) ''mightymap_'')
        (adapter_vok any_codec toy_values toy_types (\<lambda>_. True)) c" by simp
  from redis_failures_never_answered[OF s empty_redis_abs mp toy_registry_ok n bad c]
  show ?thesis unfolding list.map prod.sel .
qed

end
