(* ===== verification/Config_Files.thy ===== *)
theory Config_Files
  imports Migration_Core
begin

text \<open>
  What the programs under \<open>cmd/\<close> do around a migration: the command line, the configuration file,
  the context with its deadline, and the final report. The file system is modelled with the errors
  that the environment may give as functions of the path; the YAML library (gopkg.in/yaml.v3) is a
  parameter that sees a configuration as Go's reflection shows it: the tagged fields of the struct,
  with the value each holds. A file's content has the type \<open>'d\<close>, which is \<open>[]byte\<close> in the code.
\<close>

section \<open>The command line\<close>

record flags =
  fl_configFile :: string
  fl_dryRun :: bool
  fl_verbose :: bool

section \<open>Files\<close>

record 'd files =
  fs_content :: "string \<rightharpoonup> 'd"
  fs_stat_err :: "string \<Rightarrow> err option"
  fs_read_err :: "string \<Rightarrow> err option"
  fs_write_err :: "string \<Rightarrow> err option"

text \<open>The error of \<open>os.Stat\<close>, as far as \<open>os.IsNotExist\<close> looks at it.\<close>

datatype stat_result = StatOk | StatNotExist | StatError err

definition os_Stat :: "'d files \<Rightarrow> string \<Rightarrow> stat_result" where
  "os_Stat fs path =
     (case fs_stat_err fs path of
        Some e \<Rightarrow> StatError e
      | None \<Rightarrow> if fs_content fs path = None then StatNotExist else StatOk)"

definition os_ReadFile :: "'d files \<Rightarrow> string \<Rightarrow> err + 'd" where
  "os_ReadFile fs path =
     (case fs_read_err fs path of
        Some e \<Rightarrow> Inl e
      | None \<Rightarrow>
          (case fs_content fs path of
             None \<Rightarrow> Inl (''open '' @ path @ '': no such file or directory'')
           | Some d \<Rightarrow> Inr d))"

definition os_WriteFile :: "'d files \<Rightarrow> string \<Rightarrow> 'd \<Rightarrow> err option \<times> 'd files" where
  "os_WriteFile fs path d =
     (case fs_write_err fs path of
        Some e \<Rightarrow> (Some e, fs)
      | None \<Rightarrow> (None, fs\<lparr>fs_content := (fs_content fs)(path \<mapsto> d)\<rparr>))"

text \<open>A path that the program may use freely.\<close>

definition accessible :: "'d files \<Rightarrow> string \<Rightarrow> bool" where
  "accessible fs path \<longleftrightarrow>
     fs_stat_err fs path = None \<and> fs_read_err fs path = None \<and> fs_write_err fs path = None"

lemmas os_defs = os_Stat_def os_ReadFile_def os_WriteFile_def accessible_def

section \<open>YAML\<close>

text \<open>A struct as the list of its fields, each with the path of its tags and its value.\<close>

datatype yaml_value = YString string | YInt int | YBool bool | YDuration int

type_synonym yaml_struct = "(string \<times> yaml_value) list"

record 'd yaml =
  ya_Marshal :: "yaml_struct \<Rightarrow> err + 'd"
  ya_Unmarshal :: "'d \<Rightarrow> yaml_struct \<Rightarrow> err + yaml_struct"

fun same_kind :: "yaml_value \<Rightarrow> yaml_value \<Rightarrow> bool" where
  "same_kind (YString _) (YString _) = True"
| "same_kind (YInt _) (YInt _) = True"
| "same_kind (YBool _) (YBool _) = True"
| "same_kind (YDuration _) (YDuration _) = True"
| "same_kind _ _ = False"

definition same_fields :: "yaml_struct \<Rightarrow> yaml_struct \<Rightarrow> bool" where
  "same_fields = list_all2 (\<lambda>(t, v) (t', v'). t = t' \<and> same_kind v v')"

text \<open>What a struct is marshalled to is unmarshalled to the same values, over any values before.\<close>

definition yaml_ok :: "'d yaml \<Rightarrow> bool" where
  "yaml_ok y \<longleftrightarrow>
     (\<forall>s s0 d. ya_Marshal y s = Inr d \<longrightarrow> same_fields s0 s \<longrightarrow> ya_Unmarshal y d s0 = Inr s)"

fun field_string :: "yaml_struct \<Rightarrow> string \<Rightarrow> string" where
  "field_string s tag = (case map_of s tag of Some (YString x) \<Rightarrow> x | _ \<Rightarrow> '''')"
fun field_int :: "yaml_struct \<Rightarrow> string \<Rightarrow> int" where
  "field_int s tag = (case map_of s tag of Some (YInt x) \<Rightarrow> x | _ \<Rightarrow> 0)"
fun field_bool :: "yaml_struct \<Rightarrow> string \<Rightarrow> bool" where
  "field_bool s tag = (case map_of s tag of Some (YBool x) \<Rightarrow> x | _ \<Rightarrow> False)"
fun field_duration :: "yaml_struct \<Rightarrow> string \<Rightarrow> int" where
  "field_duration s tag = (case map_of s tag of Some (YDuration x) \<Rightarrow> x | _ \<Rightarrow> 0)"

section \<open>Loading and saving\<close>

text \<open>
  A missing file is created with the default configuration; what follows is \<open>created\<close>: the two
  migration programs end with a status, the template goes on with the default.
\<close>

datatype 'c loaded = Loaded 'c | LoadFailed err | LoadExit int

definition save_config ::
  "'d yaml \<Rightarrow> ('c \<Rightarrow> yaml_struct) \<Rightarrow> 'd files \<Rightarrow> 'c \<Rightarrow> string \<Rightarrow> err option \<times> 'd files" where
  "save_config y to_fields fs config path =
     (case ya_Marshal y (to_fields config) of
        Inl e \<Rightarrow> (Some e, fs)
      | Inr d \<Rightarrow> os_WriteFile fs path d)"

definition load_config ::
  "'d yaml \<Rightarrow> ('c \<Rightarrow> yaml_struct) \<Rightarrow> (yaml_struct \<Rightarrow> 'c) \<Rightarrow> 'c \<Rightarrow> 'c \<Rightarrow> 'c loaded \<Rightarrow>
    'd files \<Rightarrow> string \<Rightarrow> 'c loaded \<times> 'd files" where
  "load_config y to_fields of_fields zero default_config created fs path =
     (if os_Stat fs path = StatNotExist
      then (case save_config y to_fields fs default_config path of
              (Some e, fs') \<Rightarrow> (LoadFailed (''failed to create default config: '' @ e), fs')
            | (None, fs') \<Rightarrow> (created, fs'))
      else (case os_ReadFile fs path of
              Inl e \<Rightarrow> (LoadFailed e, fs)
            | Inr d \<Rightarrow>
                (case ya_Unmarshal y d (to_fields zero) of
                   Inl e \<Rightarrow> (LoadFailed e, fs)
                 | Inr s \<Rightarrow> (Loaded (of_fields s), fs))))"

text \<open>
  What loading relies on from a configuration's fields: their tags tell them apart, so that the
  struct is determined by them, and every value of the type has the same ones.
\<close>

locale tagged_struct =
  fixes to_fields :: "'c \<Rightarrow> yaml_struct" and of_fields :: "yaml_struct \<Rightarrow> 'c"
  assumes of_fields: "of_fields (to_fields c) = c"
    and same_fields: "same_fields (to_fields c) (to_fields c')"
begin

lemma load_saved:
  assumes "yaml_ok y" "accessible fs path" "fs_content fs path = Some d"
    and "ya_Marshal y (to_fields config) = Inr d"
  shows "load_config y to_fields of_fields zero default_config created fs path = (Loaded config, fs)"
proof -
  have "ya_Unmarshal y d (to_fields zero) = Inr (to_fields config)"
    using assms(1,4) same_fields unfolding yaml_ok_def by blast
  with assms(2,3) show ?thesis by (simp add: load_config_def os_defs of_fields)
qed

lemma load_missing:
  assumes "accessible fs path" "fs_content fs path = None"
    and "ya_Marshal y (to_fields default_config) = Inr d"
  shows "load_config y to_fields of_fields zero default_config created fs path =
    (created, fs\<lparr>fs_content := (fs_content fs)(path \<mapsto> d)\<rparr>)"
  using assms by (simp add: load_config_def save_config_def os_defs)

text \<open>The first run creates the file, the next one reads the default configuration from it.\<close>

lemma load_twice:
  assumes "yaml_ok y" "accessible fs path" "fs_content fs path = None"
    and "ya_Marshal y (to_fields default_config) = Inr d"
  shows "\<exists>fs'. load_config y to_fields of_fields zero default_config created fs path = (created, fs') \<and>
    load_config y to_fields of_fields zero default_config created fs' path = (Loaded default_config, fs')"
proof -
  let ?fs = "fs\<lparr>fs_content := (fs_content fs)(path \<mapsto> d)\<rparr>"
  have "accessible ?fs path" "fs_content ?fs path = Some d"
    using assms(2) by (simp_all add: accessible_def)
  from load_missing[OF assms(2-4)] load_saved[OF assms(1) this assms(4)] show ?thesis by blast
qed

text \<open>Whatever happens, only the configuration file is written, and only if it was missing.\<close>

lemma load_frame:
  assumes "load_config y to_fields of_fields zero default_config created fs path = (r, fs')"
  shows "fs' = fs \<or> fs_content fs path = None \<and>
    (\<exists>d. fs' = fs\<lparr>fs_content := (fs_content fs)(path \<mapsto> d)\<rparr>)"
  using assms
  by (auto simp: load_config_def save_config_def os_defs split: if_splits option.splits sum.splits prod.splits)

end

section \<open>The context\<close>

text \<open>
  \<open>context.WithTimeout\<close> for a positive timeout: done from the deadline on, by the clock at the test
  after the n-th key (0: when the context is made).
\<close>

definition migration_context :: "int \<Rightarrow> (int \<Rightarrow> int) \<Rightarrow> int \<Rightarrow> bool" where
  "migration_context timeout clock n \<longleftrightarrow> timeout > 0 \<and> clock 0 + timeout \<le> clock n"

section \<open>The report\<close>

text \<open>
  The lines on standard output, without their pictographs. How Go prints a duration, and the
  quotient of a number of keys and a duration, is left to the constructors.
\<close>

datatype report_line = Text string | DurationLine string int | RateLine int int

definition printStats :: "migration_stats \<Rightarrow> bool \<Rightarrow> report_line list" where
  "printStats stats dry =
     (let duration = EndTime stats - StartTime stats in
      [Text '''', Text ''Migration Statistics'', Text ''====================='',
       Text (''Total Keys:     '' @ go_itoa (TotalKeys stats)),
       Text (''Migrated:       '' @ go_itoa (MigratedKeys stats)),
       Text (''Skipped:        '' @ go_itoa (SkippedKeys stats)),
       Text (''Errors:         '' @ go_itoa (ErrorKeys stats)),
       DurationLine ''Duration:       '' duration] @
      (if TotalKeys stats > 0 then [RateLine (TotalKeys stats) duration] else []) @
      (if length (Errors stats) > 0
       then [Text '''', Text ''Errors:''] @ map Text (printStats_errors stats) else []) @
      [Text '''',
       Text (if dry then ''Dry run completed. Use --dry-run=false to perform actual migration.''
             else ''Migration completed successfully!'')])"

text \<open>How \<open>main\<close> ends, if it does not panic: with a status, with a message of \<open>log.Fatalf\<close>, or after its report.\<close>

datatype 'r program_end = Exit int | Fatal string | Finished 'r

end
