(* ===== verification/Badger_Program.thy ===== *)
theory Badger_Program
  imports Migrate_Badger Config_Files
begin

text \<open>
  The rest of \<open>cmd/migrate-badger/main.go\<close>: the configuration file, the legacy map, and \<open>main\<close>. The
  legacy library (github.com/thisisdevelopment/mightymap-legacy) is not under \<open>src/\<close>: it is a
  function from the options the program passes to it to the Range of the map it opens.
\<close>

section \<open>The configuration file\<close>

text \<open>The struct tags; a nested struct's fields have the outer field's tag in front.\<close>

definition badger_store_fields :: "string \<Rightarrow> badger_config \<Rightarrow> yaml_struct" where
  "badger_store_fields p c =
     [(p @ ''.dir'', YString (bc_Dir c)),
      (p @ ''.memory_storage'', YBool (bc_MemoryStorage c)),
      (p @ ''.compression'', YBool (bc_Compression c)),
      (p @ ''.num_compactors'', YInt (bc_NumCompactors c)),
      (p @ ''.num_versions_to_keep'', YInt (bc_NumVersionsToKeep c)),
      (p @ ''.index_cache_size'', YInt (bc_IndexCacheSize c)),
      (p @ ''.block_cache_size'', YInt (bc_BlockCacheSize c)),
      (p @ ''.block_size'', YInt (bc_BlockSize c)),
      (p @ ''.mem_table_size'', YInt (bc_MemTableSize c)),
      (p @ ''.value_threshold'', YInt (bc_ValueThreshold c)),
      (p @ ''.sync_writes'', YBool (bc_SyncWrites c)),
      (p @ ''.encryption_key'', YString (bc_EncryptionKey c)),
      (p @ ''.encryption_key_rotation'', YDuration (bc_EncryptionKeyRotation c))]"

definition badger_store_of :: "string \<Rightarrow> yaml_struct \<Rightarrow> badger_config" where
  "badger_store_of p s =
     \<lparr>bc_Dir = field_string s (p @ ''.dir''),
      bc_MemoryStorage = field_bool s (p @ ''.memory_storage''),
      bc_Compression = field_bool s (p @ ''.compression''),
      bc_NumCompactors = field_int s (p @ ''.num_compactors''),
      bc_NumVersionsToKeep = field_int s (p @ ''.num_versions_to_keep''),
      bc_IndexCacheSize = field_int s (p @ ''.index_cache_size''),
      bc_BlockCacheSize = field_int s (p @ ''.block_cache_size''),
      bc_BlockSize = field_int s (p @ ''.block_size''),
      bc_MemTableSize = field_int s (p @ ''.mem_table_size''),
      bc_ValueThreshold = field_int s (p @ ''.value_threshold''),
      bc_SyncWrites = field_bool s (p @ ''.sync_writes''),
      bc_EncryptionKey = field_string s (p @ ''.encryption_key''),
      bc_EncryptionKeyRotation = field_duration s (p @ ''.encryption_key_rotation'')\<rparr>"

definition migration_fields :: "migration_config \<Rightarrow> yaml_struct" where
  "migration_fields c =
     [(''migration.batch_size'', YInt (BatchSize c)),
      (''migration.log_interval'', YInt (LogInterval c)),
      (''migration.backup_original'', YBool (BackupOriginal c)),
      (''migration.timeout'', YDuration (Timeout c)),
      (''migration.key_pattern'', YString (KeyPattern c))]"

definition migration_of :: "yaml_struct \<Rightarrow> migration_config" where
  "migration_of s =
     \<lparr>BatchSize = field_int s ''migration.batch_size'',
      LogInterval = field_int s ''migration.log_interval'',
      BackupOriginal = field_bool s ''migration.backup_original'',
      Timeout = field_duration s ''migration.timeout'',
      KeyPattern = field_string s ''migration.key_pattern''\<rparr>"

type_synonym badger_file = "(badger_config, migration_config) migrate_config"

definition badger_fields :: "badger_file \<Rightarrow> yaml_struct" where
  "badger_fields config =
     badger_store_fields ''source'' (cf_Source config) @
     badger_store_fields ''target'' (cf_Target config) @ migration_fields (cf_Migration config)"

definition badger_file_of :: "yaml_struct \<Rightarrow> badger_file" where
  "badger_file_of s =
     \<lparr>cf_Source = badger_store_of ''source'' s, cf_Target = badger_store_of ''target'' s,
      cf_Migration = migration_of s\<rparr>"

definition zero_badger_file :: badger_file where
  "zero_badger_file =
     \<lparr>cf_Source = zero_badger_config, cf_Target = zero_badger_config,
      cf_Migration = \<lparr>BatchSize = 0, LogInterval = 0, BackupOriginal = False, Timeout = 0, KeyPattern = ''''\<rparr>\<rparr>"

lemmas badger_fields_defs =
  badger_fields_def badger_store_fields_def migration_fields_def

interpretation badger_file: tagged_struct badger_fields badger_file_of
proof
  fix c c' :: badger_file
  show "badger_file_of (badger_fields c) = c"
    by (simp add: badger_fields_defs badger_file_of_def badger_store_of_def migration_of_def)
  show "same_fields (badger_fields c) (badger_fields c')"
    by (simp add: badger_fields_defs same_fields_def)
qed

definition badger_saveConfig :: "'d yaml \<Rightarrow> 'd files \<Rightarrow> badger_file \<Rightarrow> string \<Rightarrow> err option \<times> 'd files" where
  "badger_saveConfig y fs config path = save_config y badger_fields fs config path"

definition badger_loadConfig :: "'d yaml \<Rightarrow> 'd files \<Rightarrow> string \<Rightarrow> badger_file loaded \<times> 'd files" where
  "badger_loadConfig y fs path =
     load_config y badger_fields badger_file_of zero_badger_file createDefaultConfig (LoadExit 0) fs path"

section \<open>The legacy map\<close>

datatype legacy_badger_option =
    LegacyTempDir string
  | LegacyMemoryStorage bool
  | LegacyCompression bool
  | LegacyNumCompactors int
  | LegacyEncryptionKey string

definition legacyBadgerOpts :: "badger_config \<Rightarrow> legacy_badger_option list" where
  "legacyBadgerOpts config =
     (if bc_Dir config \<noteq> '''' then [LegacyTempDir (bc_Dir config)] else []) @
     [LegacyMemoryStorage (bc_MemoryStorage config), LegacyCompression (bc_Compression config)] @
     (if bc_NumCompactors config > 0 then [LegacyNumCompactors (bc_NumCompactors config)] else []) @
     (if bc_EncryptionKey config \<noteq> '''' then [LegacyEncryptionKey (bc_EncryptionKey config)] else [])"

definition createLegacyBadgerStorage ::
  "(legacy_badger_option list \<Rightarrow> 'range outcome) \<Rightarrow> badger_config \<Rightarrow> 'range outcome" where
  "createLegacyBadgerStorage lib config = lib (legacyBadgerOpts config)"

text \<open>A legacy option and the option of the same name of the new library.\<close>

fun as_new_badger :: "legacy_badger_option \<Rightarrow> ('f badgerOpts \<Rightarrow> 'f badgerOpts) outcome" where
  "as_new_badger (LegacyTempDir d) = Ret (WithTempDir d)"
| "as_new_badger (LegacyMemoryStorage b) = Ret (WithMemoryStorage b)"
| "as_new_badger (LegacyCompression b) = Ret (WithCompression b)"
| "as_new_badger (LegacyNumCompactors n) = Ret (WithNumCompactors n)"
| "as_new_badger (LegacyEncryptionKey k) = WithEncryptionKey k"

section \<open>main\<close>

definition badger_flags :: flags where
  "badger_flags = \<lparr>fl_configFile = ''migrate-badger.yaml'', fl_dryRun = False, fl_verbose = False\<rparr>"

text \<open>
  The whole program. \<open>runMigration\<close> never returns an error, so that branch of \<open>main\<close> is never
  taken. The result has the report and, for the theorems, the new map after it was closed.
\<close>

definition badger_main ::
  "'d yaml \<Rightarrow> 'd files \<Rightarrow> flags \<Rightarrow>
    (legacy_badger_option list \<Rightarrow>
      ((string, 'v, 'db badger adapter migration) callback \<Rightarrow> 'db badger adapter migration \<Rightarrow>
        'db badger adapter migration outcome) outcome) \<Rightarrow>
    (badger_options \<Rightarrow> err + 'db) \<Rightarrow> 'f badgerOpts \<Rightarrow> ('db badger adapter, string, 'v, 'c) storage_ops \<Rightarrow>
    (int \<Rightarrow> int) \<Rightarrow> (bool \<Rightarrow> int) \<Rightarrow>
    ((report_line list \<times> 'db badger adapter mightymap option) program_end \<times> 'd files) outcome" where
  "badger_main y fs fl lib opn defaults ops clock now =
     (case badger_loadConfig y fs (fl_configFile fl) of
        (LoadExit n, fs') \<Rightarrow> Ret (Exit n, fs')
      | (LoadFailed e, fs') \<Rightarrow> Ret (Fatal (''Failed to load config: '' @ e), fs')
      | (Loaded config, fs') \<Rightarrow>
          obind (badger_runMigration ops (createLegacyBadgerStorage lib)
                   (\<lambda>c. createNewBadgerStorage opn defaults c Map.empty) config
                   (fl_dryRun fl) (fl_verbose fl)
                   (migration_context (Timeout (cf_Migration config)) clock) now)
            (\<lambda>(stats, m). Ret (Finished (printStats stats (fl_dryRun fl), m), fs')))"

lemma badger_main_run:
  assumes "badger_loadConfig y fs (fl_configFile fl) = (Loaded config, fs')"
    and "badger_runMigration ops (createLegacyBadgerStorage lib)
      (\<lambda>c. createNewBadgerStorage opn defaults c Map.empty) config (fl_dryRun fl) (fl_verbose fl)
      (migration_context (Timeout (cf_Migration config)) clock) now = Ret (stats, m)"
  shows "badger_main y fs fl lib opn defaults ops clock now =
    Ret (Finished (printStats stats (fl_dryRun fl), m), fs')"
  using assms by (simp add: badger_main_def)

end
