(* ===== verification/Redis_Program.thy ===== *)
theory Redis_Program
  imports Migrate_Redis Config_Files
begin

text \<open>
  The rest of \<open>cmd/migrate-redis/main.go\<close>: the configuration file, the legacy map, and \<open>main\<close>, as in
  \<open>Badger_Program\<close>.
\<close>

section \<open>The configuration file\<close>

definition redis_store_fields :: "string \<Rightarrow> redis_config \<Rightarrow> yaml_struct" where
  "redis_store_fields p c =
     [(p @ ''.addr'', YString (rc_Addr c)),
      (p @ ''.username'', YString (rc_Username c)),
      (p @ ''.password'', YString (rc_Password c)),
      (p @ ''.db'', YInt (rc_DB c)),
      (p @ ''.pool_size'', YInt (rc_PoolSize c)),
      (p @ ''.max_retries'', YInt (rc_MaxRetries c)),
      (p @ ''.tls'', YBool (rc_TLS c)),
      (p @ ''.prefix'', YString (rc_Prefix c)),
      (p @ ''.timeout'', YDuration (rc_Timeout c)),
      (p @ ''.expire'', YDuration (rc_Expire c))]"

definition redis_store_of :: "string \<Rightarrow> yaml_struct \<Rightarrow> redis_config" where
  "redis_store_of p s =
     \<lparr>rc_Addr = field_string s (p @ ''.addr''),
      rc_Username = field_string s (p @ ''.username''),
      rc_Password = field_string s (p @ ''.password''),
      rc_DB = field_int s (p @ ''.db''),
      rc_PoolSize = field_int s (p @ ''.pool_size''),
      rc_MaxRetries = field_int s (p @ ''.max_retries''),
      rc_TLS = field_bool s (p @ ''.tls''),
      rc_Prefix = field_string s (p @ ''.prefix''),
      rc_Timeout = field_duration s (p @ ''.timeout''),
      rc_Expire = field_duration s (p @ ''.expire'')\<rparr>"

definition redis_migration_fields :: "redis_migration_config \<Rightarrow> yaml_struct" where
  "redis_migration_fields c =
     [(''migration.batch_size'', YInt (BatchSize c)),
      (''migration.log_interval'', YInt (LogInterval c)),
      (''migration.backup_original'', YBool (BackupOriginal c)),
      (''migration.timeout'', YDuration (Timeout c)),
      (''migration.key_pattern'', YString (KeyPattern c)),
      (''migration.source_prefix'', YString (SourcePrefix c)),
      (''migration.target_prefix'', YString (TargetPrefix c))]"

definition redis_migration_of :: "yaml_struct \<Rightarrow> redis_migration_config" where
  "redis_migration_of s =
     \<lparr>BatchSize = field_int s ''migration.batch_size'',
      LogInterval = field_int s ''migration.log_interval'',
      BackupOriginal = field_bool s ''migration.backup_original'',
      Timeout = field_duration s ''migration.timeout'',
      KeyPattern = field_string s ''migration.key_pattern'',
      SourcePrefix = field_string s ''migration.source_prefix'',
      TargetPrefix = field_string s ''migration.target_prefix''\<rparr>"

type_synonym redis_file = "(redis_config, redis_migration_config) migrate_config"

definition redis_fields :: "redis_file \<Rightarrow> yaml_struct" where
  "redis_fields config =
     redis_store_fields ''source'' (cf_Source config) @
     redis_store_fields ''target'' (cf_Target config) @ redis_migration_fields (cf_Migration config)"

definition redis_file_of :: "yaml_struct \<Rightarrow> redis_file" where
  "redis_file_of s =
     \<lparr>cf_Source = redis_store_of ''source'' s, cf_Target = redis_store_of ''target'' s,
      cf_Migration = redis_migration_of s\<rparr>"

definition zero_redis_config :: redis_config where
  "zero_redis_config =
     \<lparr>rc_Addr = '''', rc_Username = '''', rc_Password = '''', rc_DB = 0, rc_PoolSize = 0, rc_MaxRetries = 0, rc_TLS = False, rc_Prefix = '''', rc_Timeout = 0, rc_Expire = 0\<rparr>"

definition zero_redis_file :: redis_file where
  "zero_redis_file =
     \<lparr>cf_Source = zero_redis_config, cf_Target = zero_redis_config,
      cf_Migration = \<lparr>BatchSize = 0, LogInterval = 0, BackupOriginal = False, Timeout = 0,
        KeyPattern = '''', SourcePrefix = '''', TargetPrefix = ''''\<rparr>\<rparr>"

lemmas redis_fields_defs =
  redis_fields_def redis_store_fields_def redis_migration_fields_def

interpretation redis_file: tagged_struct redis_fields redis_file_of
proof
  fix c c' :: redis_file
  show "redis_file_of (redis_fields c) = c"
    by (simp add: redis_fields_defs redis_file_of_def redis_store_of_def redis_migration_of_def)
  show "same_fields (redis_fields c) (redis_fields c')"
    by (simp add: redis_fields_defs same_fields_def)
qed

definition redis_saveConfig :: "'d yaml \<Rightarrow> 'd files \<Rightarrow> redis_file \<Rightarrow> string \<Rightarrow> err option \<times> 'd files" where
  "redis_saveConfig y fs config path = save_config y redis_fields fs config path"

definition redis_loadConfig :: "'d yaml \<Rightarrow> 'd files \<Rightarrow> string \<Rightarrow> redis_file loaded \<times> 'd files" where
  "redis_loadConfig y fs path =
     load_config y redis_fields redis_file_of zero_redis_file createDefaultRedisConfig (LoadExit 0) fs path"

section \<open>The legacy map\<close>

datatype legacy_redis_option =
    LegacyAddr string
  | LegacyUsername string
  | LegacyPassword string
  | LegacyDB int
  | LegacyPoolSize int
  | LegacyMaxRetries int
  | LegacyTLS bool
  | LegacyPrefix string
  | LegacyTimeout int
  | LegacyExpire int

definition legacyRedisOpts :: "redis_config \<Rightarrow> legacy_redis_option list" where
  "legacyRedisOpts config =
     [LegacyAddr (rc_Addr config)] @
     (if rc_Username config \<noteq> '''' then [LegacyUsername (rc_Username config)] else []) @
     (if rc_Password config \<noteq> '''' then [LegacyPassword (rc_Password config)] else []) @
     [LegacyDB (rc_DB config)] @
     (if rc_PoolSize config > 0 then [LegacyPoolSize (rc_PoolSize config)] else []) @
     (if rc_MaxRetries config > 0 then [LegacyMaxRetries (rc_MaxRetries config)] else []) @
     [LegacyTLS (rc_TLS config)] @
     (if rc_Prefix config \<noteq> '''' then [LegacyPrefix (rc_Prefix config)] else []) @
     (if rc_Timeout config > 0 then [LegacyTimeout (rc_Timeout config)] else []) @
     (if rc_Expire config > 0 then [LegacyExpire (rc_Expire config)] else [])"

definition createLegacyRedisStorage ::
  "(legacy_redis_option list \<Rightarrow> 'range outcome) \<Rightarrow> redis_config \<Rightarrow> 'range outcome" where
  "createLegacyRedisStorage lib config = lib (legacyRedisOpts config)"

text \<open>A legacy option and the option of the same name of the new library.\<close>

fun as_new_redis :: "legacy_redis_option \<Rightarrow> ('t, 'm) redisOpts \<Rightarrow> ('t, 'm) redisOpts" where
  "as_new_redis (LegacyAddr a) = WithRedisAddr a"
| "as_new_redis (LegacyUsername u) = WithRedisUsername u"
| "as_new_redis (LegacyPassword p) = WithRedisPassword p"
| "as_new_redis (LegacyDB n) = WithRedisDB n"
| "as_new_redis (LegacyPoolSize n) = WithRedisPoolSize n"
| "as_new_redis (LegacyMaxRetries n) = WithRedisMaxRetries n"
| "as_new_redis (LegacyTLS b) = WithRedisTLS b"
| "as_new_redis (LegacyPrefix p) = WithRedisPrefix p"
| "as_new_redis (LegacyTimeout d) = WithRedisTimeout d"
| "as_new_redis (LegacyExpire d) = WithRedisExpire d"

section \<open>main\<close>

definition redis_printStats :: "redis_migration_stats \<Rightarrow> bool \<Rightarrow> report_line list" where
  "redis_printStats stats dry =
     (let duration = EndTime stats - StartTime stats in
      [Text '''', Text ''Migration Statistics'', Text ''====================='',
       Text (''Total Keys:     '' @ go_itoa (TotalKeys stats)),
       Text (''Migrated:       '' @ go_itoa (MigratedKeys stats)),
       Text (''Skipped:        '' @ go_itoa (SkippedKeys stats)),
       Text (''Errors:         '' @ go_itoa (ErrorKeys stats)),
       DurationLine ''Duration:       '' duration] @
      (if TotalKeys stats > 0 then [RateLine (TotalKeys stats) duration] else []) @
      (if length (Errors stats) > 0
       then [Text '''', Text ''Errors:''] @ map Text (printStats_errors stats) else []) @
      [Text '''',
       Text (if dry then ''Dry run completed. Use --dry-run=false to perform actual migration.''
             else ''Migration completed successfully!'')])"

lemma redis_printStats_same [simp]: "redis_printStats = printStats"
  by (simp add: fun_eq_iff redis_printStats_def printStats_def)

definition redis_flags :: flags where
  "redis_flags = \<lparr>fl_configFile = ''migrate-redis.yaml'', fl_dryRun = False, fl_verbose = False\<rparr>"

definition redis_main ::
  "'d yaml \<Rightarrow> 'd files \<Rightarrow> flags \<Rightarrow>
    (legacy_redis_option list \<Rightarrow>
      ((string, 'v, ('db, 't, 'm) redis adapter migration) callback \<Rightarrow>
        ('db, 't, 'm) redis adapter migration \<Rightarrow>
        ('db, 't, 'm) redis adapter migration outcome) outcome) \<Rightarrow>
    ('t redis_client_options \<Rightarrow> 'db) \<Rightarrow> ('m \<Rightarrow> string) \<Rightarrow> 't \<Rightarrow>
    (('db, 't, 'm) redis adapter, string, 'v, 'c) storage_ops \<Rightarrow> (int \<Rightarrow> int) \<Rightarrow> (bool \<Rightarrow> int) \<Rightarrow>
    ((report_line list \<times> ('db, 't, 'm) redis adapter mightymap option) program_end \<times> 'd files) outcome"
where
  "redis_main y fs fl lib new_client runT empty_tls ops clock now =
     (case redis_loadConfig y fs (fl_configFile fl) of
        (LoadExit n, fs') \<Rightarrow> Ret (Exit n, fs')
      | (LoadFailed e, fs') \<Rightarrow> Ret (Fatal (''Failed to load config: '' @ e), fs')
      | (Loaded config, fs') \<Rightarrow>
          obind (redis_runMigration ops (createLegacyRedisStorage lib)
                   (\<lambda>c. createNewRedisStorage new_client runT empty_tls c Map.empty) config
                   (fl_dryRun fl) (fl_verbose fl)
                   (migration_context (Timeout (cf_Migration config)) clock) now)
            (\<lambda>(stats, m). Ret (Finished (redis_printStats stats (fl_dryRun fl), m), fs')))"

lemma redis_main_run:
  assumes "redis_loadConfig y fs (fl_configFile fl) = (Loaded config, fs')"
    and "redis_runMigration ops (createLegacyRedisStorage lib)
      (\<lambda>c. createNewRedisStorage new_client runT empty_tls c Map.empty) config (fl_dryRun fl)
      (fl_verbose fl) (migration_context (Timeout (cf_Migration config)) clock) now = Ret (stats, m)"
  shows "redis_main y fs fl lib new_client runT empty_tls ops clock now =
    Ret (Finished (printStats stats (fl_dryRun fl), m), fs')"
  using assms by (simp add: redis_main_def)

end
