(* ===== verification/Simple_Template.thy ===== *)
theory Simple_Template
  imports Config_Files
begin

text \<open>
  \<open>cmd/migrate-badger/main_simple.go\<close>: a template that shows its settings and migrates nothing. It
  shares its package, and the names of most of its declarations, with \<open>main.go\<close> beside it; here
  each has a name of its own.
\<close>

section \<open>Configuration\<close>

record simple_badger_config =
  sc_Dir :: string
  sc_MemoryStorage :: bool
  sc_Compression :: bool
  sc_EncryptionKey :: string

record simple_migration_config =
  sm_BatchSize :: int
  sm_LogInterval :: int
  sm_Timeout :: int
  sm_KeyPattern :: string

type_synonym simple_file = "(simple_badger_config, simple_migration_config) migrate_config"

definition simple_store_fields :: "string \<Rightarrow> simple_badger_config \<Rightarrow> yaml_struct" where
  "simple_store_fields p c =
     [(p @ ''.dir'', YString (sc_Dir c)),
      (p @ ''.memory_storage'', YBool (sc_MemoryStorage c)),
      (p @ ''.compression'', YBool (sc_Compression c)),
      (p @ ''.encryption_key'', YString (sc_EncryptionKey c))]"

definition simple_store_of :: "string \<Rightarrow> yaml_struct \<Rightarrow> simple_badger_config" where
  "simple_store_of p s =
     \<lparr>sc_Dir = field_string s (p @ ''.dir''),
      sc_MemoryStorage = field_bool s (p @ ''.memory_storage''),
      sc_Compression = field_bool s (p @ ''.compression''),
      sc_EncryptionKey = field_string s (p @ ''.encryption_key'')\<rparr>"

definition simple_migration_fields :: "simple_migration_config \<Rightarrow> yaml_struct" where
  "simple_migration_fields c =
     [(''migration.batch_size'', YInt (sm_BatchSize c)),
      (''migration.log_interval'', YInt (sm_LogInterval c)),
      (''migration.timeout'', YDuration (sm_Timeout c)),
      (''migration.key_pattern'', YString (sm_KeyPattern c))]"

definition simple_migration_of :: "yaml_struct \<Rightarrow> simple_migration_config" where
  "simple_migration_of s =
     \<lparr>sm_BatchSize = field_int s ''migration.batch_size'',
      sm_LogInterval = field_int s ''migration.log_interval'',
      sm_Timeout = field_duration s ''migration.timeout'',
      sm_KeyPattern = field_string s ''migration.key_pattern''\<rparr>"

definition simple_fields :: "simple_file \<Rightarrow> yaml_struct" where
  "simple_fields config =
     simple_store_fields ''source'' (cf_Source config) @
     simple_store_fields ''target'' (cf_Target config) @ simple_migration_fields (cf_Migration config)"

definition simple_file_of :: "yaml_struct \<Rightarrow> simple_file" where
  "simple_file_of s =
     \<lparr>cf_Source = simple_store_of ''source'' s, cf_Target = simple_store_of ''target'' s,
      cf_Migration = simple_migration_of s\<rparr>"

definition zero_simple_config :: simple_badger_config where
  "zero_simple_config =
     \<lparr>sc_Dir = '''', sc_MemoryStorage = False, sc_Compression = False, sc_EncryptionKey = ''''\<rparr>"

definition zero_simple_file :: simple_file where
  "zero_simple_file =
     \<lparr>cf_Source = zero_simple_config, cf_Target = zero_simple_config,
      cf_Migration = \<lparr>sm_BatchSize = 0, sm_LogInterval = 0, sm_Timeout = 0, sm_KeyPattern = ''''\<rparr>\<rparr>"

definition simple_default_config :: simple_file where
  "simple_default_config =
     \<lparr>cf_Source = zero_simple_config\<lparr>sc_Dir := ''./data/badger-legacy'', sc_Compression := False\<rparr>,
      cf_Target = zero_simple_config\<lparr>sc_Dir := ''./data/badger-migrated'', sc_Compression := True\<rparr>,
      cf_Migration = \<lparr>sm_BatchSize = 1000, sm_LogInterval = 100, sm_Timeout = 30 * 60 * 1000000000,
        sm_KeyPattern = ''*''\<rparr>\<rparr>"

interpretation simple_file: tagged_struct simple_fields simple_file_of
proof
  fix c c' :: simple_file
  show "simple_file_of (simple_fields c) = c"
    by (simp add: simple_fields_def simple_store_fields_def simple_migration_fields_def
        simple_file_of_def simple_store_of_def simple_migration_of_def)
  show "same_fields (simple_fields c) (simple_fields c')"
    by (simp add: simple_fields_def simple_store_fields_def simple_migration_fields_def same_fields_def)
qed

definition simple_saveConfig :: "'d yaml \<Rightarrow> 'd files \<Rightarrow> simple_file \<Rightarrow> string \<Rightarrow> err option \<times> 'd files" where
  "simple_saveConfig y fs config path = save_config y simple_fields fs config path"

text \<open>After it created the file, the template goes on with the default configuration.\<close>

definition simple_loadConfig :: "'d yaml \<Rightarrow> 'd files \<Rightarrow> string \<Rightarrow> simple_file loaded \<times> 'd files" where
  "simple_loadConfig y fs path =
     load_config y simple_fields simple_file_of zero_simple_file simple_default_config
       (Loaded simple_default_config) fs path"

section \<open>main\<close>

definition simple_flags :: flags where
  "simple_flags = \<lparr>fl_configFile = ''migrate-badger.yaml'', fl_dryRun = False, fl_verbose = False\<rparr>"

definition simple_main ::
  "'d yaml \<Rightarrow> 'd files \<Rightarrow> flags \<Rightarrow> report_line list program_end \<times> 'd files" where
  "simple_main y fs fl =
     (case simple_loadConfig y fs (fl_configFile fl) of
        (LoadExit n, fs') \<Rightarrow> (Exit n, fs')
      | (LoadFailed e, fs') \<Rightarrow> (Fatal (''Failed to load config: '' @ e), fs')
      | (Loaded config, fs') \<Rightarrow>
          (Finished (
            (if fl_dryRun fl then [Text ''DRY RUN MODE - No changes will be made'',
               Text ''=====================================''] else []) @
            [Text (''Source: '' @ sc_Dir (cf_Source config)),
             Text (''Target: '' @ sc_Dir (cf_Target config)),
             Text (''Batch Size: '' @ go_itoa (sm_BatchSize (cf_Migration config))),
             DurationLine ''Timeout: '' (sm_Timeout (cf_Migration config)),
             Text '''',
             Text ''Migration Template Ready'',
             Text ''=========================='',
             Text ''To complete this migration tool:'',
             Text ''1. Set up dual version imports as described in README.md'',
             Text ''2. Implement createLegacyStorage() function'',
             Text ''3. Implement createNewStorage() function'',
             Text ''4. Add migration logic in runMigration()'',
             Text '''',
             Text ''See the complete main.go for full implementation details.'']), fs'))"

end
