(* ===== verification/Program_Properties.thy ===== *)
theory Program_Properties
  imports Badger_Program Redis_Program Simple_Template Migration_Properties
begin

text \<open>
  Properties of the programs as a whole: from the configuration file and the command line to the new
  map and the report.
\<close>

section \<open>Configuration files and options of the examples\<close>

text \<open>A YAML library that keeps the fields as they are.\<close>

definition plain_yaml :: "yaml_struct yaml" where
  "plain_yaml = \<lparr>ya_Marshal = Inr, ya_Unmarshal = (\<lambda>d s0. Inr d)\<rparr>"

lemma plain_yaml_ok [simp]: "yaml_ok plain_yaml"
  by (simp add: yaml_ok_def plain_yaml_def)

definition one_file :: "string \<Rightarrow> 'd \<Rightarrow> 'd files" where
  "one_file path d =
     \<lparr>fs_content = [path \<mapsto> d], fs_stat_err = Map.empty, fs_read_err = Map.empty,
      fs_write_err = Map.empty\<rparr>"

lemma one_file_simps [simp]:
  "accessible (one_file path d) path" "fs_content (one_file path d) path = Some d"
  by (simp_all add: one_file_def accessible_def)

section \<open>From the configuration file to the new map\<close>

text \<open>
  C11. \<open>migrate-badger\<close>, not a dry run, with a configuration file that was saved before: it reports and
  ends, and the new map, when it is closed, holds what it held before and, over that, the entries
  with selected keys among the first n the legacy map showed; n is less than their number only if
  the deadline had passed after the n-th. The file is left alone.
\<close>

theorem badger_main_migrates:
  fixes ops :: "('db badger adapter, string, 'p goval, 'c) storage_ops"
  assumes "yaml_ok y" "accessible fs path" "fs_content fs path = Some d"
    and "ya_Marshal y (badger_fields config) = Inr d"
    and "ops = adapter_ops cd (badger_ops kc api zk)"
    and "\<not> (vb \<and> LogInterval (cf_Migration config) = 0)"
    and "lib (legacyBadgerOpts (cf_Source config)) = Ret (\<lambda>f c. range_loop f es c)"
    and "createNewBadgerStorage opn defaults (cf_Target config) Map.empty = Ret m0"
    and "adapter_inv cd gen plain T vfit (badger_inv kc api isopen dbmap kfit vfit)
      (badger_abs kc dbmap kfit) (mm_storage m0)"
    and "\<forall>(k, v) \<in> set es. badger_selects (cf_Migration config) k \<longrightarrow>
      key_ok kc kfit k \<and> adapter_vok cd plain T vfit v"
  shows "\<exists>n stats m1 e m2.
    badger_main y fs \<lparr>fl_configFile = path, fl_dryRun = False, fl_verbose = vb\<rparr> lib opn defaults ops clock now =
      Ret (Finished (printStats stats False, Some m2), fs) \<and>
    Map_Close ops m1 = Ret (e, m2) \<and> n \<le> length es \<and> TotalKeys stats = int n \<and>
    adapter_abs cd (badger_abs kc dbmap kfit) (mm_storage m1) =
      adapter_abs cd (badger_abs kc dbmap kfit) (mm_storage m0) ++
        migrated_map (badger_selects (cf_Migration config)) (\<lambda>k. k) (take n es) \<and>
    (n < length es \<longrightarrow> Timeout (cf_Migration config) > 0 \<and>
       clock 0 + Timeout (cf_Migration config) \<le> clock (int n))"
proof -
  let ?fl = "\<lparr>fl_configFile = path, fl_dryRun = False, fl_verbose = vb\<rparr>"
  have load: "badger_loadConfig y fs (fl_configFile ?fl) = (Loaded config, fs)"
    unfolding badger_loadConfig_def by (simp add: badger_file.load_saved[OF assms(1-4)])
  have ow: "mm_allowOverwrite m0"
    using assms(8) by (auto simp: createNewBadgerStorage_def obind_eq_Ret_iff)
  have leg: "createLegacyBadgerStorage lib (cf_Source config) = Ret (\<lambda>f c. range_loop f es c)"
    using assms(7) by (simp add: createLegacyBadgerStorage_def)
  from badger_run_copies[where new_map = "\<lambda>c. createNewBadgerStorage opn defaults c Map.empty" and now = now
      and config = config and legacy = "createLegacyBadgerStorage lib" and ctx_done = "migration_context (Timeout (cf_Migration config)) clock",
      OF refl assms(5,6,9) ow assms(10) leg assms(8)]
  obtain n stats m1 e m2 where r: "badger_runMigration ops (createLegacyBadgerStorage lib)
        (\<lambda>c. createNewBadgerStorage opn defaults c Map.empty) config False vb
        (migration_context (Timeout (cf_Migration config)) clock) now = Ret (stats, Some m2)"
    "Map_Close ops m1 = Ret (e, m2)" "n \<le> length es" "TotalKeys stats = int n"
    "adapter_abs cd (badger_abs kc dbmap kfit) (mm_storage m1) =
      adapter_abs cd (badger_abs kc dbmap kfit) (mm_storage m0) ++
        migrated_map (badger_selects (cf_Migration config)) (\<lambda>k. k) (take n es)"
    "n < length es \<longrightarrow> migration_context (Timeout (cf_Migration config)) clock (int n)"
    by blast
  moreover have "badger_main y fs ?fl lib opn defaults ops clock now =
      Ret (Finished (printStats stats False, Some m2), fs)"
    using badger_main_run[OF load, of ops lib opn defaults clock now stats "Some m2"] r(1) by simp
  ultimately show ?thesis unfolding migration_context_def by blast
qed

text \<open>The examples' options, database and operations.\<close>

definition plain_badger_defaults :: "unit badgerOpts" where
  "plain_badger_defaults = getDefaultBadgerOptions ''/tmp'' 0 3 ()"

abbreviation any_badger_ops ::
  "(entries badger adapter, string, nat goval, unit) storage_ops" where
  "any_badger_ops \<equiv> adapter_ops any_codec (badger_ops str_keys list_badger [])"

lemma createNew_example:
  "createNewBadgerStorage (\<lambda>_. Inr []) plain_badger_defaults (cf_Target badger_settings) Map.empty =
    Ret fresh_badger_map"
  by (simp add: createNewBadgerStorage_def newBadgerOpts_def badger_settings_def createDefaultConfig_def
      zero_badger_config_def NewMightyMapBadgerStorage_def fresh_badger_map_def empty_badger_def)

lemma fresh_badger_map_inv:
  "adapter_inv any_codec toy_gen toy_values toy_types (\<lambda>_. True)
      (badger_inv str_keys list_badger gomap_ok map_of (\<lambda>_. True) (\<lambda>_. True))
      (badger_abs str_keys map_of (\<lambda>_. True)) (mm_storage fresh_badger_map)"
  unfolding fresh_badger_map_def mightymap.select_convs
  by (rule adapter_inv_empty) (simp_all add: empty_badger_inv empty_badger_abs)

theorem badger_main_migrates_witness:
  "\<exists>n stats m1 e m2.
    badger_main plain_yaml (one_file ''m.yaml'' (badger_fields badger_settings))
      \<lparr>fl_configFile = ''m.yaml'', fl_dryRun = False, fl_verbose = True\<rparr>
      (\<lambda>_. Ret (\<lambda>f c. range_loop f two_entries c)) (\<lambda>_. Inr []) plain_badger_defaults any_badger_ops
      (\<lambda>_. 0) (\<lambda>_. 0) =
      Ret (Finished (printStats stats False, Some m2), one_file ''m.yaml'' (badger_fields badger_settings)) \<and>
    Map_Close any_badger_ops m1 = Ret (e, m2) \<and> n \<le> length two_entries \<and> TotalKeys stats = int n \<and>
    adapter_abs any_codec (badger_abs str_keys map_of (\<lambda>_. True)) (mm_storage m1) =
      adapter_abs any_codec (badger_abs str_keys map_of (\<lambda>_. True)) (mm_storage fresh_badger_map) ++
        migrated_map (badger_selects (cf_Migration badger_settings)) (\<lambda>k. k) (take n two_entries) \<and>
    (n < length two_entries \<longrightarrow> Timeout (cf_Migration badger_settings) > 0 \<and>
       (0::int) + Timeout (cf_Migration badger_settings) \<le> 0)"
  by (rule badger_main_migrates[OF plain_yaml_ok one_file_simps _ refl _ refl createNew_example fresh_badger_map_inv])
    (simp_all add: plain_yaml_def badger_settings_def some_settings_def two_entries_def)

text \<open>
  C12. \<open>migrate-redis\<close>, not a dry run and not cut off by its deadline, with a configuration file that
  was saved before and sets no expiry for the target: it reports and ends, and the new map then
  holds every selected entry, unchanged, under its key's new name, provided that the legacy map
  shows each key once and no selected key starts with the target prefix already.
\<close>

theorem redis_main_migrates:
  fixes ops :: "(('db, 't, 'm) redis adapter, string, 'p goval, 'c) storage_ops"
  assumes "yaml_ok y" "accessible fs path" "fs_content fs path = Some d"
    and "ya_Marshal y (redis_fields config) = Inr d"
    and "ops = adapter_ops cd (redis_ops kc api zk)"
    and "\<not> (vb \<and> LogInterval (cf_Migration config) = 0)"
    and "lib (legacyRedisOpts (cf_Source config)) = Ret (\<lambda>f c. range_loop f es c)"
    and no_expiry: "rc_Expire (cf_Target config) \<le> 0"
    and "adapter_inv cd gen plain T fit (redis_inv kc api up dbmap fit p) (redis_abs kc dbmap fit p)
      (mm_storage (createNewRedisStorage new_client runT empty_tls (cf_Target config) Map.empty))"
    and "\<forall>(k, v) \<in> set es. redis_selects (cf_Migration config) k \<longrightarrow>
      redis_kok kc fit p (redis_renames (cf_Migration config) k) \<and> adapter_vok cd plain T fit v"
    and "Timeout (cf_Migration config) \<le> 0 \<or> (\<forall>n. clock n < clock 0 + Timeout (cf_Migration config))"
    and "distinct (map fst es)"
    and "\<forall>(k, v) \<in> set es. redis_selects (cf_Migration config) k \<longrightarrow>
      \<not> has_prefix k (TargetPrefix (cf_Migration config))"
  shows "\<exists>stats m1 e m2.
    redis_main y fs \<lparr>fl_configFile = path, fl_dryRun = False, fl_verbose = vb\<rparr> lib new_client runT empty_tls
      ops clock now = Ret (Finished (printStats stats False, Some m2), fs) \<and>
    Map_Close ops m1 = Ret (e, m2) \<and> TotalKeys stats = int (length es) \<and>
    (\<forall>(k, v) \<in> set es. redis_selects (cf_Migration config) k \<longrightarrow>
       adapter_abs cd (redis_abs kc dbmap fit p) (mm_storage m1)
         (redis_renames (cf_Migration config) k) = Some v)"
proof -
  let ?fl = "\<lparr>fl_configFile = path, fl_dryRun = False, fl_verbose = vb\<rparr>"
  let ?new = "\<lambda>c. createNewRedisStorage new_client runT empty_tls c Map.empty"
  have load: "redis_loadConfig y fs (fl_configFile ?fl) = (Loaded config, fs)"
    unfolding redis_loadConfig_def by (simp add: redis_file.load_saved[OF assms(1-4)])
  have ow: "mm_allowOverwrite (?new (cf_Target config))" by (simp add: createNewRedisStorage_def)
  have leg: "createLegacyRedisStorage lib (cf_Source config) = Ret (\<lambda>f c. range_loop f es c)"
    using assms(7) by (simp add: createLegacyRedisStorage_def)
  have ctx: "\<forall>n. \<not> migration_context (Timeout (cf_Migration config)) clock n"
    unfolding migration_context_def using assms(11) by (meson linorder_not_le)
  from redis_run_copies[where new_map = ?new and now = now and config = config
      and legacy = "createLegacyRedisStorage lib",
      OF refl assms(5,6,9) ow assms(10) leg ctx assms(12,13)]
  obtain stats m1 e m2 where r: "redis_runMigration ops (createLegacyRedisStorage lib) ?new config False vb
        (migration_context (Timeout (cf_Migration config)) clock) now = Ret (stats, Some m2)"
    "Map_Close ops m1 = Ret (e, m2)" "TotalKeys stats = int (length es)"
    "\<forall>(k, v) \<in> set es. redis_selects (cf_Migration config) k \<longrightarrow>
       adapter_abs cd (redis_abs kc dbmap fit p) (mm_storage m1)
         (redis_renames (cf_Migration config) k) = Some v"
    by blast
  moreover have "redis_main y fs ?fl lib new_client runT empty_tls ops clock now =
      Ret (Finished (printStats stats False, Some m2), fs)"
    using redis_main_run[OF load, of ops lib new_client runT empty_tls clock now stats "Some m2"] r(1)
    by simp
  ultimately show ?thesis by blast
qed

definition new_redis_settings :: redis_file where
  "new_redis_settings = redis_settings\<lparr>cf_Target := zero_redis_config\<rparr>"

lemma createNew_redis_example:
  "createNewRedisStorage (\<lambda>_. []) (\<lambda>_::unit. '''') () (cf_Target new_redis_settings) Map.empty =
    (\<lparr>mm_storage = newMsgpackAdapter
       \<lparr>rs_client = [], rs_opts = getDefaultRedisOptions\<lparr>addr := ''''\<rparr>\<rparr> Map.empty, mm_allowOverwrite = True\<rparr>
     :: (entries, unit, unit) redis adapter mightymap)"
  by (simp add: createNewRedisStorage_def newRedisOpts_def new_redis_settings_def zero_redis_config_def
      NewMightyMapRedisStorage_def redis_option_defs redis_final_opts_def getDefaultRedisOptions_def)

theorem redis_main_migrates_witness:
  "\<exists>stats m1 e m2.
    redis_main plain_yaml (one_file ''m.yaml'' (redis_fields new_redis_settings))
      \<lparr>fl_configFile = ''m.yaml'', fl_dryRun = False, fl_verbose = True\<rparr>
      (\<lambda>_. Ret (\<lambda>f c. range_loop f two_entries c)) (\<lambda>_. []) (\<lambda>_::unit. '''') () any_redis_ops
      (\<lambda>_. 0) (\<lambda>_. 0) =
      Ret (Finished (printStats stats False, Some m2), one_file ''m.yaml'' (redis_fields new_redis_settings)) \<and>
    Map_Close any_redis_ops m1 = Ret (e, m2) \<and> TotalKeys stats = int (length two_entries) \<and>
    (\<forall>(k, v) \<in> set two_entries. redis_selects (cf_Migration new_redis_settings) k \<longrightarrow>
       adapter_abs any_codec (redis_abs str_keys map_of (\<lambda>_. True) ''mightymap_'') (mm_storage m1)
         (redis_renames (cf_Migration new_redis_settings) k) = Some v)"
proof (rule redis_main_migrates[OF plain_yaml_ok one_file_simps _ refl _ refl])
  have "redis_inv str_keys list_redis gomap_ok map_of (\<lambda>_. True) ''mightymap_''
      (\<lparr>rs_client = [], rs_opts = getDefaultRedisOptions\<lparr>addr := ''''\<rparr>\<rparr> :: (entries, unit, unit) redis)"
    by (simp add: redis_inv_def list_redis_ok default_prefix_ok cut_prefix_def)
  then show "adapter_inv any_codec toy_gen toy_values toy_types (\<lambda>_. True)
      (redis_inv str_keys list_redis gomap_ok map_of (\<lambda>_. True) ''mightymap_'')
      (redis_abs str_keys map_of (\<lambda>_. True) ''mightymap_'')
      (mm_storage (createNewRedisStorage (\<lambda>_. []) (\<lambda>_::unit. '''') () (cf_Target new_redis_settings) Map.empty))"
    unfolding createNew_redis_example mightymap.select_convs
    by (rule adapter_inv_empty) (simp_all add: redis_abs_def cut_prefix_def)
qed (simp_all add: plain_yaml_def new_redis_settings_def zero_redis_config_def rename_settings_def two_entries_def)


section \<open>The configuration file\<close>

text \<open>
  C20. All three programs create a missing configuration file with their defaults, the two migrations
  then end with status 0 and the template goes on; the next run of each loads exactly the defaults,
  and the file system is as the first run left it.
\<close>

theorem first_run_writes_defaults:
  assumes "yaml_ok y" "accessible fs path" "fs_content fs path = None"
    and "ya_Marshal y (badger_fields createDefaultConfig) = Inr d1"
    and "ya_Marshal y (redis_fields createDefaultRedisConfig) = Inr d2"
    and "ya_Marshal y (simple_fields simple_default_config) = Inr d3"
  shows "(\<exists>fs'. badger_main y fs \<lparr>fl_configFile = path, fl_dryRun = dry, fl_verbose = vb\<rparr> lib opn defaults
        ops clock now = Ret (Exit 0, fs') \<and>
      badger_loadConfig y fs' path = (Loaded createDefaultConfig, fs')) \<and>
    (\<exists>fs'. redis_main y fs \<lparr>fl_configFile = path, fl_dryRun = dry, fl_verbose = vb\<rparr> lib' new_client runT
        empty_tls ops' clock now = Ret (Exit 0, fs') \<and>
      redis_loadConfig y fs' path = (Loaded createDefaultRedisConfig, fs')) \<and>
    (\<exists>fs'. simple_loadConfig y fs path = (Loaded simple_default_config, fs') \<and>
      simple_loadConfig y fs' path = (Loaded simple_default_config, fs'))"
proof (intro conjI)
  note a = assms(1-3)
  from badger_file.load_twice[OF a assms(4), of zero_badger_file "LoadExit 0"]
  show "\<exists>fs'. badger_main y fs \<lparr>fl_configFile = path, fl_dryRun = dry, fl_verbose = vb\<rparr> lib opn defaults
        ops clock now = Ret (Exit 0, fs') \<and>
      badger_loadConfig y fs' path = (Loaded createDefaultConfig, fs')"
    by (auto simp: badger_main_def badger_loadConfig_def)
  from redis_file.load_twice[OF a assms(5), of zero_redis_file "LoadExit 0"]
  show "\<exists>fs'. redis_main y fs \<lparr>fl_configFile = path, fl_dryRun = dry, fl_verbose = vb\<rparr> lib' new_client runT
        empty_tls ops' clock now = Ret (Exit 0, fs') \<and>
      redis_loadConfig y fs' path = (Loaded createDefaultRedisConfig, fs')"
    by (auto simp: redis_main_def redis_loadConfig_def)
  from simple_file.load_twice[OF a assms(6), of zero_simple_file "Loaded simple_default_config"]
  show "\<exists>fs'. simple_loadConfig y fs path = (Loaded simple_default_config, fs') \<and>
      simple_loadConfig y fs' path = (Loaded simple_default_config, fs')"
    by (auto simp: simple_loadConfig_def)
qed

definition no_files :: "'d files" where
  "no_files = \<lparr>fs_content = Map.empty, fs_stat_err = Map.empty, fs_read_err = Map.empty,
     fs_write_err = Map.empty\<rparr>"

theorem first_run_writes_defaults_witness:
  "\<exists>fs'. badger_main plain_yaml no_files badger_flags
      (\<lambda>_. Ret (\<lambda>f c. range_loop f two_entries c)) (\<lambda>_. Inr []) plain_badger_defaults any_badger_ops
      (\<lambda>_. 0) (\<lambda>_. 0) = Ret (Exit 0, fs') \<and>
    badger_loadConfig plain_yaml fs' ''migrate-badger.yaml'' = (Loaded createDefaultConfig, fs')"
proof -
  have a: "accessible no_files ''migrate-badger.yaml''" "fs_content no_files ''migrate-badger.yaml'' = None"
    by (simp_all add: no_files_def accessible_def)
  have m: "ya_Marshal plain_yaml s = Inr s" for s by (simp add: plain_yaml_def)
  show ?thesis
    unfolding badger_flags_def
    by (rule conjunct1[OF first_run_writes_defaults[OF plain_yaml_ok a m m m]])
qed

text \<open>
  C40. A verbose run dies of a division by zero at the first entry when the configuration file gives
  no log interval, or the interval 0, in a dry run too.
\<close>

theorem absent_log_interval_panics:
  assumes "accessible fs path" "fs_content fs path = Some d"
    and "ya_Unmarshal y d (badger_fields zero_badger_file) = Inr s"
    and "ya_Unmarshal y d (redis_fields zero_redis_file) = Inr s'"
    and "field_int s ''migration.log_interval'' = 0" "field_int s' ''migration.log_interval'' = 0"
    and "lib (legacyBadgerOpts (cf_Source (badger_file_of s))) = Ret (\<lambda>f c. range_loop f es c)"
    and "lib' (legacyRedisOpts (cf_Source (redis_file_of s'))) = Ret (\<lambda>f c. range_loop f es c)"
    and "es \<noteq> []" "createNewBadgerStorage opn defaults (cf_Target (badger_file_of s)) Map.empty = Ret m0"
  shows "badger_main y fs \<lparr>fl_configFile = path, fl_dryRun = dry, fl_verbose = True\<rparr> lib opn defaults
      ops clock now = Panic ''runtime error: integer divide by zero'' \<and>
    redis_main y fs \<lparr>fl_configFile = path, fl_dryRun = dry, fl_verbose = True\<rparr> lib' new_client runT
      empty_tls ops' clock now = Panic ''runtime error: integer divide by zero''"
proof -
  have b: "badger_loadConfig y fs path = (Loaded (badger_file_of s), fs)"
    using assms(1-3) by (simp add: badger_loadConfig_def load_config_def os_defs)
  have r: "redis_loadConfig y fs path = (Loaded (redis_file_of s'), fs)"
    using assms(1,2,4) by (simp add: redis_loadConfig_def load_config_def os_defs)
  have "LogInterval (cf_Migration (badger_file_of s)) = 0" "LogInterval (cf_Migration (redis_file_of s')) = 0"
    using assms(5,6) by (simp_all add: badger_file_of_def redis_file_of_def migration_of_def redis_migration_of_def)
  note i = this
  have "createLegacyBadgerStorage lib (cf_Source (badger_file_of s)) = Ret (\<lambda>f c. range_loop f es c)"
    "createLegacyRedisStorage lib' (cf_Source (redis_file_of s')) = Ret (\<lambda>f c. range_loop f es c)"
    using assms(7,8) by (simp_all add: createLegacyBadgerStorage_def createLegacyRedisStorage_def)
  note z = badger_zero_interval[where new_map = "\<lambda>c. createNewBadgerStorage opn defaults c Map.empty"
        and legacy = "createLegacyBadgerStorage lib" and config = "badger_file_of s", OF i(1) assms(9) this(1) assms(10)] redis_zero_interval[where legacy = "createLegacyRedisStorage lib'" and config = "redis_file_of s'", OF i(2) assms(9) this(2)]
  show ?thesis by (simp add: badger_main_def redis_main_def b r z)
qed

theorem absent_log_interval_panics_witness:
  "badger_main plain_yaml (one_file ''m.yaml'' []) \<lparr>fl_configFile = ''m.yaml'', fl_dryRun = True, fl_verbose = True\<rparr>
      (\<lambda>_. Ret (\<lambda>f c. range_loop f two_entries c)) (\<lambda>_. Inr []) plain_badger_defaults any_badger_ops
      (\<lambda>_. 0) (\<lambda>_. 0) = Panic ''runtime error: integer divide by zero'' \<and>
    redis_main plain_yaml (one_file ''m.yaml'' []) \<lparr>fl_configFile = ''m.yaml'', fl_dryRun = True, fl_verbose = True\<rparr>
      (\<lambda>_. Ret (\<lambda>f c. range_loop f two_entries c)) (\<lambda>_. []) (\<lambda>_::unit. '''') () any_redis_ops
      (\<lambda>_. 0) (\<lambda>_. 0) = Panic ''runtime error: integer divide by zero''"
proof (rule absent_log_interval_panics[where s = "[]" and s' = "[]", OF one_file_simps _ _ _ _ refl refl])
  show "createNewBadgerStorage (\<lambda>_. Inr []) plain_badger_defaults (cf_Target (badger_file_of [])) Map.empty =
      Ret fresh_badger_map"
    by (simp add: createNewBadgerStorage_def newBadgerOpts_def badger_file_of_def badger_store_of_def
        NewMightyMapBadgerStorage_def fresh_badger_map_def empty_badger_def)
qed (simp_all add: plain_yaml_def two_entries_def)

section \<open>Options\<close>

text \<open>A list of options each of which may panic.\<close>

fun all_options :: "('a \<Rightarrow> 'b outcome) \<Rightarrow> 'a list \<Rightarrow> 'b list outcome" where
  "all_options f [] = Ret []"
| "all_options f (x # xs) = obind (f x) (\<lambda>y. obind (all_options f xs) (\<lambda>ys. Ret (y # ys)))"

text \<open>
  Source and target are opened with the same options, in the same order: the options for the new
  library are the ones for the legacy library by their names, and a key that is refused is refused
  on both sides.
\<close>

theorem source_and_target_options_agree:
  "newBadgerOpts config = all_options as_new_badger (legacyBadgerOpts config) \<and>
   newRedisOpts config' = map as_new_redis (legacyRedisOpts config')"
  by (simp add: newBadgerOpts_def legacyBadgerOpts_def newRedisOpts_def legacyRedisOpts_def obind_assoc)

section \<open>The report\<close>

text \<open>
  C25. A migration that its deadline cuts off after the first key reports one key and, like any other,
  that it completed successfully, whatever was left to copy.
\<close>

theorem cancelled_run_reports_success:
  assumes "badger_loadConfig y fs path = (Loaded config, fs')"
    and "badger_main y fs \<lparr>fl_configFile = path, fl_dryRun = False, fl_verbose = vb\<rparr> lib opn defaults ops
      clock now = Ret (Finished (report, m), fs'')"
    and "lib (legacyBadgerOpts (cf_Source config)) = Ret (\<lambda>f c. range_loop f ((k, v) # es) c)"
    and "badger_selects (cf_Migration config) k"
    and "Timeout (cf_Migration config) > 0" "clock 0 + Timeout (cf_Migration config) \<le> clock 1"
  shows "report ! 3 = Text (''Total Keys:     '' @ go_itoa 1) \<and>
    last report = Text ''Migration completed successfully!''"
proof -
  let ?ctx = "migration_context (Timeout (cf_Migration config)) clock"
  obtain stats where r: "badger_runMigration ops (createLegacyBadgerStorage lib)
      (\<lambda>c. createNewBadgerStorage opn defaults c Map.empty) config False vb ?ctx now = Ret (stats, m)"
    "report = printStats stats False"
    using assms(1,2) by (auto simp: badger_main_def obind_eq_Ret_iff)
  then obtain newStore st where st:
    "range_loop (badger_migrate_cb ops (cf_Migration config) vb ?ctx) ((k, v) # es)
       \<lparr>mg_stats = new_stats (now False), mg_batchCount = 0, mg_newStore = newStore, mg_pauses = 0\<rparr> = Ret st"
    "stats = (mg_stats st)\<lparr>EndTime := now True\<rparr>"
    using assms(3) by (auto simp: badger_runMigration_def createLegacyBadgerStorage_def obind_eq_Ret_iff
        simp del: range_loop.simps)
  have "mg_stats st = mg_stats (count_migrated (count_seen
      \<lparr>mg_stats = new_stats (now False), mg_batchCount = 0, mg_newStore = newStore, mg_pauses = 0\<rparr>))"
    using assms(5,6) by (intro badger_step.run_cut[OF st(1) assms(4)]) (simp add: migration_context_def)
  with st(2) r(2) show ?thesis by (simp add: printStats_def Let_def)
qed

definition hasty_settings :: badger_file where
  "hasty_settings = badger_settings\<lparr>cf_Migration := some_settings\<lparr>Timeout := 1\<rparr>\<rparr>"

theorem cancelled_run_reports_success_witness:
  "\<exists>report m fs''.
    badger_main plain_yaml (one_file ''m.yaml'' (badger_fields hasty_settings))
      \<lparr>fl_configFile = ''m.yaml'', fl_dryRun = False, fl_verbose = False\<rparr>
      (\<lambda>_. Ret (\<lambda>f c. range_loop f two_entries c)) (\<lambda>_. Inr []) plain_badger_defaults any_badger_ops
      (\<lambda>n. n) (\<lambda>_. 0) = Ret (Finished (report, m), fs'') \<and>
    report ! 3 = Text (''Total Keys:     '' @ go_itoa 1) \<and>
    last report = Text ''Migration completed successfully!''"
proof -
  let ?lib = "\<lambda>_. Ret (\<lambda>f c. range_loop f two_entries c)"
  let ?fl = "\<lparr>fl_configFile = ''m.yaml'', fl_dryRun = False, fl_verbose = False\<rparr>"
  let ?fs = "one_file ''m.yaml'' (badger_fields hasty_settings)"
  have load: "badger_loadConfig plain_yaml ?fs ''m.yaml'' = (Loaded hasty_settings, ?fs)"
    unfolding badger_loadConfig_def
    by (rule badger_file.load_saved[OF plain_yaml_ok one_file_simps]) (simp add: plain_yaml_def)
  have new: "createNewBadgerStorage (\<lambda>_. Inr []) plain_badger_defaults (cf_Target hasty_settings) Map.empty =
      Ret fresh_badger_map"
    using createNew_example by (simp add: hasty_settings_def)
  have m: "cf_Migration hasty_settings = some_settings\<lparr>Timeout := 1\<rparr>" by (simp add: hasty_settings_def)
  obtain stats m2 where r: "badger_runMigration any_badger_ops (createLegacyBadgerStorage ?lib)
      (\<lambda>c. createNewBadgerStorage (\<lambda>_. Inr []) plain_badger_defaults c Map.empty) hasty_settings False False
      (migration_context (Timeout (cf_Migration hasty_settings)) (\<lambda>n. n)) (\<lambda>_. 0) = Ret (stats, Some m2)"
    using badger_run_copies[where config = hasty_settings and ops = any_badger_ops and es = two_entries and verbose = False
        and new_map = "\<lambda>c. createNewBadgerStorage (\<lambda>_. Inr []) plain_badger_defaults c Map.empty"
        and legacy = "createLegacyBadgerStorage ?lib" and now = "\<lambda>_. 0"
        and ctx_done = "migration_context (Timeout (cf_Migration hasty_settings)) (\<lambda>n. n)",
        OF refl refl _ fresh_badger_map_inv _ _ _ new]
    by (auto simp: fresh_badger_map_def two_entries_def createLegacyBadgerStorage_def)
  have main: "badger_main plain_yaml ?fs ?fl ?lib (\<lambda>_. Inr []) plain_badger_defaults any_badger_ops
      (\<lambda>n. n) (\<lambda>_. 0) = Ret (Finished (printStats stats False, Some m2), ?fs)"
    using badger_main_run[of plain_yaml ?fs ?fl hasty_settings ?fs any_badger_ops ?lib] load r by simp
  have "printStats stats False ! 3 = Text (''Total Keys:     '' @ go_itoa 1) \<and>
      last (printStats stats False) = Text ''Migration completed successfully!''"
    by (rule cancelled_run_reports_success[OF load main, of "''old_a''" "GStr ''1''" "[(''b'', GStr ''2'')]"])
      (simp_all add: two_entries_def badger_selects_def m some_settings_def)
  with main show ?thesis by blast
qed

text \<open>
  The report has at most twenty-four lines. It shows the first ten errors, each with its number,
  and, if there are ten or more, one line with the number of the others, which for exactly ten is 0.
\<close>

theorem report_is_bounded:
  "length (printStats stats dry) = 10 + (if TotalKeys stats > 0 then 1 else 0) +
      (if Errors stats = [] then 0
       else 2 + min (length (Errors stats)) 10 + (if 10 \<le> length (Errors stats) then 1 else 0)) \<and>
   (\<forall>j < length (Errors stats). j < 10 \<longrightarrow>
      Text (''  '' @ nat_digits (j + 1) @ ''. '' @ Errors stats ! j) \<in> set (printStats stats dry)) \<and>
   (10 \<le> length (Errors stats) \<longrightarrow>
      Text (''  ... and '' @ go_itoa (int (length (Errors stats)) - 10) @ '' more errors'')
        \<in> set (printStats stats dry))"
proof (intro conjI allI impI)
  show "length (printStats stats dry) = 10 + (if TotalKeys stats > 0 then 1 else 0) +
      (if Errors stats = [] then 0
       else 2 + min (length (Errors stats)) 10 + (if 10 \<le> length (Errors stats) then 1 else 0))"
    by (auto simp: printStats_def Let_def printStats_errors_def error_lines_len)
next
  fix j assume "j < length (Errors stats)" "j < 10"
  then have "''  '' @ nat_digits (0 + j + 1) @ ''. '' @ Errors stats ! j \<in> set (printStats_errors stats)"
    unfolding printStats_errors_def by (intro error_lines_shows) simp_all
  with \<open>j < length (Errors stats)\<close>
  show "Text (''  '' @ nat_digits (j + 1) @ ''. '' @ Errors stats ! j) \<in> set (printStats stats dry)"
    by (auto simp: printStats_def Let_def)
next
  assume ten: "10 \<le> length (Errors stats)"
  then have "''  ... and '' @ go_itoa (int (length (Errors stats)) - 10) @ '' more errors''
      \<in> set (printStats_errors stats)"
    unfolding printStats_errors_def by (intro error_lines_rest) simp_all
  moreover have "Errors stats \<noteq> []" using ten by auto
  ultimately show "Text (''  ... and '' @ go_itoa (int (length (Errors stats)) - 10) @ '' more errors'')
      \<in> set (printStats stats dry)"
    by (auto simp: printStats_def Let_def)
qed

theorem report_is_bounded_witness:
  "Text (''  ... and '' @ go_itoa 0 @ '' more errors'') \<in>
      set (printStats ((new_stats 0)\<lparr>Errors := replicate 10 ''e''\<rparr>) False) \<and>
   length (printStats ((new_stats 0)\<lparr>Errors := replicate 10 ''e''\<rparr>) False) = 23"
  using report_is_bounded[of "(new_stats 0)\<lparr>Errors := replicate 10 ''e''\<rparr>" False] by simp

end
