(* ===== verification/Spec2Isabelle.thy ===== *)
theory Spec2Isabelle
  imports Instances Badger_Map Opening Redis_Expiry Redis_Failures Lock_Programs Interleaving Migrate_Badger Migrate_Redis
    Codec_Properties Memory_Properties Badger_Properties Redis_Properties SQLite_Properties
    Concurrency_Properties Migration_Properties Error_Properties Program_Properties
begin

text \<open>
  A verification library for mightymap, a Go library that puts one generic map interface in front of
  five storages, and for the programs under \<open>cmd/\<close> that move data from an older version of the
  library.

  \<^bold>\<open>The program and its parts.\<close> \<open>mightymap.go\<close> defines \<open>Map[K, V]\<close>, which calls the methods of an
  \<open>IMightyMapStorage\<close> and adds three things of its own: Has, Pop (a Load and a Delete) and the guard of
  a map that must not overwrite (a Load before each Store). \<open>storage/mightymapStore.go\<close> holds the
  interface and the storages in Go's own maps. \<open>storage/msgpackAdapter.go\<close> turns a storage for bytes
  into one for values: it wraps each value with the name of its type, encodes the wrapper with
  MessagePack, and keeps a process-wide registry of types for decoding. Behind it stand the storages
  over swiss.Map, BadgerDB, SQLite and Redis, each with its functional options. \<open>cmd/migrate-badger\<close>
  and \<open>cmd/migrate-redis\<close> read a configuration file, open a legacy map and a new one, and Range over
  the first with a callback that stores into the second.

  \<^bold>\<open>How Go is modelled.\<close> A call gives an \<open>outcome\<close>: it returns, panics or never returns (\<open>Prelude\<close>).
  A struct is a record of the same fields, a method a function from the record to its result and the
  record after it; \<open>string\<close> and \<open>[]byte\<close> are byte lists. The order in which Go visits a map, a clock,
  the Go version and the environment's errors are arguments, and the theorems hold for all of them.
  Integers are unbounded where the code only counts entries, and words where it matters: the counter
  of BadgerDB's Len is an int64 that wraps, the SCAN cursor a uint64. A callback with its captured
  variables is a function that passes a state along.

  \<^bold>\<open>Code that is not in the repository\<close> is a parameter, with what is relied on as named hypotheses:
  \<open>msgpack_ok\<close> (what is encoded decodes to its generic image and back to its type), \<open>key_ok\<close> and
  \<open>keys_decode\<close> (keys round trip), \<open>swiss_ok\<close>, \<open>badger_ok\<close>, \<open>query_ok\<close> and \<open>tx_ok\<close> (the SQL texts do what
  they say), \<open>redis_ok\<close> and \<open>redis_once\<close> (SCAN returns each key at least once, exactly once), \<open>yaml_ok\<close>
  (a marshalled struct is unmarshalled to the same fields), \<open>opens_ok\<close> (opening an SQL database,
  its pragmas and its table), \<open>redis_api_le\<close> (a client that answers as the server does, or with an
  error), \<open>env_ok\<close> (what other clients and expiry may do to a Redis server between two calls). The
  legacy library is a function from the options passed to it to a Range. \<open>Instances\<close> has concrete components that meet these
  hypotheses; the theorems that end in \<open>_witness\<close> apply each property to them.

  \<^bold>\<open>Theories.\<close>
  \<^item> \<open>Prelude\<close>, \<open>Go_Strings\<close>: outcomes, Go maps, the Range loop, packages \<open>strings\<close> and \<open>strconv\<close>.
  \<^item> \<open>Storage_Interface\<close>: the method table, and the contract of a storage as the locales \<open>kv_core\<close>,
    \<open>kv_iter\<close>, \<open>kv_len\<close>, \<open>kv_next\<close>, \<open>kv_store\<close> over an abstraction to a finite map.
  \<^item> \<open>Direct_Storage\<close>, \<open>Swiss_Storage\<close>, \<open>Badger_Storage\<close>, \<open>SQLite_Storage\<close> and \<open>SQLite_Contract\<close>,
    \<open>Redis_Storage\<close> and \<open>Redis_Contract\<close>: the storages, with one function for each method, the
    invariant that the methods keep, and the interpretation of the locales. \<open>Badger_Opts\<close>,
    \<open>SQLite_Opts\<close>, \<open>Redis_Opts\<close>: options and what the constructors make of them. \<open>Key_Codec\<close>: keys.
  \<^item> \<open>Msgpack_Codec\<close>, \<open>Msgpack_Adapter\<close>: values, types, registry, and the adapter, which inherits
    each part of the contract from the storage behind it (sublocales). \<open>Memory_Stacks\<close> and
    \<open>Persistent_Stacks\<close> put storages and adapter together. \<open>Opening\<close>: what the constructors hand to
    the methods, and what a later process finds in a database. \<open>Redis_Expiry\<close>: runs in which the
    environment changes the server before each call, and the specification \<open>fading_run\<close> in which
    entries may vanish there. \<open>Redis_Failures\<close>: the order "the same outcome or a panic", lifted from the
    commands of a failing client to runs of calls.
  \<^item> \<open>Mighty_Map\<close>: \<open>mightymap.go\<close> over any method table, the specification \<open>spec_step\<close> of a map call, and
    the refinement, proved once in the locales \<open>map_iter\<close>, \<open>map_partial\<close> and \<open>map_backend\<close>, one for each
    part of the contract; \<open>Badger_Map\<close> for BadgerDB, whose Len is right only when nothing is
    overwritten.
  \<^item> \<open>RW_Locks\<close>, \<open>Lock_Programs\<close>: \<open>sync.RWMutex\<close> with waiting writers as a step function on goroutines,
    and the lock calls of every method, those of the calls that a callback of Range makes on the
    map included. \<open>Interleaving\<close>: Next, Store without overwriting and Pop as
    processes of two critical sections; \<open>Badger_Interleaving\<close>: the methods of the BadgerDB storage,
    which take no lock, as processes of transactions and atomic accesses.
  \<^item> \<open>Locked_Sections\<close>: goroutines that run critical sections step by step under a readers-writer
    mutex, and the simulation of these steps by sections that run at once. \<open>Linearization\<close>: programs
    of calls, and the locale \<open>locked_object\<close> of objects whose calls linearize. \<open>Memory_Sections\<close>: the
    methods of the in-memory storages and of the map above them, access by access.
  \<^item> \<open>Migration_Core\<close>, \<open>Migrate_Badger\<close>, \<open>Migrate_Redis\<close>: the migrations, their callback's contract as
    the locales \<open>migration_step\<close> and \<open>migration_run\<close>. \<open>Config_Files\<close>, \<open>Badger_Program\<close>, \<open>Redis_Program\<close>,
    \<open>Simple_Template\<close>: command line, configuration files (locale \<open>tagged_struct\<close>), context, report and
    \<open>main\<close>.
  \<^item> The theories whose names end in \<open>_Properties\<close>, and this one, hold the properties.

  \<^bold>\<open>What is proved.\<close> Here: from the constructor on, any sequence of calls on the map over each of the
  five storages returns what a finite map returns, under the conditions the code needs (keys other
  than the zero key in memory, a SCAN without repetitions, no overwriting for BadgerDB's Len); a
  second process continues on the SQLite database of a first. \<open>Codec_Properties\<close>: the round trip of
  values, and what is lost without an error. \<open>Memory_Properties\<close>, \<open>Badger_Properties\<close>,
  \<open>SQLite_Properties\<close>, \<open>Redis_Properties\<close>: what each storage does outside those conditions: the zero
  key, the counter after overwriting, the cached count, partial deletions, repeated keys, foreign
  and empty prefixes; the constructors. \<open>Error_Properties\<close>: failed reads and the overwrite guard;
  a failing Redis client.
  \<open>Concurrency_Properties\<close>: mutual exclusion, linearizability of the calls that enter the mutex once,
  the absence of deadlock and the bound on schedules where callbacks make no calls on the map, the
  deadlocks (of callbacks that do, and of SQLite's Len), the lost atomicity and the lost counts that
  the code has. \<open>Migration_Properties\<close> and
  \<open>Program_Properties\<close>: which entries arrive under which keys, statistics, dry runs, renaming,
  configuration files, options, and the report.

  \<^bold>\<open>Termination and bounds.\<close> Every loop over a list is structural recursion. The SCAN loop follows a
  server and may not end: it is a \<open>partial_function\<close>, its value \<open>None\<close> is the outcome \<open>Hang\<close>, and
  \<open>Redis_Properties\<close> says exactly when it returns. Loops of a client over Next run with as many steps as there are
  entries, or one more, which the properties show to be enough. Schedules of goroutines are bounded by
  \<open>total_work\<close>, two steps for each lock call. No fuel is used elsewhere.

  \<^bold>\<open>Not modelled.\<close> Messages on standard output and the log other than the final report of the
  programs (their pictographs, Go's format of a duration and of a rate are left out of it); the
  contents of TLS configurations; the work of BadgerDB's garbage collection (its start is modelled; a
  panic of its goroutine, for an interval that is not positive, would end the process, and is a value
  beside the storage that the constructor returns, so that properties of the map assume a positive
  interval); the passing of time inside a Redis command (a missed deadline is an error of the
  client). Keys of Redis expire between calls, and within a call only where
  \<open>Redis_Properties\<close> says so; the migrations are for a target without expiry. Also not modelled:
  Go's memory model below the mutexes; the commented-out code in \<open>main_simple.go\<close>; tests
  and benchmarks. The counters, the pause after a batch and the context, which
  \<open>cmd/migrate-redis/main.go\<close> repeats from \<open>cmd/migrate-badger/main.go\<close> word for word, are modelled
  once, in \<open>Migration_Core\<close> and \<open>Config_Files\<close>.
\<close>

section \<open>The map over its backends\<close>

text \<open>
  C1. The map that \<open>New\<close> returns without a storage: any sequence of calls with keys other than K's
  zero value returns, whatever order Go's maps are visited in, and the replies are those of the
  specification started on the empty map; stores of present keys change nothing when
  overwriting is off.
\<close>

theorem default_map_correct:
  assumes "New allow ([] :: unit list) = Inl m"
    and "\<forall>(ord, c) \<in> set cs. is_order ord \<and> call_ok (\<lambda>k. k \<noteq> zk) (\<lambda>_. True) c"
  shows "\<exists>rs m'. map_run (direct_ops zk zv) m cs = Ret (rs, m') \<and>
    spec_run zk zv allow Map.empty (map snd cs) rs (direct_abs (mm_storage m'))"
proof -
  have m: "m = \<lparr>mm_storage = NewMightyMapDefaultStorage, mm_allowOverwrite = allow\<rparr>"
    using assms(1) by simp
  have "direct_inv_nz zk (mm_storage m)" "direct_abs (mm_storage m) = Map.empty"
    by (simp_all add: m direct_inv_nz_def direct_inv_def direct_abs_def NewMightyMapDefaultStorage_def)
  with direct_map.map_run_refines[OF assms(2), of m zv] show ?thesis by (auto simp: m)
qed

theorem default_map_correct_witness:
  "\<exists>rs m'. map_run (direct_ops (0::nat) ''none'')
      \<lparr>mm_storage = NewMightyMapDefaultStorage, mm_allowOverwrite = False\<rparr>
      [(\<lambda>m. m, CStore 1 ''a''), (rev, CStore 1 ''b''), (rev, CNext), (rev, CLen)] = Ret (rs, m') \<and>
    spec_run 0 ''none'' False Map.empty [CStore 1 ''a'', CStore 1 ''b'', CNext, CLen] rs
      (direct_abs (mm_storage m'))"
proof -
  have n: "New False ([] :: unit list) =
      Inl \<lparr>mm_storage = NewMightyMapDefaultStorage, mm_allowOverwrite = False\<rparr>" by simp
  have c: "\<forall>(ord, c) \<in> set [(\<lambda>m. m, CStore 1 ''a''), (rev, CStore 1 ''b''), (rev, CNext), (rev, CLen)].
      is_order ord \<and> call_ok (\<lambda>k. k \<noteq> (0::nat)) (\<lambda>_. True) c" by simp
  from default_map_correct[OF n c, of "''none''"] show ?thesis by (simp only: list.map prod.sel)
qed

text \<open>
  C2. The map over an SQLite database, from the constructor on: opened on a database whose table is
  empty or missing, through the MessagePack adapter, any sequence of calls within the bounds of the
  database refines the specification, whatever the clock reads at each call; so the count cache
  never shows.
\<close>

theorem sqlite_map_correct:
  assumes "opts = apply_opts optfuncs getDefaultSQLiteOptions" "opens_ok os api up tabs opts db0"
    and "sqlite_ok api up tabs txtabs ident kfit vfit" "ident (sq_opt_tableName opts)"
    and "old_table tabs opts db0 = Map.empty"
    and "msgpack_ok (cd_mp cd) gen plain" "registry_ok T reg"
    and "\<forall>(clk, c) \<in> set cs. call_ok (key_ok kc kfit) (adapter_vok cd plain T vfit) c"
  shows "\<exists>s m rs m'. NewMightyMapSQLiteStorage os api ord optfuncs = Ret s \<and>
    New allow [newMsgpackAdapter s reg] = Inr m \<and>
    map_run (\<lambda>clk. adapter_ops cd (sqlite_ops kc api zk clk)) m cs = Ret (rs, m') \<and>
    spec_run zk (cd_zero cd) allow Map.empty (map snd cs) rs
      (adapter_abs cd (sqlite_abs kc tabs kfit) (mm_storage m'))"
proof -
  let ?inv = "adapter_inv cd gen plain T vfit (sqlite_inv kc api up tabs txtabs ident kfit vfit)
      (sqlite_abs kc tabs kfit)"
  obtain s where s: "NewMightyMapSQLiteStorage os api ord optfuncs = Ret s"
    and i: "?inv (newMsgpackAdapter s reg)"
    and a: "adapter_abs cd (sqlite_abs kc tabs kfit) (newMsgpackAdapter s reg) = Map.empty"
    using sqlite_new_adapter[OF assms(1-7), of ord] by blast
  let ?m = "\<lparr>mm_storage = newMsgpackAdapter s reg, mm_allowOverwrite = allow\<rparr>"
  have c: "\<forall>(clk, c) \<in> set cs. True \<and> call_ok (key_ok kc kfit) (adapter_vok cd plain T vfit) c"
    using assms(8) by simp
  have "?inv (mm_storage ?m)" using i by simp
  from sqlite_map.map_run_refines[OF c this, of zk] s a
  show ?thesis by (auto intro!: exI[of _ s] exI[of _ ?m])
qed

theorem sqlite_map_correct_witness:
  "\<exists>s m rs m'. NewMightyMapSQLiteStorage (list_open []) list_sqlite (\<lambda>m. m) list_optfuncs = Ret s \<and>
    New True [newMsgpackAdapter s Map.empty] = Inr m \<and>
    map_run (\<lambda>clk. adapter_ops int_codec (sqlite_ops str_keys list_sqlite '''' clk)) m
      [(int, CLen), (int, CStore ''k'' (GVal int_type 3)), (\<lambda>n. 0, CLen)] = Ret (rs, m') \<and>
    spec_run '''' (cd_zero int_codec) True Map.empty
      [CLen, CStore ''k'' (GVal int_type 3), CLen] rs
      (adapter_abs int_codec (sqlite_abs str_keys list_tabs (\<lambda>_. True)) (mm_storage m'))"
proof -
  have mp: "msgpack_ok (cd_mp int_codec) toy_gen toy_values" by (simp only: int_codec_mp toy_mp_ok)
  have old: "old_table list_tabs list_opts [] = Map.empty" by (simp add: list_old_table)
  have c: "\<forall>(clk, c) \<in> set [(int, CLen), (int, CStore ''k'' (GVal int_type 3)), (\<lambda>n. 0, CLen)].
      call_ok (key_ok str_keys (\<lambda>_. True)) (adapter_vok int_codec toy_values toy_types (\<lambda>_. True)) c"
    by simp
  have "gomap_ok ([] :: entries)" by simp
  from sqlite_map_correct[OF refl list_opens_ok[OF this] list_sqlite_ok list_opts_ident old mp
      toy_registry_ok c]
  show ?thesis by (simp only: list.map prod.sel)
qed

text \<open>
  C3. What a process stored in an SQLite database is what the next one finds: after any calls of a
  first process, a second one whose constructor opens the same table, with a clock and options of its
  own, continues the specification where the first one ended. If V is no interface type, it may start
  with any registry; if V is one, as \<open>any\<close> in an example of the README, it must have registered the types
  that the first process knew at its end, since a process registers a type by itself only when it
  stores a value of it.
\<close>

theorem sqlite_map_survives_restart:
  assumes "opts1 = apply_opts optfuncs1 getDefaultSQLiteOptions" "opens_ok os1 api up tabs opts1 db1"
    and "sqlite_ok api up tabs txtabs ident kfit vfit" "ident (sq_opt_tableName opts1)"
    and "old_table tabs opts1 db1 = Map.empty"
    and "msgpack_ok (cd_mp cd) gen plain" "registry_ok T reg1"
    and "\<forall>(clk, c) \<in> set (cs1 @ cs2). call_ok (key_ok kc kfit) (adapter_vok cd plain T vfit) c"
    and "NewMightyMapSQLiteStorage os1 api ord1 optfuncs1 = Ret s1"
    and "New allow1 [newMsgpackAdapter s1 reg1] = Inr m1"
    and "map_run (\<lambda>clk. adapter_ops cd (sqlite_ops kc api zk clk)) m1 cs1 = Ret (rs1, m1')"
    and "opts2 = apply_opts optfuncs2 getDefaultSQLiteOptions" "opens_ok os2 api up tabs opts2 db2"
    and "ident (sq_opt_tableName opts2)"
    and "old_table tabs opts2 db2 = sqlite_table tabs (stored m1')"
    and "registry_ok T reg2"
    and "type_Kind (cd_type cd) \<noteq> Interface \<or> ad_registry (mm_storage m1') \<subseteq>\<^sub>m reg2"
  shows "\<exists>mp s2 m2 rs2 m2'. spec_run zk (cd_zero cd) allow1 Map.empty (map snd cs1) rs1 mp \<and>
    NewMightyMapSQLiteStorage os2 api ord2 optfuncs2 = Ret s2 \<and>
    New allow2 [newMsgpackAdapter s2 reg2] = Inr m2 \<and>
    map_run (\<lambda>clk. adapter_ops cd (sqlite_ops kc api zk clk)) m2 cs2 = Ret (rs2, m2') \<and>
    spec_run zk (cd_zero cd) allow2 mp (map snd cs2) rs2
      (adapter_abs cd (sqlite_abs kc tabs kfit) (mm_storage m2'))"
proof -
  let ?inv = "adapter_inv cd gen plain T vfit (sqlite_inv kc api up tabs txtabs ident kfit vfit)
      (sqlite_abs kc tabs kfit)"
  let ?abs = "adapter_abs cd (sqlite_abs kc tabs kfit)"
  have ok: "\<forall>(clk, c) \<in> set cs. True \<and> call_ok (key_ok kc kfit) (adapter_vok cd plain T vfit) c"
    if "set cs \<subseteq> set (cs1 @ cs2)" for cs using assms(8) that by fast
  have c: "\<forall>(clk, c) \<in> set cs1. True \<and> call_ok (key_ok kc kfit) (adapter_vok cd plain T vfit) c"
    "\<forall>(clk, c) \<in> set cs2. True \<and> call_ok (key_ok kc kfit) (adapter_vok cd plain T vfit) c"
    by (rule ok, simp)+
  have m1: "mm_storage m1 = newMsgpackAdapter s1 reg1" "mm_allowOverwrite m1 = allow1"
    using assms(10) by auto
  have i: "?inv (mm_storage m1)" and a: "?abs (mm_storage m1) = Map.empty"
    using sqlite_new_adapter[OF assms(1-7), of ord1] assms(9) unfolding m1(1) by auto
  from sqlite_map.map_run_refines[OF c(1) i, of zk] assms(11)
  have i1: "?inv (mm_storage m1')"
    and r1: "spec_run zk (cd_zero cd) allow1 Map.empty (map snd cs1) rs1 (?abs (mm_storage m1'))"
    unfolding m1(2) a by auto
  obtain s2 where s2: "NewMightyMapSQLiteStorage os2 api ord2 optfuncs2 = Ret s2"
    and i2: "?inv (newMsgpackAdapter s2 reg2)"
    and a2: "?abs (newMsgpackAdapter s2 reg2) = ?abs (mm_storage m1')"
    using sqlite_reopened_adapter[OF assms(12,13,3,14) i1 assms(15-17), of ord2] by blast
  let ?m = "\<lparr>mm_storage = newMsgpackAdapter s2 reg2, mm_allowOverwrite = allow2\<rparr>"
  have "?inv (mm_storage ?m)" using i2 by simp
  from sqlite_map.map_run_refines[OF c(2) this, of zk] r1 s2 a2
  show ?thesis by (auto intro!: exI[of _ "?abs (mm_storage m1')"] exI[of _ s2] exI[of _ ?m])
qed

theorem sqlite_map_survives_restart_witness:
  "\<exists>s1 m1 rs1 m1' mp s2 m2 rs2 m2'.
    NewMightyMapSQLiteStorage (list_open []) list_sqlite (\<lambda>m. m) list_optfuncs = Ret s1 \<and>
    New True [newMsgpackAdapter s1 Map.empty] = Inr m1 \<and>
    map_run (\<lambda>clk. adapter_ops any_codec (sqlite_ops str_keys list_sqlite '''' clk)) m1
      [(int, CStore ''k'' (GVal int_type 3)), (int, CLen)] = Ret (rs1, m1') \<and>
    spec_run '''' (cd_zero any_codec) True Map.empty [CStore ''k'' (GVal int_type 3), CLen] rs1 mp \<and>
    NewMightyMapSQLiteStorage (list_open (sl_db (stored m1'))) list_sqlite rev list_optfuncs = Ret s2 \<and>
    New False [newMsgpackAdapter s2 (ad_registry (mm_storage m1'))] = Inr m2 \<and>
    map_run (\<lambda>clk. adapter_ops any_codec (sqlite_ops str_keys list_sqlite '''' clk)) m2
      [(int, CStore ''k'' (GVal int_type 4)), (int, CPop ''k'')] = Ret (rs2, m2') \<and>
    spec_run '''' (cd_zero any_codec) False mp [CStore ''k'' (GVal int_type 4), CPop ''k''] rs2
      (adapter_abs any_codec (sqlite_abs str_keys list_tabs (\<lambda>_. True)) (mm_storage m2'))"
proof -
  let ?cs1 = "[(int, CStore ''k'' (GVal int_type 3)), (int, CLen)]"
  let ?cs2 = "[(int, CStore ''k'' (GVal int_type 4)), (int, CPop ''k'')]"
  let ?cok = "call_ok (key_ok str_keys (\<lambda>_. True)) (adapter_vok any_codec toy_values toy_types (\<lambda>_. True))"
  have mp: "msgpack_ok (cd_mp any_codec) toy_gen toy_values" by (simp only: int_codec_mp toy_mp_ok)
  have old: "old_table list_tabs list_opts [] = Map.empty" by (simp add: list_old_table)
  have nil: "gomap_ok ([] :: entries)" by simp
  have c: "\<forall>(clk, c) \<in> set (?cs1 @ ?cs2). ?cok c" "\<forall>(clk, c) \<in> set ?cs1. True \<and> ?cok c" by simp_all
  let ?sinv = "sqlite_inv str_keys list_sqlite gomap_ok list_tabs list_txtabs t_ident (\<lambda>_. True) (\<lambda>_. True)"
  let ?inv = "adapter_inv any_codec toy_gen toy_values toy_types (\<lambda>_. True) ?sinv
      (sqlite_abs str_keys list_tabs (\<lambda>_. True))"
  obtain s1 where s1: "NewMightyMapSQLiteStorage (list_open []) list_sqlite (\<lambda>m. m) list_optfuncs = Ret s1"
    and i: "?inv (newMsgpackAdapter s1 Map.empty)"
    using sqlite_new_adapter[OF refl list_opens_ok[OF nil] list_sqlite_ok list_opts_ident old mp
        toy_registry_ok] by blast
  let ?m1 = "\<lparr>mm_storage = newMsgpackAdapter s1 Map.empty, mm_allowOverwrite = True\<rparr>"
  have m1: "New True [newMsgpackAdapter s1 Map.empty] = Inr ?m1" and i1: "?inv (mm_storage ?m1)"
    using i by simp_all
  from sqlite_map.map_run_refines[OF c(2) i1, of "''''"]
  obtain rs1 m1' where r1: "map_run (\<lambda>clk. adapter_ops any_codec (sqlite_ops str_keys list_sqlite '''' clk))
      ?m1 ?cs1 = Ret (rs1, m1')" and i2: "?inv (mm_storage m1')" by blast
  note left = list_sqlite_left[OF adapter_invD(3)[OF i2]]
  from sqlite_map_survives_restart[OF refl list_opens_ok[OF nil] list_sqlite_ok list_opts_ident old mp
      toy_registry_ok c(1) s1 m1 r1 refl list_opens_ok[OF left(1)] list_opts_ident left(2) adapter_invD(2)[OF i2]
      disjI2[OF map_le_refl], of rev False] s1 m1 r1
  show ?thesis unfolding list.map prod.sel by blast
qed

text \<open>
  C4. The map over Redis, from the constructor on: with any options whose prefix is not empty and
  has none of the characters special to MATCH, and with a server that returns each key once in a
  SCAN iteration and holds no key under the prefix at first, any sequence of calls refines the
  specification, whatever other clients do to the server between the calls under other prefixes.
  If the options set an expiry, entries may be gone before each call, and that is all.
\<close>

theorem redis_map_correct:
  assumes opts: "opts = apply_opts optfuncs getDefaultRedisOptions" "prefix opts = p"
    and p: "p \<noteq> []" "glob_free p"
    and db: "db = redis_client new_client runT empty_tls opts"
    and server: "redis_ok api up dbmap fit" "up db" "scan_once api up" "cut_prefix p (dbmap db) = Map.empty"
    and env: "env_ok env up dbmap p (expire opts = 0)"
    and s: "s = NewMightyMapRedisStorage new_client runT empty_tls optfuncs"
    and mp: "msgpack_ok (cd_mp cd) gen plain" "registry_ok T reg"
    and m: "New allow [newMsgpackAdapter s reg] = Inr m"
    and c: "\<forall>(e, c) \<in> set cs. call_ok (redis_kok kc fit p) (adapter_vok cd plain T fit) c"
  shows "\<exists>rs m'. env_run (redis_env env) (\<lambda>_. adapter_ops cd (redis_ops kc api zk)) m cs = Ret (rs, m') \<and>
    (let a = adapter_abs cd (redis_abs kc dbmap fit p) (mm_storage m') in
     if expire opts = 0 then spec_run zk (cd_zero cd) allow Map.empty (map snd cs) rs a
     else fading_run zk (cd_zero cd) allow False Map.empty (map snd cs) rs a)"
proof -
  let ?inv = "redis_once kc api up dbmap fit p" and ?abs = "redis_abs kc dbmap fit p"
  have m: "m = \<lparr>mm_storage = newMsgpackAdapter s reg, mm_allowOverwrite = allow\<rparr>" using m by simp
  have "?inv s" "?abs s = Map.empty"
    using redis_opens_empty[OF opts p db server(1,2,4), of kc] server(3) by (simp_all add: s)
  note f = adapter_fresh[where sinv = ?inv and amap = ?abs, OF mp this]
  have i: "adapter_inv cd gen plain T fit ?inv ?abs (mm_storage m)"
    and a: "adapter_abs cd ?abs (mm_storage m) = Map.empty"
    unfolding m mightymap.simps by (rule f)+
  have c: "\<forall>(e, c) \<in> set cs. True \<and> call_ok (redis_kok kc fit p) (adapter_vok cd plain T fit) c"
    using c by simp
  have "\<forall>e a. adapter_inv cd gen plain T fit ?inv ?abs a \<longrightarrow>
      adapter_inv cd gen plain T fit ?inv ?abs (redis_env env e a) \<and>
      adapter_abs cd ?abs (redis_env env e a) \<subseteq>\<^sub>m adapter_abs cd ?abs a \<and>
      (expire opts = 0 \<longrightarrow> adapter_abs cd ?abs (redis_env env e a) = adapter_abs cd ?abs a)"
    by (intro allI impI conjI) (erule redis_env_keeps[OF env]; assumption?)+
  from redis_map.env_run_refines[OF c i this, of zk] show ?thesis
    unfolding a unfolding m by (cases "expire opts = 0") (auto simp: fading_run_keeps Let_def)
qed

text \<open>Before a call, the key \<open>app:a\<close> expires, or another program writes a key of its own.\<close>

definition busy_server :: "bool \<Rightarrow> entries \<Rightarrow> entries" where
  "busy_server late db =
     (if late then AList.delete ''app:a'' db else AList.update ''other:a'' ''2'' db)"

lemma busy_server_ok: "env_ok busy_server gomap_ok map_of ''app:'' False"
  by (auto simp: env_ok_def busy_server_def cut_prefix_def map_le_def kv_simps)

theorem redis_map_correct_witness:
  "\<exists>rs m'. env_run (redis_env busy_server) (\<lambda>_. adapter_ops any_codec (redis_ops str_keys list_redis []))
      \<lparr>mm_storage = newMsgpackAdapter (NewMightyMapRedisStorage (\<lambda>_. foreign_entries) (\<lambda>_::unit. []) ()
          [WithRedisExpire 1000, WithRedisPrefix ''app:'']) Map.empty, mm_allowOverwrite = True\<rparr>
      [(False, CStore ''a'' (GStr ''x'')), (False, CKeys), (True, CPop ''a''), (True, CLen)] = Ret (rs, m') \<and>
    fading_run [] (cd_zero any_codec) True False Map.empty
      [CStore ''a'' (GStr ''x''), CKeys, CPop ''a'', CLen]
      rs (adapter_abs any_codec (redis_abs str_keys map_of (\<lambda>_. True) ''app:'') (mm_storage m'))"
proof -
  let ?fs = "[WithRedisExpire 1000, WithRedisPrefix ''app:''] :: ((unit, unit) redisOpts \<Rightarrow> _) list"
  let ?opts = "apply_opts ?fs getDefaultRedisOptions"
  let ?s = "NewMightyMapRedisStorage (\<lambda>_. foreign_entries) (\<lambda>_::unit. []) () ?fs"
  have o: "prefix ?opts = ''app:''" "(expire ?opts = 0) = False"
    by (simp_all add: WithRedisExpire_def WithRedisPrefix_def getDefaultRedisOptions_def)
  have p: "''app:'' \<noteq> []" "glob_free ''app:''" by (simp_all add: glob_free_def)
  have db: "foreign_entries = redis_client (\<lambda>_. foreign_entries) (\<lambda>_::unit. []) () ?opts"
    by (simp add: redis_client_def)
  have u: "gomap_ok foreign_entries" "cut_prefix ''app:'' (map_of foreign_entries) = Map.empty"
    by (rule foreign_entries_ok)+
  have env: "env_ok busy_server gomap_ok map_of ''app:'' (expire ?opts = 0)"
    unfolding o(2) by (rule busy_server_ok)
  have n: "New True [newMsgpackAdapter ?s Map.empty] =
      Inr \<lparr>mm_storage = newMsgpackAdapter ?s Map.empty, mm_allowOverwrite = True\<rparr>" by simp
  have mp: "msgpack_ok (cd_mp any_codec) toy_gen toy_values" by (simp only: int_codec_mp toy_mp_ok)
  have c: "\<forall>(e, c) \<in> set [(False, CStore ''a'' (GStr ''x'')), (False, CKeys), (True, CPop ''a''), (True, CLen)].
      call_ok (redis_kok str_keys (\<lambda>_. True) ''app:'') (adapter_vok any_codec toy_values toy_types (\<lambda>_. True)) c"
    by simp
  from redis_map_correct[OF refl o(1) p db list_redis_ok u(1) list_redis_once u(2) env refl mp
      toy_registry_ok n c]
  show ?thesis by (simp only: o(2) Let_def if_False list.map prod.sel)
qed

text \<open>
  C6. The map over BadgerDB with overwriting off, from the constructor on: with any options that have
  a positive interval for the garbage collection and with which the database opens, empty, the
  goroutine for the collection starts with the interval and the share of the options, and any
  sequence of calls refines the specification, Len included, as long as there are fewer than
  \<open>2 ^ 63\<close> of them. (With any other interval that goroutine panics, which ends the process.)
\<close>

theorem badger_map_correct:
  assumes opts: "opts = apply_opts optfuncs (getDefaultBadgerOptions tmp nano lvlERROR half)"
    and db: "bopen (badger_options_of opts) = Inr db" "badger_ok api opn dbmap kfit vfit" "opn db"
    and empty: "dbmap db = Map.empty" and gc: "gcInterval opts > 0"
    and "msgpack_ok (cd_mp cd) gen plain" "registry_ok T reg"
    and cs: "list_all (call_ok (key_ok kc kfit) (adapter_vok cd plain T vfit)) cs" "length cs < 2 ^ 63"
  shows "\<exists>s m rs m'.
    NewMightyMapBadgerStorage bopen (getDefaultBadgerOptions tmp nano lvlERROR half) optfuncs =
      Ret (s, Ret (gcInterval opts, gcPercentage opts)) \<and>
    New False [newMsgpackAdapter s reg] = Inr m \<and>
    map_run (\<lambda>_::unit. adapter_ops cd (badger_ops kc api zk)) m (map (Pair ()) cs) =
      Ret (rs, m') \<and>
    spec_run zk (cd_zero cd) False Map.empty cs rs
      (adapter_abs cd (badger_abs kc dbmap kfit) (mm_storage m'))"
proof -
  let ?inv = "badger_inv kc api opn dbmap kfit vfit" and ?abs = "badger_abs kc dbmap kfit"
  have "keys_decode kc kfit (dbmap db)" "\<forall>v \<in> ran (dbmap db). vfit v" "key_map kc kfit (dbmap db) = Map.empty"
    by (simp_all add: empty keys_decode_def)
  then obtain s where s: "NewMightyMapBadgerStorage bopen (getDefaultBadgerOptions tmp nano lvlERROR half)
      optfuncs = Ret (s, gc_goroutine opts)" "?inv s" "?abs s = Map.empty" "\<not> bg_initLenCall s"
    using badger_constructor_opens[where dbmap = dbmap and opn = opn and bopen = bopen and opts = opts, OF opts db, of kc] by auto
  let ?m = "\<lparr>mm_storage = newMsgpackAdapter s reg, mm_allowOverwrite = False\<rparr>"
  note f = adapter_fresh[where sinv = ?inv and amap = ?abs, OF assms(7,8) s(2,3)]
  have i: "adapter_inv cd gen plain T vfit ?inv ?abs (mm_storage ?m)"
    and a: "adapter_abs cd ?abs (mm_storage ?m) = Map.empty"
    unfolding mightymap.simps by (rule f)+
  have st: "stored ?m = s" by (simp add: newMsgpackAdapter_def)
  have ex: "badger_exact kc dbmap kfit (stored ?m)" using s(4) unfolding badger_exact_def st by blast
  have sz: "card (dom (badger_abs kc dbmap kfit (stored ?m))) + length cs < 2 ^ 63"
    using s(3) cs(2) unfolding st by simp
  have ov: "\<not> mm_allowOverwrite ?m" by simp
  have n: "New False [newMsgpackAdapter s reg] = Inr ?m" by simp
  show ?thesis
    using badger_map_run[OF i ov ex cs(1) sz, of zk] s(1) n gc unfolding a gc_goroutine_def
    by (auto intro!: exI[of _ s] exI[of _ ?m])
qed

theorem badger_map_correct_witness:
  "\<exists>s m rs m'.
    NewMightyMapBadgerStorage (\<lambda>_. Inr []) (getDefaultBadgerOptions ''/tmp'' 42 3 (1::nat)) [WithGcInterval 60] =
      Ret (s, Ret (60, 1)) \<and>
    New False [newMsgpackAdapter s Map.empty] = Inr m \<and>
    map_run (\<lambda>_::unit. adapter_ops int_codec (badger_ops str_keys list_badger [])) m
      (map (Pair ()) [CLen, CStore ''a'' (GVal int_type 1), CStore ''a'' (GVal int_type 2), CLen]) =
      Ret (rs, m') \<and>
    spec_run [] (cd_zero int_codec) False Map.empty
      [CLen, CStore ''a'' (GVal int_type 1), CStore ''a'' (GVal int_type 2), CLen] rs
      (adapter_abs int_codec (badger_abs str_keys map_of (\<lambda>_. True)) (mm_storage m'))"
proof -
  have u: "gomap_ok ([] :: entries)" "map_of ([] :: entries) = Map.empty" by simp_all
  have mp: "msgpack_ok (cd_mp int_codec) toy_gen toy_values" by (simp only: int_codec_mp toy_mp_ok)
  let ?opts = "apply_opts [WithGcInterval 60] (getDefaultBadgerOptions ''/tmp'' 42 3 (1::nat))"
  have gc: "gcInterval ?opts > 0" "gcInterval ?opts = 60" "gcPercentage ?opts = 1"
    by (simp_all add: WithGcInterval_def getDefaultBadgerOptions_def)
  have c: "list_all (call_ok (key_ok str_keys (\<lambda>_. True))
      (adapter_vok int_codec toy_values toy_types (\<lambda>_. True)))
      [CLen, CStore ''a'' (GVal int_type 1), CStore ''a'' (GVal int_type 2), CLen]"
    "length [CLen, CStore ''a'' (GVal int_type 1), CStore ''a'' (GVal int_type 2), CLen] < 2 ^ 63" by simp_all
  from badger_map_correct[where optfuncs = "[WithGcInterval 60]" and tmp = "''/tmp''" and nano = 42
      and lvlERROR = 3 and half = "1 :: nat" and zk = "[]",
      OF refl refl list_badger_ok u gc(1) mp toy_registry_ok c]
  show ?thesis unfolding gc(2,3) .
qed

text \<open>
  C7. The map over \<open>swiss.Map\<close>: any sequence of calls with keys other than K's zero value refines
  the specification, whatever order the library visits its entries in.
\<close>

theorem swiss_map_correct:
  assumes "swiss_ok api mabs" "NewMightyMapSwissStorage api goVersion optfuncs = (warned, s)"
    and "msgpack_ok (cd_mp cd) gen plain" "registry_ok T reg"
    and "New allow [newMsgpackAdapter s reg] = Inr m"
    and "\<forall>(e, c) \<in> set cs. call_ok (\<lambda>k. k \<noteq> zk) (adapter_vok cd plain T (\<lambda>_. True)) c"
  shows "\<exists>rs m'. map_run (\<lambda>e. adapter_ops cd (swiss_ops api zk e)) m cs = Ret (rs, m') \<and>
    spec_run zk (cd_zero cd) allow Map.empty (map snd cs) rs
      (adapter_abs cd (swiss_abs mabs) (mm_storage m'))"
proof -
  let ?inv = "swiss_inv_nz api mabs zk" and ?abs = "swiss_abs mabs"
  have m: "m = \<lparr>mm_storage = newMsgpackAdapter s reg, mm_allowOverwrite = allow\<rparr>"
    using assms(5) by simp
  have e: "?abs s = Map.empty"
    using assms(1,2) by (auto simp: NewMightyMapSwissStorage_def swiss_abs_def swiss_okD)
  then have si: "?inv s" using assms(1) by (simp add: swiss_inv_nz_def)
  have i: "adapter_inv cd gen plain T (\<lambda>_. True) ?inv ?abs (mm_storage m)"
    unfolding m mightymap.simps
    by (rule adapter_fresh(1)[where sinv = ?inv and amap = ?abs, OF assms(3,4) si e])
  have a: "adapter_abs cd ?abs (mm_storage m) = Map.empty"
    unfolding m mightymap.simps
    by (rule adapter_fresh(2)[where sinv = ?inv and amap = ?abs, OF assms(3,4) si e])
  have c: "\<forall>(e, c) \<in> set cs. True \<and> call_ok (\<lambda>k. k \<noteq> zk) (adapter_vok cd plain T (\<lambda>_. True)) c"
    using assms(6) by simp
  from swiss_map.map_run_refines[OF c i] show ?thesis unfolding a unfolding m by auto
qed

theorem swiss_map_correct_witness:
  "\<exists>rs m'. map_run (\<lambda>e. adapter_ops int_codec (swiss_ops list_swiss [] e))
      \<lparr>mm_storage = newMsgpackAdapter \<lparr>swiss_data = []\<rparr> Map.empty, mm_allowOverwrite = True\<rparr>
      [(True, CStore ''a'' (GVal int_type 1)), (False, CNext), (True, CLen)] = Ret (rs, m') \<and>
    spec_run [] (cd_zero int_codec) True Map.empty
      [CStore ''a'' (GVal int_type 1), CNext, CLen] rs
      (adapter_abs int_codec (swiss_abs map_of) (mm_storage m'))"
proof -
  have s: "NewMightyMapSwissStorage list_swiss ''go1.21'' [] =
      (checkGoVersion ''go1.21'', \<lparr>swiss_data = []\<rparr>)"
    by (simp add: NewMightyMapSwissStorage_def list_swiss_def)
  have n: "New True [newMsgpackAdapter \<lparr>swiss_data = []\<rparr> Map.empty] =
      Inr \<lparr>mm_storage = newMsgpackAdapter \<lparr>swiss_data = []\<rparr> Map.empty, mm_allowOverwrite = True\<rparr>"
    by simp
  have mp: "msgpack_ok (cd_mp int_codec) toy_gen toy_values" by (simp only: int_codec_mp toy_mp_ok)
  have c: "\<forall>(e, c) \<in> set [(True, CStore ''a'' (GVal int_type 1)), (False, CNext), (True, CLen)].
      call_ok (\<lambda>k. k \<noteq> []) (adapter_vok int_codec toy_values toy_types (\<lambda>_. True)) c"
    by simp
  from swiss_map_correct[OF list_swiss_ok s mp toy_registry_ok n c]
  show ?thesis by (simp only: list.map prod.sel)
qed

end
